(* ===== verification/Eyax_Prelude.thy ===== *)
theory Eyax_Prelude
  imports Main "HOL-Library.Word" "HOL-Library.Monad_Syntax"
begin

text \<open>
  Shared vocabulary of the eyaX development: the machine integer types of the C sources, C string
  literals as byte lists, the two shapes of a counted C \<^verbatim>\<open>for\<close> loop with their invariant rules,
  bits of a byte, and the word lemmas that every component uses.

  A result of type \<open>'a option\<close> is \<open>None\<close> where the C code has no defined behaviour (an access
  outside of an array, a signed overflow, a variadic argument that was not passed) or does not
  return.
\<close>

unbundle bit_operations_syntax

type_synonym u8 = "8 word"
type_synonym u16 = "16 word"
type_synonym u32 = "32 word"
type_synonym u64 = "64 word"

named_theorems word_nat \<open>transfer of word comparisons to natural numbers\<close>
named_theorems byte_bits \<open>bits of a byte after setting, clearing and testing one of them\<close>

section \<open>Words as natural numbers\<close>

lemmas [word_nat] = word_less_nat_alt word_le_nat_alt

lemma unat_lt64 [simp]: "unat (x :: u64) < 18446744073709551616"
  using unsigned_less [of x] by simp

lemma unat_lt32 [simp]: "unat (x :: u32) < 4294967296"
  using unsigned_less [of x] by simp

lemma unat_lt16 [simp]: "unat (x :: u16) < 65536"
  using unsigned_less [of x] by simp

lemma unat_lt8 [simp]: "unat (x :: u8) < 256"
  using unsigned_less [of x] by simp

lemma unat_Suc_less: "i < n \<Longrightarrow> unat (i + 1) = Suc (unat i)" for i n :: "'a::len word"
  by (metis add.commute add_eq_0_iff leD unatSuc word_n1_ge)

lemma unat_add_no_wrap: "unat a + unat b < 2 ^ LENGTH('a) \<Longrightarrow> unat (a + b) = unat a + unat b"
  for a b :: "'a::len word"
  by (simp add: unat_word_ariths)

lemma unat_mult_no_wrap: "unat a * unat b < 2 ^ LENGTH('a) \<Longrightarrow> unat (a * b) = unat a * unat b"
  for a b :: "'a::len word"
  by (simp add: unat_word_ariths)

lemma word_eq_unatI: "unat a = unat b \<Longrightarrow> a = b" for a b :: "'a::len word"
  by (simp add: word_unat_eq_iff)

lemma unat_ucast_up:
  "LENGTH('a) \<le> LENGTH('b) \<Longrightarrow> unat (ucast w :: 'b::len word) = unat w" for w :: "'a::len word"
  by (metis unsigned_ucast_eq take_bit_nat_eq_self_iff order_less_le_trans unsigned_less
      power_increasing one_le_numeral)

lemma unat_of_nat64: "n < 2 ^ 64 \<Longrightarrow> unat (word_of_nat n :: u64) = n"
  by (subst unat_of_nat) simp

lemma grid_eq_iff:
  "b < P \<Longrightarrow> b' < P \<Longrightarrow> a * P + b = a' * P + b' \<longleftrightarrow> a = a' \<and> b = b'" for a b P :: nat
  by (metis add_right_cancel div_mult_self3 mod_mult_self3 div_less mod_less add.right_neutral
      add.commute less_nat_zero_code)

section \<open>Counted loops\<close>

text \<open>
  \<^verbatim>\<open>for (T i = lo; i < n; i++) body\<close>, with the counter at its own width.
\<close>

function for_range :: "'a::len word \<Rightarrow> 'a word \<Rightarrow> ('a word \<Rightarrow> 's \<Rightarrow> 's) \<Rightarrow> 's \<Rightarrow> 's" where
  "for_range i n body s = (if i < n then for_range (i + 1) n body (body i s) else s)"
  by pat_completeness auto
termination
  by (relation "measure (\<lambda>(i, n, body, s). unat n - unat i)")
    (auto simp: unat_Suc_less word_less_nat_alt)

text \<open>The same loop when an iteration may have no defined result.\<close>

function for_range_opt ::
  "'a::len word \<Rightarrow> 'a word \<Rightarrow> ('a word \<Rightarrow> 's \<Rightarrow> 's option) \<Rightarrow> 's \<Rightarrow> 's option" where
  "for_range_opt i n body s =
     (if i < n then
        (case body i s of None \<Rightarrow> None | Some s' \<Rightarrow> for_range_opt (i + 1) n body s')
      else Some s)"
  by pat_completeness auto
termination
  by (relation "measure (\<lambda>(i, n, body, s). unat n - unat i)")
    (auto simp: unat_Suc_less word_less_nat_alt)

declare for_range.simps [simp del] for_range_opt.simps [simp del]

lemma for_range_done [simp]: "\<not> i < n \<Longrightarrow> for_range i n body s = s"
  by (simp add: for_range.simps)

lemma for_range_step: "i < n \<Longrightarrow> for_range i n body s = for_range (i + 1) n body (body i s)"
  by (simp add: for_range.simps [of i])

lemma for_range_opt_done [simp]: "\<not> i < n \<Longrightarrow> for_range_opt i n body s = Some s"
  by (simp add: for_range_opt.simps)

lemma for_range_opt_step:
  "i < n \<Longrightarrow> for_range_opt i n body s = Option.bind (body i s) (for_range_opt (i + 1) n body)"
  by (simp add: for_range_opt.simps [of i] split: option.split)

lemma word_Suc_le_of_less: "i < n \<Longrightarrow> i + 1 \<le> n" for i n :: "'a::len word"
  by (simp add: unat_Suc_less word_nat)

lemma word_atLeastLessThan_Suc:
  "i \<le> j \<Longrightarrow> j < n \<Longrightarrow> {i..<j + 1} = insert j {i..<j}" for i j n :: "'a::len word"
  by (auto simp: unat_Suc_less word_nat word_unat_eq_iff)

lemma for_range_inv:
  assumes "P i s" and "i \<le> n"
    and step: "\<And>j t. i \<le> j \<Longrightarrow> j < n \<Longrightarrow> P j t \<Longrightarrow> P (j + 1) (body j t)"
  shows "P n (for_range i n body s)"
  using assms
proof (induction i n body s rule: for_range.induct)
  case (1 i n body s)
  show ?case
  proof (cases "i < n")
    case True
    have le: "i \<le> j" if "i + 1 \<le> j" for j
      using that True by (simp add: unat_Suc_less word_nat)
    have "P n (for_range (i + 1) n body (body i s))"
      using "1.prems" True le by (intro "1.IH") (auto intro: word_Suc_le_of_less)
    then show ?thesis using True by (simp add: for_range_step)
  next
    case False
    with "1.prems" show ?thesis by simp
  qed
qed

lemma for_range_opt_inv:
  assumes "P i s" and "i \<le> n"
    and step: "\<And>j t. i \<le> j \<Longrightarrow> j < n \<Longrightarrow> P j t \<Longrightarrow> \<exists>t'. body j t = Some t' \<and> P (j + 1) t'"
  shows "\<exists>t. for_range_opt i n body s = Some t \<and> P n t"
  using assms
proof (induction i n body s rule: for_range_opt.induct)
  case (1 i n body s)
  show ?case
  proof (cases "i < n")
    case True
    then obtain s' where s': "body i s = Some s'" "P (i + 1) s'"
      using "1.prems" by blast
    have le: "i \<le> j" if "i + 1 \<le> j" for j
      using that True by (simp add: unat_Suc_less word_nat)
    have "\<exists>t. for_range_opt (i + 1) n body s' = Some t \<and> P n t"
      using "1.prems" True le s' by (intro "1.IH") (auto intro: word_Suc_le_of_less)
    then show ?thesis using True s' by (simp add: for_range_opt_step)
  next
    case False
    with "1.prems" show ?thesis by simp
  qed
qed

text \<open>A body without a defined result at some index leaves the loop without one.\<close>

lemma for_range_opt_none:
  assumes "i \<le> j" and "j < n" and "\<And>t. body j t = None"
  shows "for_range_opt i n body s = None"
  using assms
proof (induction i n body s rule: for_range_opt.induct)
  case (1 i n body s)
  then have lt: "i < n" by (simp add: word_nat)
  show ?case
  proof (cases "i = j")
    case False
    then have "i + 1 \<le> j" using "1.prems"(1) lt by (simp add: unat_Suc_less word_nat word_unat_eq_iff)
    then show ?thesis using "1.IH" [OF lt] "1.prems" lt by (cases "body i s") (simp_all add: for_range_opt_step)
  qed (use "1.prems"(3) lt in \<open>simp add: for_range_opt_step\<close>)
qed

section \<open>Strings\<close>

text \<open>The bytes of a C string literal, without and with its terminating zero.\<close>

definition bytes_of :: "string \<Rightarrow> u8 list" where
  "bytes_of s = map of_char s"

definition cstr :: "string \<Rightarrow> u8 list" where
  "cstr s = bytes_of s @ [0]"

lemma unat_of_char_u8 [simp]: "unat (of_char c :: u8) = of_char c"
proof -
  have "unat (word_of_nat (of_char c) :: u8) = of_char c mod 256"
    by (simp add: unat_of_nat)
  then show ?thesis by (simp add: of_nat_of_char)
qed

lemma of_char_u8_eq_iff [simp]: "(of_char k :: u8) = of_char j \<longleftrightarrow> k = j"
  by (metis unat_of_char_u8 of_char_eq_iff)

abbreviation chr :: "char \<Rightarrow> u8" where
  "chr c \<equiv> of_char c"

lemma bytes_of_eq_iff [simp]: "bytes_of s = bytes_of t \<longleftrightarrow> s = t"
  unfolding bytes_of_def by (rule inj_map_eq_map) (simp add: inj_on_def)

lemma bytes_of_eq_Nil [simp]: "bytes_of s = [] \<longleftrightarrow> s = []" "[] = bytes_of s \<longleftrightarrow> s = []"
  by (simp_all add: bytes_of_def)

lemma mem_bytes_of: "chr c \<in> set (bytes_of s) \<longleftrightarrow> c \<in> set s"
  by (auto simp: bytes_of_def)

lemma zero_mem_bytes_of [simp]: "0 \<in> set (bytes_of s) \<longleftrightarrow> CHR 0x00 \<in> set s"
  using mem_bytes_of [of "CHR 0x00" s] by simp

lemma percent_mem_bytes_of [simp]: "37 \<in> set (bytes_of s) \<longleftrightarrow> CHR ''%'' \<in> set s"
  using mem_bytes_of [of "CHR ''%''" s] by simp

end
