(* ===== verification/Eyax_Elf.thy ===== *)
theory Eyax_Elf
  imports Eyax_Prelude
begin

text \<open>
  The ELF64 loader foundation, \<^verbatim>\<open>src/elf.c\<close>: the on-disk header structures, the range and alignment
  helpers, header validation, program header access, segment validation and the validation of a
  complete image. An image is a pointer to a byte buffer, \<open>None\<close> for \<^verbatim>\<open>NULL\<close>, and a separate
  size argument, as in the C interface; a read outside of the buffer has no defined result.
\<close>

section \<open>Constants\<close>

text \<open>
  The macros that the checks use. A macro that is compared with fields of several widths is a word of
  any width; positions in \<^verbatim>\<open>e_ident\<close> are natural numbers.
\<close>

definition ELF_NIDENT :: nat where [simp]: "ELF_NIDENT = 16"
definition EI_MAG0 :: nat where [simp]: "EI_MAG0 = 0"
definition EI_MAG1 :: nat where [simp]: "EI_MAG1 = 1"
definition EI_MAG2 :: nat where [simp]: "EI_MAG2 = 2"
definition EI_MAG3 :: nat where [simp]: "EI_MAG3 = 3"
definition EI_CLASS :: nat where [simp]: "EI_CLASS = 4"
definition EI_DATA :: nat where [simp]: "EI_DATA = 5"
definition EI_VERSION :: nat where [simp]: "EI_VERSION = 6"
definition ELFMAG0 :: u8 where [simp]: "ELFMAG0 = 0x7F"
definition ELFMAG1 :: u8 where [simp]: "ELFMAG1 = chr CHR ''E''"
definition ELFMAG2 :: u8 where [simp]: "ELFMAG2 = chr CHR ''L''"
definition ELFMAG3 :: u8 where [simp]: "ELFMAG3 = chr CHR ''F''"
definition ELFCLASS64 :: u8 where [simp]: "ELFCLASS64 = 2"
definition ELFDATA2LSB :: u8 where [simp]: "ELFDATA2LSB = 1"
definition ET_EXEC :: u16 where [simp]: "ET_EXEC = 2"
definition EM_X86_64 :: u16 where [simp]: "EM_X86_64 = 62"
definition EV_CURRENT :: "'a::len word" where [simp]: "EV_CURRENT = 1"
definition PT_LOAD :: u32 where [simp]: "PT_LOAD = 1"
definition PF_X :: u32 where [simp]: "PF_X = 1"

section \<open>Structures\<close>

record Elf64_Ehdr =
  e_ident :: "u8 list"
  e_type :: u16
  e_machine :: u16
  e_version :: u32
  e_entry :: u64
  e_phoff :: u64
  e_shoff :: u64
  e_flags :: u32
  e_ehsize :: u16
  e_phentsize :: u16
  e_phnum :: u16
  e_shentsize :: u16
  e_shnum :: u16
  e_shstrndx :: u16

record Elf64_Phdr =
  p_type :: u32
  p_flags :: u32
  p_offset :: u64
  p_vaddr :: u64
  p_paddr :: u64
  p_filesz :: u64
  p_memsz :: u64
  p_align :: u64

type_synonym elf_image = "u8 list option"

text \<open>A little-endian field of \<open>n\<close> bytes at a byte offset.\<close>

definition le_field :: "u8 list \<Rightarrow> nat \<Rightarrow> nat \<Rightarrow> 'a::len word" where
  "le_field bytes off n = horner_sum ucast 256 (take n (drop off bytes))"

definition read_byte :: "u8 list \<Rightarrow> nat \<Rightarrow> u8 option" where
  "read_byte bytes i = (if i < length bytes then Some (bytes ! i) else None)"

text \<open>
  The packed structures laid over the image bytes: \<^verbatim>\<open>(const Elf64_Ehdr *)image\<close> and
  \<^verbatim>\<open>(const Elf64_Phdr *)(bytes + offset)\<close>, of 64 and 56 bytes.
\<close>

definition Elf64_Ehdr_at :: "elf_image \<Rightarrow> nat \<Rightarrow> Elf64_Ehdr option" where
  "Elf64_Ehdr_at img off =
     (case img of None \<Rightarrow> None
      | Some b \<Rightarrow>
          if off + 64 \<le> length b then
            Some \<lparr> e_ident = take ELF_NIDENT (drop off b),
                   e_type = le_field b (off + 16) 2,
                   e_machine = le_field b (off + 18) 2,
                   e_version = le_field b (off + 20) 4,
                   e_entry = le_field b (off + 24) 8,
                   e_phoff = le_field b (off + 32) 8,
                   e_shoff = le_field b (off + 40) 8,
                   e_flags = le_field b (off + 48) 4,
                   e_ehsize = le_field b (off + 52) 2,
                   e_phentsize = le_field b (off + 54) 2,
                   e_phnum = le_field b (off + 56) 2,
                   e_shentsize = le_field b (off + 58) 2,
                   e_shnum = le_field b (off + 60) 2,
                   e_shstrndx = le_field b (off + 62) 2 \<rparr>
          else None)"

definition Elf64_Phdr_at :: "elf_image \<Rightarrow> nat \<Rightarrow> Elf64_Phdr option" where
  "Elf64_Phdr_at img off =
     (case img of None \<Rightarrow> None
      | Some b \<Rightarrow>
          if off + 56 \<le> length b then
            Some \<lparr> p_type = le_field b off 4,
                   p_flags = le_field b (off + 4) 4,
                   p_offset = le_field b (off + 8) 8,
                   p_vaddr = le_field b (off + 16) 8,
                   p_paddr = le_field b (off + 24) 8,
                   p_filesz = le_field b (off + 32) 8,
                   p_memsz = le_field b (off + 40) 8,
                   p_align = le_field b (off + 48) 8 \<rparr>
          else None)"

section \<open>Range helpers\<close>

definition elf_range_valid :: "u64 \<Rightarrow> u64 \<Rightarrow> u64 \<Rightarrow> bool" where
  "elf_range_valid offset len buffer_size =
     (if offset > buffer_size then False
      else if len > buffer_size - offset then False
      else True)"

definition elf_add_overflow :: "u64 \<Rightarrow> u64 \<Rightarrow> bool" where
  "elf_add_overflow a b \<longleftrightarrow> b > 0xFFFFFFFFFFFFFFFF - a"

definition elf_valid_alignment :: "u64 \<Rightarrow> bool" where
  "elf_valid_alignment alignment =
     (if alignment \<le> 1 then True else alignment AND (alignment - 1) = 0)"

section \<open>Header validation\<close>

definition elf_check_file :: "elf_image \<Rightarrow> u64 \<Rightarrow> bool option" where
  "elf_check_file img image_size =
     (case img of None \<Rightarrow> Some False
      | Some bytes \<Rightarrow>
          if image_size < 4 then Some False
          else do {
            m0 \<leftarrow> read_byte bytes EI_MAG0;
            if m0 \<noteq> ELFMAG0 then Some False else do {
            m1 \<leftarrow> read_byte bytes EI_MAG1;
            if m1 \<noteq> ELFMAG1 then Some False else do {
            m2 \<leftarrow> read_byte bytes EI_MAG2;
            if m2 \<noteq> ELFMAG2 then Some False else do {
            m3 \<leftarrow> read_byte bytes EI_MAG3;
            Some (m3 = ELFMAG3) }}}})"

definition elf_check_supported :: "elf_image \<Rightarrow> u64 \<Rightarrow> bool option" where
  "elf_check_supported img image_size = do {
     ok \<leftarrow> elf_check_file img image_size;
     if \<not> ok then Some False
     else if image_size < 64 then Some False
     else do {
       hdr \<leftarrow> Elf64_Ehdr_at img 0;
       Some (
         if e_ident hdr ! EI_CLASS \<noteq> ELFCLASS64 then False
         else if e_ident hdr ! EI_DATA \<noteq> ELFDATA2LSB then False
         else if e_ident hdr ! EI_VERSION \<noteq> EV_CURRENT then False
         else if e_version hdr \<noteq> EV_CURRENT then False
         else if e_machine hdr \<noteq> EM_X86_64 then False
         else if e_type hdr \<noteq> ET_EXEC then False
         else if e_ehsize hdr \<noteq> 64 then False
         else if e_phnum hdr = 0 then False
         else if e_phentsize hdr \<noteq> 56 then False
         else let table_size = ucast (e_phnum hdr) * 56 :: u64 in
           if \<not> elf_range_valid (e_phoff hdr) table_size image_size then False
           else True)
     }
   }"

text \<open>
  A pointer to a program header is the offset of the header in the image; the inner \<open>None\<close>
  is \<^verbatim>\<open>NULL\<close>.
\<close>

definition elf_program_header :: "elf_image \<Rightarrow> u64 \<Rightarrow> u16 \<Rightarrow> u64 option option" where
  "elf_program_header img image_size index = do {
     ok \<leftarrow> elf_check_supported img image_size;
     if \<not> ok then Some None
     else do {
       hdr \<leftarrow> Elf64_Ehdr_at img 0;
       if index \<ge> e_phnum hdr then Some None
       else let offset = e_phoff hdr + ucast index * 56 in
         if \<not> elf_range_valid offset 56 image_size then Some None
         else Some (Some offset)
     }
   }"

section \<open>Segments and complete images\<close>

definition elf_check_load_segment :: "elf_image \<Rightarrow> u64 \<Rightarrow> Elf64_Phdr option \<Rightarrow> bool" where
  "elf_check_load_segment img image_size phdr =
     (if img = None then False else
      case phdr of None \<Rightarrow> False
      | Some ph \<Rightarrow>
          if p_type ph \<noteq> PT_LOAD then False
          else if p_filesz ph > p_memsz ph then False
          else if \<not> elf_range_valid (p_offset ph) (p_filesz ph) image_size then False
          else if elf_add_overflow (p_vaddr ph) (p_memsz ph) then False
          else if \<not> elf_valid_alignment (p_align ph) then False
          else if p_align ph > 1 then
            (if p_vaddr ph mod p_align ph \<noteq> p_offset ph mod p_align ph then False else True)
          else True)"

text \<open>
  The loop over the program headers; \<open>Some None\<close> is its early \<^verbatim>\<open>return false\<close>, otherwise it
  yields \<^verbatim>\<open>found_load_segment\<close> and \<^verbatim>\<open>entry_is_executable\<close>.
\<close>

function elf_validate_loop ::
  "elf_image \<Rightarrow> u64 \<Rightarrow> Elf64_Ehdr \<Rightarrow> u16 \<Rightarrow> bool \<Rightarrow> bool \<Rightarrow> (bool \<times> bool) option option" where
  "elf_validate_loop img image_size hdr i found entry_exec =
     (if i < e_phnum hdr then
        (case elf_program_header img image_size i of
           None \<Rightarrow> None
         | Some None \<Rightarrow> Some None
         | Some (Some off) \<Rightarrow>
             (case Elf64_Phdr_at img (unat off) of
                None \<Rightarrow> None
              | Some ph \<Rightarrow>
                  if p_type ph \<noteq> PT_LOAD then
                    elf_validate_loop img image_size hdr (i + 1) found entry_exec
                  else if \<not> elf_check_load_segment img image_size (Some ph) then Some None
                  else
                    elf_validate_loop img image_size hdr (i + 1) True
                      (if p_flags ph AND PF_X \<noteq> 0 \<and> p_memsz ph \<noteq> 0 \<and>
                          e_entry hdr \<ge> p_vaddr ph \<and> e_entry hdr - p_vaddr ph < p_memsz ph
                       then True else entry_exec)))
      else Some (Some (found, entry_exec)))"
  by pat_completeness auto
termination
  by (relation "measure (\<lambda>(img, image_size, hdr, i, found, x). unat (e_phnum hdr) - unat i)")
    (auto simp: unat_Suc_less word_less_nat_alt)

declare elf_validate_loop.simps [simp del]

definition elf_validate_image :: "elf_image \<Rightarrow> u64 \<Rightarrow> bool option" where
  "elf_validate_image img image_size = do {
     ok \<leftarrow> elf_check_supported img image_size;
     if \<not> ok then Some False
     else do {
       hdr \<leftarrow> Elf64_Ehdr_at img 0;
       r \<leftarrow> elf_validate_loop img image_size hdr 0 False False;
       Some (case r of
               None \<Rightarrow> False
             | Some (found, entry_exec) \<Rightarrow>
                 if \<not> found then False else if \<not> entry_exec then False else True)
     }
   }"

section \<open>Loader state\<close>

record elf_state =
  elf_initialized :: bool

definition elf_init :: "elf_state \<Rightarrow> bool \<times> elf_state" where
  "elf_init s = (True, s\<lparr>elf_initialized := True\<rparr>)"

definition elf_is_initialized :: "elf_state \<Rightarrow> bool" where
  "elf_is_initialized s = elf_initialized s"


section \<open>Exactness of the helpers\<close>

lemma elf_range_valid_iff:
  "elf_range_valid off len n \<longleftrightarrow> unat off + unat len \<le> unat n"
  by (auto simp: elf_range_valid_def word_nat unat_sub)

lemma elf_add_overflow_iff: "elf_add_overflow a b \<longleftrightarrow> 2 ^ 64 \<le> unat a + unat b"
proof -
  have "a \<le> 0xFFFFFFFFFFFFFFFF"
    using unat_lt64 [of a] by (simp add: word_le_nat_alt del: unat_lt64)
  then show ?thesis
    using unat_lt64 [of a]
    by (auto simp: elf_add_overflow_def word_less_nat_alt unat_sub simp del: unat_lt64)
qed

lemma and_pred_odd: "odd m \<Longrightarrow> m AND (m - 1) = m - 1" for m :: nat
  by (subst and_nat_unfold) (auto elim!: oddE)

lemma and_pred_even: "0 < m \<Longrightarrow> (2 * m) AND (2 * m - 1) = 2 * (m AND (m - 1))" for m :: nat
proof -
  assume "0 < m"
  then have "(2 * m - 1) div 2 = m - 1" "2 * m - 1 \<noteq> 0" by auto
  then show ?thesis by (subst and_nat_unfold) auto
qed

lemma and_pred_eq_0_iff: "0 < x \<Longrightarrow> x AND (x - 1) = 0 \<longleftrightarrow> (\<exists>k. x = 2 ^ k)" for x :: nat
proof (induction x rule: less_induct)
  case (less x)
  show ?case
  proof (cases "even x")
    case True
    then obtain y where y: "x = 2 * y" by blast
    with less.prems have "0 < y" "y < x" by auto
    then have "x AND (x - 1) = 0 \<longleftrightarrow> (\<exists>k. y = 2 ^ k)"
      using less.IH [of y] and_pred_even [of y] by (simp add: y)
    also have "\<dots> \<longleftrightarrow> (\<exists>k. x = 2 ^ k)"
    proof
      assume "\<exists>k. y = 2 ^ k"
      then show "\<exists>k. x = 2 ^ k" using y by (metis power_Suc)
    next
      assume "\<exists>k. x = 2 ^ k"
      then obtain k where k: "x = 2 ^ k" by blast
      with True obtain j where "k = Suc j" by (cases k) auto
      with k y show "\<exists>k. y = 2 ^ k" by auto
    qed
    finally show ?thesis .
  next
    case False
    then have "x AND (x - 1) = x - 1" by (rule and_pred_odd)
    moreover have "x = 1 \<longleftrightarrow> (\<exists>k. x = 2 ^ k)"
      using False by (metis even_power power_0 neq0_conv dvd_refl)
    ultimately show ?thesis using less.prems by auto
  qed
qed

lemma elf_valid_alignment_iff:
  "elf_valid_alignment a \<longleftrightarrow> a = 0 \<or> (\<exists>k. unat a = 2 ^ k)"
proof (cases "a \<le> 1")
  case True
  then have "a = 0 \<or> a = 1" by (auto simp: word_le_nat_alt word_unat_eq_iff)
  then show ?thesis
    by (auto simp: elf_valid_alignment_def intro: exI [of _ 0])
next
  case False
  then have gt: "1 < unat a" by (simp add: word_le_nat_alt)
  have pred: "unat (a - 1) = unat a - 1"
    using False by (simp add: unat_sub)
  have "a AND (a - 1) = 0 \<longleftrightarrow> unat a AND (unat a - 1) = 0"
    by (simp add: word_unat_eq_iff unsigned_and_eq pred)
  then show ?thesis
    using False gt and_pred_eq_0_iff [of "unat a"]
    by (auto simp: elf_valid_alignment_def)
qed

section \<open>Specification\<close>

definition load_segment_ok :: "nat \<Rightarrow> Elf64_Phdr \<Rightarrow> bool" where
  "load_segment_ok n ph \<longleftrightarrow>
     p_filesz ph \<le> p_memsz ph \<and>
     unat (p_offset ph) + unat (p_filesz ph) \<le> n \<and>
     unat (p_vaddr ph) + unat (p_memsz ph) < 2 ^ 64 \<and>
     (p_align ph = 0 \<or>
      (\<exists>k. unat (p_align ph) = 2 ^ k \<and>
           unat (p_vaddr ph) mod 2 ^ k = unat (p_offset ph) mod 2 ^ k))"

definition entry_in_segment :: "Elf64_Ehdr \<Rightarrow> Elf64_Phdr \<Rightarrow> bool" where
  "entry_in_segment hdr ph \<longleftrightarrow>
     bit (p_flags ph) 0 \<and> unat (p_vaddr ph) \<le> unat (e_entry hdr) \<and>
     unat (e_entry hdr) < unat (p_vaddr ph) + unat (p_memsz ph)"

definition supported_header :: "u8 list \<Rightarrow> Elf64_Ehdr \<Rightarrow> bool" where
  "supported_header b hdr \<longleftrightarrow>
     take 7 b = [0x7F, 0x45, 0x4C, 0x46, 2, 1, 1] \<and>
     e_version hdr = 1 \<and> e_machine hdr = 62 \<and> e_type hdr = 2 \<and> e_ehsize hdr = 64 \<and>
     e_phnum hdr \<noteq> 0 \<and> e_phentsize hdr = 56 \<and>
     unat (e_phoff hdr) + 56 * unat (e_phnum hdr) \<le> length b"

text \<open>The program header table of an image, as the list of its entries.\<close>

definition program_headers :: "u8 list \<Rightarrow> Elf64_Ehdr \<Rightarrow> Elf64_Phdr list" where
  "program_headers b hdr =
     map (\<lambda>i. the (Elf64_Phdr_at (Some b) (unat (e_phoff hdr) + 56 * i))) [0..<unat (e_phnum hdr)]"

definition executable_image :: "u8 list \<Rightarrow> bool" where
  "executable_image b \<longleftrightarrow>
     64 \<le> length b \<and>
     (let hdr = the (Elf64_Ehdr_at (Some b) 0); phs = program_headers b hdr in
        supported_header b hdr \<and>
        (\<forall>ph \<in> set phs. p_type ph = 1 \<longrightarrow> load_segment_ok (length b) ph) \<and>
        (\<exists>ph \<in> set phs. p_type ph = 1 \<and> entry_in_segment hdr ph))"

lemma take_7_conv:
  "7 \<le> length b \<Longrightarrow> take 7 b = [b ! 0, b ! 1, b ! 2, b ! 3, b ! 4, b ! 5, b ! 6]"
  by (auto simp: list_eq_iff_nth_eq nth_Cons' less_Suc_eq numeral_eq_Suc)

lemma Elf64_Ehdr_at_Some:
  "64 \<le> length b \<Longrightarrow> \<exists>hdr. Elf64_Ehdr_at (Some b) 0 = Some hdr \<and> e_ident hdr = take 16 b"
  by (simp add: Elf64_Ehdr_at_def)

lemma unat_phdr_table: "unat (ucast (n :: u16) * 56 :: u64) = 56 * unat n"
proof -
  have "unat (ucast n :: u64) * 56 < 2 ^ LENGTH(64)"
    using unat_lt16 [of n] by (simp add: unat_ucast_up del: unat_lt16)
  then show ?thesis
    using unat_mult_no_wrap [of "ucast n :: u64" 56] by (simp add: unat_ucast_up)
qed

lemma elf_check_file_eq:
  assumes "length b = unat n"
  shows "elf_check_file (Some b) n = Some (4 \<le> length b \<and> take 4 b = [0x7F, 0x45, 0x4C, 0x46])"
proof (cases "n < 4")
  case True
  with assms show ?thesis by (simp add: elf_check_file_def word_less_nat_alt)
next
  case False
  then have len: "4 \<le> length b" using assms by (simp add: word_less_nat_alt)
  then have "take 4 b = [b ! 0, b ! 1, b ! 2, b ! 3]"
    by (auto simp: list_eq_iff_nth_eq nth_Cons' less_Suc_eq numeral_eq_Suc)
  then show ?thesis using len False
    by (auto simp: elf_check_file_def read_byte_def)
qed


lemma elf_check_supported_eq:
  assumes len: "length b = unat n"
  shows "elf_check_supported (Some b) n =
    Some (64 \<le> length b \<and> supported_header b (the (Elf64_Ehdr_at (Some b) 0)))"
proof (cases "n < 64")
  case True
  with len show ?thesis
    by (simp add: elf_check_supported_def elf_check_file_eq word_less_nat_alt)
next
  case False
  then have len64: "64 \<le> length b" using len by (simp add: word_less_nat_alt)
  then obtain hdr where hdr: "Elf64_Ehdr_at (Some b) 0 = Some hdr" "e_ident hdr = take 16 b"
    using Elf64_Ehdr_at_Some by blast
  have t7: "take 7 b = take 4 b @ [b ! 4, b ! 5, b ! 6]"
    using take_7_conv [of b] len64
    by (auto simp: list_eq_iff_nth_eq nth_Cons' nth_append less_Suc_eq numeral_eq_Suc)
  have t4: "length (take 4 b) = 4" using len64 by simp
  show ?thesis
    using False len64 hdr t4
    by (auto simp: elf_check_supported_def elf_check_file_eq [OF len] supported_header_def t7
        elf_range_valid_iff unat_phdr_table len Let_def)
qed

lemma elf_check_load_segment_eq:
  "elf_check_load_segment (Some b) n (Some ph) \<longleftrightarrow> p_type ph = 1 \<and> load_segment_ok (unat n) ph"
proof -
  have align: "(\<not> 1 < p_align ph \<or> p_vaddr ph mod p_align ph = p_offset ph mod p_align ph) \<longleftrightarrow>
      p_align ph = 0 \<or> unat (p_vaddr ph) mod unat (p_align ph) = unat (p_offset ph) mod unat (p_align ph)"
  proof (cases "1 < p_align ph")
    case True
    then show ?thesis by (auto simp: word_unat_eq_iff unat_mod word_less_nat_alt)
  next
    case False
    then have "unat (p_align ph) = 0 \<or> unat (p_align ph) = 1"
      by (auto simp: word_less_nat_alt)
    with False show ?thesis by (auto simp: unat_eq_0)
  qed
  have 1: "elf_check_load_segment (Some b) n (Some ph) \<longleftrightarrow>
     p_type ph = 1 \<and> p_filesz ph \<le> p_memsz ph \<and>
     elf_range_valid (p_offset ph) (p_filesz ph) n \<and>
     \<not> elf_add_overflow (p_vaddr ph) (p_memsz ph) \<and>
     elf_valid_alignment (p_align ph) \<and>
     (\<not> 1 < p_align ph \<or> p_vaddr ph mod p_align ph = p_offset ph mod p_align ph)"
    by (auto simp: elf_check_load_segment_def)
  show ?thesis
    unfolding 1 align elf_range_valid_iff elf_add_overflow_iff elf_valid_alignment_iff
      load_segment_ok_def
    by (auto simp: not_le)
qed

lemma unat_phdr_offset:
  assumes "i < k" and "unat (o1 :: u64) + 56 * unat (k :: u16) \<le> unat (n :: u64)"
  shows "unat (o1 + ucast i * 56) = unat o1 + 56 * unat i"
    and "unat o1 + 56 * unat i + 56 \<le> unat n"
proof -
  have "unat i < unat k" using assms(1) by (simp add: word_less_nat_alt)
  then show le: "unat o1 + 56 * unat i + 56 \<le> unat n" using assms(2) by linarith
  then have "unat o1 + unat (ucast i * 56 :: u64) < 2 ^ LENGTH(64)"
    using unat_lt64 [of n] by (simp add: unat_phdr_table del: unat_lt64)
  then show "unat (o1 + ucast i * 56) = unat o1 + 56 * unat i"
    by (simp add: unat_add_no_wrap unat_phdr_table)
qed

lemma elf_program_header_in_range:
  assumes len: "length b = unat n" and len64: "64 \<le> length b"
    and hdr: "Elf64_Ehdr_at (Some b) 0 = Some hdr" and sup: "supported_header b hdr"
    and i: "i < e_phnum hdr"
  shows "\<exists>off. elf_program_header (Some b) n i = Some (Some off) \<and>
    unat off = unat (e_phoff hdr) + 56 * unat i \<and>
    Elf64_Phdr_at (Some b) (unat off) = Some (program_headers b hdr ! unat i)"
proof -
  let ?off = "e_phoff hdr + ucast i * 56"
  have tab: "unat (e_phoff hdr) + 56 * unat (e_phnum hdr) \<le> unat n"
    using sup len by (simp add: supported_header_def)
  note off = unat_phdr_offset [OF i tab]
  have "elf_program_header (Some b) n i = Some (Some ?off)"
    using len64 hdr sup i off
    by (simp add: elf_program_header_def elf_check_supported_eq [OF len] elf_range_valid_iff Let_def)
  moreover have "Elf64_Phdr_at (Some b) (unat ?off) = Some (program_headers b hdr ! unat i)"
    using off len i by (simp add: program_headers_def Elf64_Phdr_at_def word_less_nat_alt)
  ultimately show ?thesis using off by blast
qed

lemma entry_in_segment_code:
  "p_flags ph AND 1 \<noteq> 0 \<and> p_memsz ph \<noteq> 0 \<and> e_entry hdr \<ge> p_vaddr ph \<and>
     e_entry hdr - p_vaddr ph < p_memsz ph \<longleftrightarrow> entry_in_segment hdr ph"
proof -
  have "p_flags ph AND 1 \<noteq> 0 \<longleftrightarrow> bit (p_flags ph) 0"
    by (simp add: and_one_eq bit_0 odd_iff_mod_2_eq_one)
  then show ?thesis
    by (auto simp: entry_in_segment_def word_nat unat_sub unat_eq_0 [symmetric])
qed

lemma elf_validate_loop_eq:
  assumes len: "length b = unat n" and len64: "64 \<le> length b"
    and hdr: "Elf64_Ehdr_at (Some b) 0 = Some hdr" and sup: "supported_header b hdr"
    and i: "i \<le> e_phnum hdr"
  defines "rest \<equiv> \<lambda>j. set (drop (unat j) (program_headers b hdr))"
  shows "elf_validate_loop (Some b) n hdr i found ex =
    Some (if \<forall>ph \<in> rest i. p_type ph = 1 \<longrightarrow> load_segment_ok (length b) ph
          then Some (found \<or> (\<exists>ph \<in> rest i. p_type ph = 1),
                     ex \<or> (\<exists>ph \<in> rest i. p_type ph = 1 \<and> entry_in_segment hdr ph))
          else None)"
  using i
proof (induction "unat (e_phnum hdr) - unat i" arbitrary: i found ex)
  case 0
  then have "\<not> i < e_phnum hdr" "rest i = {}"
    by (auto simp: rest_def program_headers_def word_nat)
  then show ?case by (simp add: elf_validate_loop.simps)
next
  case (Suc d)
  then have less: "i < e_phnum hdr" by (simp add: word_nat)
  obtain off where off: "elf_program_header (Some b) n i = Some (Some off)"
    "Elf64_Phdr_at (Some b) (unat off) = Some (program_headers b hdr ! unat i)"
    using elf_program_header_in_range [OF len len64 hdr sup less] by blast
  let ?ph = "program_headers b hdr ! unat i"
  have rest: "rest i = insert ?ph (rest (i + 1))"
    using less by (simp add: rest_def unat_Suc_less program_headers_def word_less_nat_alt
        Cons_nth_drop_Suc [symmetric])
  have IH: "\<And>found ex. elf_validate_loop (Some b) n hdr (i + 1) found ex =
    Some (if \<forall>ph \<in> rest (i + 1). p_type ph = 1 \<longrightarrow> load_segment_ok (length b) ph
          then Some (found \<or> (\<exists>ph \<in> rest (i + 1). p_type ph = 1),
                     ex \<or> (\<exists>ph \<in> rest (i + 1). p_type ph = 1 \<and> entry_in_segment hdr ph))
          else None)"
    using Suc.hyps less by (intro Suc.hyps(1)) (auto simp: unat_Suc_less intro: word_Suc_le_of_less)
  show ?case
    using less off
    by (simp add: elf_validate_loop.simps [of _ _ _ i] IH rest elf_check_load_segment_eq
        entry_in_segment_code len) blast
qed

section \<open>Properties\<close>

text \<open>
  C1: on a buffer whose length is the size argument, \<^verbatim>\<open>elf_validate_image\<close> always returns
  (no read leaves the buffer) and accepts exactly the images that are supported ELF64 executables
  whose loadable segments are all well formed and whose entry point lies in an executable
  loadable segment, with every range stated without wrap-around.
\<close>

theorem elf_validate_image_correct:
  assumes len: "length b = unat n"
  shows "elf_validate_image (Some b) n = Some (executable_image b)"
proof (cases "64 \<le> length b \<and> supported_header b (the (Elf64_Ehdr_at (Some b) 0))")
  case True
  then obtain hdr where hdr: "Elf64_Ehdr_at (Some b) 0 = Some hdr" "supported_header b hdr"
    using Elf64_Ehdr_at_Some [of b] by auto
  show ?thesis
    using True hdr elf_validate_loop_eq [OF len _ hdr, of 0 False False]
    by (auto simp: elf_validate_image_def elf_check_supported_eq [OF len] executable_image_def Let_def)
next
  case False
  then show ?thesis
    by (auto simp: elf_validate_image_def elf_check_supported_eq [OF len] executable_image_def Let_def)
qed


definition sample_image :: "u8 list" where
  "sample_image =
     [0x7F, 0x45, 0x4C, 0x46, 2, 1, 1, 0, 0, 0, 0, 0, 0, 0, 0, 0,
      2, 0, 62, 0, 1, 0, 0, 0, 0x10, 0x10, 0x40, 0, 0, 0, 0, 0,
      64, 0, 0, 0, 0, 0, 0, 0, 0, 0, 0, 0, 0, 0, 0, 0,
      0, 0, 0, 0, 64, 0, 56, 0, 1, 0, 0, 0, 0, 0, 0, 0,
      1, 0, 0, 0, 5, 0, 0, 0, 0, 0, 0, 0, 0, 0, 0, 0,
      0, 0x10, 0x40, 0, 0, 0, 0, 0, 0, 0x10, 0x40, 0, 0, 0, 0, 0,
      120, 0, 0, 0, 0, 0, 0, 0, 0, 1, 0, 0, 0, 0, 0, 0,
      0, 0x10, 0, 0, 0, 0, 0, 0]"

theorem elf_validate_image_correct_witness:
  "length sample_image = unat (120 :: u64) \<and> elf_validate_image (Some sample_image) 120 = Some True \<and>
   executable_image sample_image"
proof -
  have len: "length sample_image = unat (120 :: u64)" by (simp add: sample_image_def)
  have "elf_validate_image (Some sample_image) 120 = Some True" by code_simp
  with elf_validate_image_correct [OF len] len show ?thesis by simp
qed

text \<open>
  C32: for a supported image, \<^verbatim>\<open>elf_program_header\<close> returns, for every index of the table, a
  pointer whose 56 bytes lie inside of the image, at the offset the table arithmetic gives without
  wrap-around; for an index past the table it returns \<^verbatim>\<open>NULL\<close>.
\<close>

theorem elf_program_header_bounds:
  assumes "length b = unat n" and "elf_check_supported (Some b) n = Some True"
  shows "\<exists>hdr. Elf64_Ehdr_at (Some b) 0 = Some hdr \<and>
    (\<forall>i < e_phnum hdr. \<exists>off. elf_program_header (Some b) n i = Some (Some off) \<and>
       unat off = unat (e_phoff hdr) + 56 * unat i \<and> unat off + 56 \<le> length b) \<and>
    (\<forall>i \<ge> e_phnum hdr. elf_program_header (Some b) n i = Some None)"
proof -
  have len64: "64 \<le> length b" and sup: "supported_header b (the (Elf64_Ehdr_at (Some b) 0))"
    using assms by (auto simp: elf_check_supported_eq [OF assms(1)])
  then obtain hdr where hdr: "Elf64_Ehdr_at (Some b) 0 = Some hdr" "supported_header b hdr"
    using Elf64_Ehdr_at_Some [of b] by auto
  have "unat off + 56 \<le> length b" if "Elf64_Phdr_at (Some b) (unat off) = Some ph" for off :: u64 and ph
    using that by (auto simp: Elf64_Phdr_at_def split: if_splits)
  then have "\<forall>i < e_phnum hdr. \<exists>off. elf_program_header (Some b) n i = Some (Some off) \<and>
       unat off = unat (e_phoff hdr) + 56 * unat i \<and> unat off + 56 \<le> length b"
    using elf_program_header_in_range [OF assms(1) len64 hdr] by blast
  moreover have "\<forall>i \<ge> e_phnum hdr. elf_program_header (Some b) n i = Some None"
    using assms hdr by (simp add: elf_program_header_def)
  ultimately show ?thesis using hdr by blast
qed

theorem elf_program_header_bounds_witness:
  "elf_check_supported (Some sample_image) 120 = Some True \<and>
   (\<exists>hdr. Elf64_Ehdr_at (Some sample_image) 0 = Some hdr \<and>
    (\<forall>i < e_phnum hdr. \<exists>off. elf_program_header (Some sample_image) 120 i = Some (Some off) \<and>
       unat off = unat (e_phoff hdr) + 56 * unat i \<and> unat off + 56 \<le> length sample_image) \<and>
    (\<forall>i \<ge> e_phnum hdr. elf_program_header (Some sample_image) 120 i = Some None))"
proof -
  have len: "length sample_image = unat (120 :: u64)" by (simp add: sample_image_def)
  have sup: "elf_check_supported (Some sample_image) 120 = Some True" by code_simp
  show ?thesis using sup elf_program_header_bounds [OF len sup] by blast
qed

text \<open>
  The range helpers are exact: \<^verbatim>\<open>elf_range_valid\<close> decides whether a range lies inside of the
  buffer and \<^verbatim>\<open>elf_add_overflow\<close> whether the sum leaves 64 bits, although both compute with
  wrapping arithmetic.
\<close>

theorem elf_range_helpers_exact:
  "(elf_range_valid off len n \<longleftrightarrow> unat off + unat len \<le> unat n) \<and>
   (elf_add_overflow a b \<longleftrightarrow> 2 ^ 64 \<le> unat a + unat b)"
  by (simp only: elf_range_valid_iff elf_add_overflow_iff)

lemma unat_eq_2_pow: "k < 64 \<Longrightarrow> unat (2 ^ k :: u64) = 2 ^ k"
proof -
  assume "k < 64"
  then have "(2::nat) ^ k < 2 ^ 64" by (rule power_strict_increasing) simp
  then have "unat (word_of_nat (2 ^ k) :: u64) = 2 ^ k"
    by (simp add: unat_of_nat del: of_nat_power)
  then show ?thesis by simp
qed

text \<open>
  \<^verbatim>\<open>elf_valid_alignment\<close> accepts zero and the powers of two, and nothing else.
\<close>

theorem elf_valid_alignment_exact:
  "elf_valid_alignment a \<longleftrightarrow> a = 0 \<or> (\<exists>k < 64. a = 2 ^ k)"
proof -
  have "(\<exists>k. unat a = 2 ^ k) \<longleftrightarrow> (\<exists>k < 64. a = 2 ^ k)"
  proof
    assume "\<exists>k. unat a = 2 ^ k"
    then obtain k where k: "unat a = 2 ^ k" by blast
    then have "(2::nat) ^ k < 2 ^ 64" using unat_lt64 [of a] by (simp del: unat_lt64)
    then have "k < 64" by (rule power_less_imp_less_exp [rotated]) simp
    moreover from this have "a = 2 ^ k"
      using k by (simp add: word_unat_eq_iff unat_eq_2_pow)
    ultimately show "\<exists>k < 64. a = 2 ^ k" by blast
  next
    assume "\<exists>k < 64. a = 2 ^ k"
    then show "\<exists>k. unat a = 2 ^ k" by (metis unat_eq_2_pow)
  qed
  then show ?thesis by (simp only: elf_valid_alignment_iff)
qed

end
