(* ===== verification/Eyax_Zmm.thy ===== *)
theory Eyax_Zmm
  imports Eyax_Prelude
begin

text \<open>
  The ZMM memory manager of \<^verbatim>\<open>src/main.c\<close>: \<^verbatim>\<open>heap_init\<close>, \<^verbatim>\<open>malloc\<close> and \<^verbatim>\<open>free\<close> over the table
  \<^verbatim>\<open>struct block blocks[1024]\<close> that describes \<^verbatim>\<open>char heap[1024]\<close>. A pointer into the heap is its
  offset from \<^verbatim>\<open>heap\<close>, and \<^verbatim>\<open>NULL\<close> is the inner \<open>None\<close>. C \<^verbatim>\<open>int\<close> values are integers, checked against
  32 bits where the code computes one; an overflow or an index past the table has no defined
  result.
\<close>

record block =
  blk_start :: int
  blk_size :: int
  blk_used :: u8

type_synonym blocks = "block list"

definition HEAP_SIZE :: int where
  "HEAP_SIZE = 1024"

text \<open>The table as the C runtime leaves it: zero.\<close>

definition zero_block :: block where
  "zero_block = \<lparr>blk_start = 0, blk_size = 0, blk_used = 0\<rparr>"

definition blocks_bss :: blocks where
  "blocks_bss = replicate 1024 zero_block"

definition c_int :: "int \<Rightarrow> int option" where
  "c_int v = (if - (2 ^ 31) \<le> v \<and> v < 2 ^ 31 then Some v else None)"

definition heap_init :: "blocks \<Rightarrow> blocks" where
  "heap_init bs = bs[0 := \<lparr>blk_start = 0, blk_size = HEAP_SIZE, blk_used = 0\<rparr>]"

function malloc_loop :: "nat \<Rightarrow> int \<Rightarrow> blocks \<Rightarrow> (int option \<times> blocks) option" where
  "malloc_loop i sz bs =
     (if i < 1024 then
        if i \<ge> length bs then None
        else let b = bs ! i in
          if blk_used b = 0 then
            if blk_size b = sz then Some (Some (blk_start b), bs[i := b\<lparr>blk_used := 1\<rparr>])
            else if blk_size b > sz then
              do {
                remainder \<leftarrow> c_int (blk_size b - sz);
                next_start \<leftarrow> c_int (blk_start b + sz);
                if Suc i < length bs then
                  Some (Some (blk_start b),
                    bs[i := b\<lparr>blk_size := sz, blk_used := 1\<rparr>,
                       Suc i := \<lparr>blk_start = next_start, blk_size = remainder, blk_used = 0\<rparr>])
                else None
              }
            else malloc_loop (Suc i) sz bs
          else malloc_loop (Suc i) sz bs
      else Some (None, bs))"
  by pat_completeness auto
termination
  by (relation "measure (\<lambda>(i, sz, bs). 1024 - i)") auto

declare malloc_loop.simps [simp del]

definition malloc :: "int \<Rightarrow> blocks \<Rightarrow> (int option \<times> blocks) option" where
  "malloc sz bs = malloc_loop 0 sz bs"

text \<open>The loop of \<^verbatim>\<open>free\<close> visits every record of the table, and does not stop at the first match.\<close>

definition free :: "int \<Rightarrow> blocks \<Rightarrow> blocks" where
  "free p bs = map (\<lambda>b. if blk_start b = p then b\<lparr>blk_used := 0\<rparr> else b) bs"

section \<open>Contract of an allocator of ranges\<close>

text \<open>
  A range is a start and a length. The locale states what a client relies on: an allocation
  comes out of a free range, what stays free is the rest of what was free, and a release turns
  the used range with that start into a free one. The provider may forget used ranges.
\<close>

type_synonym range = "int \<times> int"

definition range_set :: "range \<Rightarrow> int set" where
  "range_set r = {fst r..<fst r + snd r}"

locale range_allocator =
  fixes alloc :: "int \<Rightarrow> 's \<Rightarrow> (int option \<times> 's) option"
    and release :: "int \<Rightarrow> 's \<Rightarrow> 's"
    and used_ranges :: "'s \<Rightarrow> range set"
    and free_ranges :: "'s \<Rightarrow> range set"
    and inv :: "'s \<Rightarrow> bool"
  assumes alloc_total: "inv s \<Longrightarrow> 1 \<le> n \<Longrightarrow> \<exists>r s'. alloc n s = Some (r, s') \<and> inv s'"
    and alloc_null: "inv s \<Longrightarrow> 1 \<le> n \<Longrightarrow> alloc n s = Some (None, s') \<Longrightarrow> s' = s"
    and alloc_some: "inv s \<Longrightarrow> 1 \<le> n \<Longrightarrow> alloc n s = Some (Some p, s') \<Longrightarrow>
      used_ranges s' \<subseteq> insert (p, n) (used_ranges s) \<and>
      (\<exists>f \<in> free_ranges s. range_set (p, n) \<subseteq> range_set f) \<and>
      (\<forall>g \<in> free_ranges s'. range_set g \<inter> range_set (p, n) = {} \<and>
         (\<exists>f \<in> free_ranges s. range_set g \<subseteq> range_set f))"
    and release_inv: "inv s \<Longrightarrow> inv (release p s)"
    and release_used: "inv s \<Longrightarrow> used_ranges (release p s) = {r \<in> used_ranges s. fst r \<noteq> p}"
    and release_free: "inv s \<Longrightarrow>
      free_ranges (release p s) \<subseteq> free_ranges s \<union> {r \<in> used_ranges s. fst r = p}"
    and bounded: "inv s \<Longrightarrow> f \<in> free_ranges s \<Longrightarrow> range_set f \<subseteq> {0..<HEAP_SIZE}"
    and positive: "inv s \<Longrightarrow> f \<in> used_ranges s \<Longrightarrow> 1 \<le> snd f"
begin

text \<open>
  What the client holds, \<open>held\<close>, against the state of the provider: held ranges are disjoint, in
  bounds and apart from every free range, and the provider calls used only what is held.
\<close>

definition consistent :: "range set \<Rightarrow> 's \<Rightarrow> bool" where
  "consistent held s \<longleftrightarrow> inv s \<and>
     (\<forall>a \<in> held. \<forall>b \<in> held. a \<noteq> b \<longrightarrow> range_set a \<inter> range_set b = {}) \<and>
     (\<forall>a \<in> held. 1 \<le> snd a \<and> range_set a \<subseteq> {0..<HEAP_SIZE}) \<and>
     (\<forall>a \<in> held. \<forall>f \<in> free_ranges s. range_set a \<inter> range_set f = {}) \<and>
     used_ranges s \<subseteq> held"

lemma consistentD:
  assumes "consistent held s"
  shows "inv s" and "used_ranges s \<subseteq> held"
    and "a \<in> held \<Longrightarrow> b \<in> held \<Longrightarrow> a \<noteq> b \<Longrightarrow> range_set a \<inter> range_set b = {}"
    and "a \<in> held \<Longrightarrow> 1 \<le> snd a" and "a \<in> held \<Longrightarrow> range_set a \<subseteq> {0..<HEAP_SIZE}"
    and "a \<in> held \<Longrightarrow> f \<in> free_ranges s \<Longrightarrow> range_set a \<inter> range_set f = {}"
  using assms unfolding consistent_def by simp_all

lemma consistentI:
  assumes "inv s" and "used_ranges s \<subseteq> held"
    and "\<And>a b. a \<in> held \<Longrightarrow> b \<in> held \<Longrightarrow> a \<noteq> b \<Longrightarrow> range_set a \<inter> range_set b = {}"
    and "\<And>a. a \<in> held \<Longrightarrow> 1 \<le> snd a \<and> range_set a \<subseteq> {0..<HEAP_SIZE}"
    and "\<And>a f. a \<in> held \<Longrightarrow> f \<in> free_ranges s \<Longrightarrow> range_set a \<inter> range_set f = {}"
  shows "consistent held s"
  unfolding consistent_def using assms by blast

text \<open>A new range is in bounds and apart from everything held.\<close>

lemma consistent_new:
  assumes con: "consistent held s" and n: "1 \<le> n" and al: "alloc n s = Some (Some p, s')"
  shows "range_set (p, n) \<subseteq> {0..<HEAP_SIZE}" and "a \<in> held \<Longrightarrow> range_set a \<inter> range_set (p, n) = {}"
proof -
  note D = consistentD [OF con]
  obtain f where f: "f \<in> free_ranges s" "range_set (p, n) \<subseteq> range_set f" using alloc_some [OF D(1) n al] by blast
  show "range_set (p, n) \<subseteq> {0..<HEAP_SIZE}" using f bounded [OF D(1) f(1)] by blast
  show "range_set a \<inter> range_set (p, n) = {}" if "a \<in> held" using D(6) [OF that f(1)] f(2) by blast
qed

lemma consistent_alloc:
  assumes con: "consistent held s" and n: "1 \<le> n" and al: "alloc n s = Some (Some p, s')"
  shows "consistent (insert (p, n) held) s'"
proof -
  note D = consistentD [OF con]
  note new = alloc_some [OF D(1) n al]
  have inv': "inv s'" using alloc_total [OF D(1) n] al by auto
  note bound = consistent_new(1) [OF con n al] and apart = consistent_new(2) [OF con n al]
  have free': "range_set a \<inter> range_set g = {}"
    if a: "a \<in> insert (p, n) held" and g: "g \<in> free_ranges s'" for a g
  proof -
    obtain f' where f': "f' \<in> free_ranges s" "range_set g \<subseteq> range_set f'"
      and "range_set g \<inter> range_set (p, n) = {}" using new g by blast
    then show ?thesis using a D(6) [OF _ f'(1), of a] by blast
  qed
  have used': "used_ranges s' \<subseteq> insert (p, n) held" using new D(2) by blast
  have dis: "range_set a \<inter> range_set b = {}"
    if "a \<in> insert (p, n) held" "b \<in> insert (p, n) held" "a \<noteq> b" for a b
    using that apart [of a] apart [of b] D(3) [of a b] by (elim insertE) (simp_all add: Int_commute)
  have "1 \<le> snd a \<and> range_set a \<subseteq> {0..<HEAP_SIZE}" if "a \<in> insert (p, n) held" for a
    using that bound n D(4) [of a] D(5) [of a] by (elim insertE) simp_all
  then show ?thesis using inv' used' dis free' by (intro consistentI)
qed

lemma consistent_null:
  assumes "consistent held s" and "1 \<le> n" and "alloc n s = Some (None, s')"
  shows "consistent held s'"
  using assms alloc_null [OF consistentD(1) [OF assms(1)] assms(2,3)] by simp

lemma held_start_unique:
  assumes con: "consistent held s" and ab: "a \<in> held" "b \<in> held" "fst a = fst b"
  shows "a = b"
proof (rule ccontr)
  assume "a \<noteq> b"
  then have "range_set a \<inter> range_set b = {}" using consistentD(3) [OF con ab(1,2)] by simp
  moreover have "fst a \<in> range_set a" "fst a \<in> range_set b"
    using consistentD(4) [OF con ab(1)] consistentD(4) [OF con ab(2)] ab(3)
    by (auto simp: range_set_def)
  ultimately show False by blast
qed

lemma consistent_release:
  assumes con: "consistent held s" and r: "r \<in> held" "fst r = p"
  shows "consistent (held - {r}) (release p s)"
proof -
  note D = consistentD [OF con]
  have start: "a = r" if "a \<in> used_ranges s" "fst a = p" for a
    using that r D(2) by (intro held_start_unique [OF con]) auto
  have used: "used_ranges (release p s) \<subseteq> held - {r}"
    unfolding release_used [OF D(1)] using D(2) r(2) by blast
  have free': "range_set a \<inter> range_set f = {}"
    if a: "a \<in> held - {r}" and f: "f \<in> free_ranges (release p s)" for a f
  proof -
    have "f \<in> free_ranges s \<or> f = r" using f release_free [OF D(1), of p] start by blast
    then show ?thesis using a D(3) [of a r] D(6) [of a f] r(1) by blast
  qed
  show ?thesis
  proof (rule consistentI)
    show "1 \<le> snd a \<and> range_set a \<subseteq> {0..<HEAP_SIZE}" if "a \<in> held - {r}" for a
      using that D(4) [of a] D(5) [of a] by simp
    show "range_set a \<inter> range_set b = {}" if "a \<in> held - {r}" "b \<in> held - {r}" "a \<noteq> b" for a b
      using that D(3) [of a b] by simp
  qed (fact release_inv [OF D(1)] used free')+
qed

end

section \<open>The block table\<close>

text \<open>
  The records in use come first, ordered by address without overlap and each of at least one
  byte; the rest of the table is as the C runtime left it.
\<close>

fun laid_out :: "int \<Rightarrow> blocks \<Rightarrow> bool" where
  "laid_out lo [] \<longleftrightarrow> lo \<le> HEAP_SIZE"
| "laid_out lo (b # bs) \<longleftrightarrow>
     lo \<le> blk_start b \<and> 1 \<le> blk_size b \<and> laid_out (blk_start b + blk_size b) bs"

definition table_inv :: "blocks \<Rightarrow> bool" where
  "table_inv bs \<longleftrightarrow>
     (\<exists>live. laid_out 0 live \<and> length live \<le> 1024 \<and>
        bs = live @ replicate (1024 - length live) zero_block)"

definition block_range :: "block \<Rightarrow> range" where
  "block_range b = (blk_start b, blk_size b)"

definition used_blocks :: "blocks \<Rightarrow> range set" where
  "used_blocks bs = {block_range b | b. b \<in> set bs \<and> 1 \<le> blk_size b \<and> blk_used b \<noteq> 0}"

definition free_blocks :: "blocks \<Rightarrow> range set" where
  "free_blocks bs = {block_range b | b. b \<in> set bs \<and> 1 \<le> blk_size b \<and> blk_used b = 0}"

definition block_fits :: "int \<Rightarrow> block \<Rightarrow> bool" where
  "block_fits sz b \<longleftrightarrow> blk_used b = 0 \<and> sz \<le> blk_size b"

lemma laid_out_mono: "laid_out lo bs \<Longrightarrow> lo' \<le> lo \<Longrightarrow> laid_out lo' bs"
  by (cases bs) auto

lemma laid_out_length: "laid_out lo bs \<Longrightarrow> int (length bs) \<le> HEAP_SIZE - lo"
  by (induction bs arbitrary: lo) fastforce+

lemma laid_out_bounds:
  "laid_out lo bs \<Longrightarrow> b \<in> set bs \<Longrightarrow>
   lo \<le> blk_start b \<and> 1 \<le> blk_size b \<and> blk_start b + blk_size b \<le> HEAP_SIZE"
proof (induction bs arbitrary: lo)
  case (Cons c bs)
  have "blk_start c + blk_size c \<le> HEAP_SIZE"
    using laid_out_length [of "blk_start c + blk_size c" bs] Cons.prems(1) by simp
  with Cons show ?case by fastforce
qed simp

lemma laid_out_replace:
  "laid_out lo (pre @ xs) \<Longrightarrow> (\<And>m. laid_out m xs \<Longrightarrow> laid_out m ys) \<Longrightarrow> laid_out lo (pre @ ys)"
  by (induction pre arbitrary: lo) auto

lemma laid_out_apart:
  assumes "laid_out lo (pre @ b # post)"
  shows "x \<in> set pre \<Longrightarrow> blk_start x + blk_size x \<le> blk_start b"
    and "x \<in> set post \<Longrightarrow> blk_start b + blk_size b \<le> blk_start x"
  using assms
proof (induction pre arbitrary: lo)
  case Nil
  { case 1 then show ?case by simp }
  { case 2 then show ?case using laid_out_bounds by fastforce }
next
  case (Cons c pre)
  { case 1
    have "blk_start c + blk_size c \<le> blk_start b"
      using laid_out_bounds [of "blk_start c + blk_size c" "pre @ b # post" b] 1 by simp
    with 1 Cons.IH(1) show ?case by auto }
  { case 2 then show ?case using Cons.IH(2) by auto }
qed

text \<open>Cutting \<open>sz\<close> bytes off a block overwrites the record after it.\<close>

definition split_block :: "int \<Rightarrow> block \<Rightarrow> blocks" where
  "split_block sz b =
     [b\<lparr>blk_size := sz, blk_used := 1\<rparr>,
      \<lparr>blk_start = blk_start b + sz, blk_size = blk_size b - sz, blk_used = 0\<rparr>]"

lemma laid_out_split_block:
  "laid_out m (b # post) \<Longrightarrow> 1 \<le> sz \<Longrightarrow> sz < blk_size b \<Longrightarrow> laid_out m (split_block sz b @ tl post)"
  by (cases post) (auto simp: split_block_def intro: laid_out_mono)

section \<open>First fit\<close>

definition malloc_at :: "nat \<Rightarrow> int \<Rightarrow> blocks \<Rightarrow> (int option \<times> blocks) option" where
  "malloc_at i sz bs =
     (let b = bs ! i in
        if blk_size b = sz then Some (Some (blk_start b), bs[i := b\<lparr>blk_used := 1\<rparr>])
        else do {
          remainder \<leftarrow> c_int (blk_size b - sz);
          next_start \<leftarrow> c_int (blk_start b + sz);
          if Suc i < length bs then
            Some (Some (blk_start b),
              bs[i := b\<lparr>blk_size := sz, blk_used := 1\<rparr>,
                 Suc i := \<lparr>blk_start = next_start, blk_size = remainder, blk_used = 0\<rparr>])
          else None })"

lemma malloc_loop_step:
  "i < 1024 \<Longrightarrow> length bs = 1024 \<Longrightarrow>
   malloc_loop i sz bs =
     (if block_fits sz (bs ! i) then malloc_at i sz bs else malloc_loop (Suc i) sz bs)"
  by (subst malloc_loop.simps) (auto simp: block_fits_def malloc_at_def Let_def)

lemma malloc_loop_none:
  "length bs = 1024 \<Longrightarrow> \<forall>j. i \<le> j \<and> j < 1024 \<longrightarrow> \<not> block_fits sz (bs ! j) \<Longrightarrow>
   malloc_loop i sz bs = Some (None, bs)"
proof (induction "1024 - i" arbitrary: i)
  case 0
  then show ?case by (simp add: malloc_loop.simps)
next
  case (Suc d)
  then show ?case by (simp add: malloc_loop_step)
qed

lemma malloc_loop_first:
  "length bs = 1024 \<Longrightarrow> i \<le> j \<Longrightarrow> j < 1024 \<Longrightarrow> block_fits sz (bs ! j) \<Longrightarrow>
   \<forall>k. i \<le> k \<and> k < j \<longrightarrow> \<not> block_fits sz (bs ! k) \<Longrightarrow> malloc_loop i sz bs = malloc_at j sz bs"
proof (induction "j - i" arbitrary: i)
  case 0
  then show ?case by (simp add: malloc_loop_step)
next
  case (Suc d)
  then show ?case by (simp add: malloc_loop_step)
qed

lemma malloc_no_fit:
  "length bs = 1024 \<Longrightarrow> \<forall>b \<in> set bs. \<not> block_fits sz b \<Longrightarrow> malloc sz bs = Some (None, bs)"
  unfolding malloc_def by (rule malloc_loop_none) (simp_all add: all_set_conv_all_nth)

lemma malloc_first_fit:
  assumes len: "length bs = 1024" and b: "b \<in> set bs" "block_fits sz b"
  shows "\<exists>j < 1024. block_fits sz (bs ! j) \<and> (\<forall>k < j. \<not> block_fits sz (bs ! k)) \<and>
    malloc sz bs = malloc_at j sz bs"
proof -
  have "\<exists>j. j < length bs \<and> block_fits sz (bs ! j)" using b by (auto simp: in_set_conv_nth)
  then obtain j where j: "j < length bs \<and> block_fits sz (bs ! j)"
    and least: "\<forall>k < j. \<not> (k < length bs \<and> block_fits sz (bs ! k))"
    unfolding exists_least_iff [of "\<lambda>j. j < length bs \<and> block_fits sz (bs ! j)"] by blast
  have min: "\<forall>k < j. \<not> block_fits sz (bs ! k)" using least j less_trans by blast
  have j1024: "j < 1024" using j unfolding len by (rule conjunct1)
  have "malloc_loop 0 sz bs = malloc_at j sz bs"
    by (rule malloc_loop_first [OF len le0 j1024 conjunct2 [OF j]]) (use min in blast)
  then show ?thesis using j1024 j min unfolding malloc_def by blast
qed

lemma table_inv_length: "table_inv bs \<Longrightarrow> length bs = 1024"
  by (auto simp: table_inv_def)

lemma table_inv_fits:
  assumes "laid_out 0 live" and "length live \<le> 1024" and "1 \<le> sz"
    and "bs = live @ replicate (1024 - length live) zero_block"
    and "j < 1024" and "block_fits sz (bs ! j)"
  shows "j < length live"
  using assms by (auto simp: nth_append block_fits_def zero_block_def split: if_splits)

text \<open>What a successful search does to the table.\<close>

lemma malloc_at_result:
  assumes lay: "laid_out 0 live" and len: "length live \<le> 1024" and sz: "1 \<le> sz"
    and bs: "bs = live @ replicate (1024 - length live) zero_block"
    and j: "j < length live" and fits: "block_fits sz (bs ! j)"
  obtains pre b post xs where "live = pre @ b # post" and "length pre = j" and "block_fits sz b"
    and "malloc_at j sz bs = Some (Some (blk_start b),
      (pre @ xs) @ replicate (1024 - length (pre @ xs)) zero_block)"
    and "laid_out 0 (pre @ xs)" and "length (pre @ xs) \<le> 1024"
    and "xs = b\<lparr>blk_used := 1\<rparr> # post \<and> blk_size b = sz \<or> xs = split_block sz b @ tl post \<and> sz < blk_size b"
proof -
  define pre b post where "pre = take j live" and "b = live ! j" and "post = drop (Suc j) live"
  have live: "live = pre @ b # post" and lenpre: "length pre = j"
    using j by (simp_all add: pre_def b_def post_def id_take_nth_drop [symmetric])
  have b: "bs ! j = b" "block_fits sz b"
    using fits j by (simp_all add: bs nth_append b_def)
  let ?z = "replicate (1024 - length live) zero_block"
  have bs': "bs = pre @ b # post @ ?z" using bs live by simp
  show thesis
  proof (cases "blk_size b = sz")
    case True
    let ?xs = "b\<lparr>blk_used := 1\<rparr> # post"
    have "laid_out 0 (pre @ ?xs)"
      using lay unfolding live by (rule laid_out_replace) simp
    moreover have "malloc_at j sz bs = Some (Some (blk_start b),
      (pre @ ?xs) @ replicate (1024 - length (pre @ ?xs)) zero_block)"
      using True lenpre live by (simp add: malloc_at_def Let_def b(1)) (simp add: bs' list_update_append)
    ultimately show thesis using that [OF live lenpre b(2)] True len live by simp
  next
    case False
    then have lt: "sz < blk_size b" using b(2) by (simp add: block_fits_def)
    let ?xs = "split_block sz b @ tl post"
    have lay': "laid_out 0 (pre @ ?xs)"
      using lay unfolding live
      by (rule laid_out_replace) (rule laid_out_split_block [OF _ sz lt])
    then have len': "length (pre @ ?xs) \<le> 1024"
      using laid_out_length [OF lay'] by (simp add: HEAP_SIZE_def)
    have bb: "0 \<le> blk_start b" "blk_start b + blk_size b \<le> 1024"
      using laid_out_bounds [OF lay, of b] live by (simp_all add: HEAP_SIZE_def)
    have "Suc j < length bs" using len' lenpre bs len by (simp add: split_block_def)
    moreover have "bs[j := b\<lparr>blk_size := sz, blk_used := 1\<rparr>,
         Suc j := \<lparr>blk_start = blk_start b + sz, blk_size = blk_size b - sz, blk_used = 0\<rparr>] =
       (pre @ ?xs) @ replicate (1024 - length (pre @ ?xs)) zero_block"
      using lenpre len' live
      by (cases post; cases "1024 - length live")
        (auto simp: bs' split_block_def list_update_append Suc_diff_le)
    ultimately have "malloc_at j sz bs = Some (Some (blk_start b),
      (pre @ ?xs) @ replicate (1024 - length (pre @ ?xs)) zero_block)"
      using False lt sz bb by (simp add: malloc_at_def Let_def b(1) c_int_def)
    then show thesis using that [OF live lenpre b(2)] lay' len' lt by blast
  qed
qed

lemma table_invI:
  "laid_out 0 live \<Longrightarrow> length live \<le> 1024 \<Longrightarrow>
   table_inv (live @ replicate (1024 - length live) zero_block)"
  unfolding table_inv_def by blast

lemma mem_table:
  "1 \<le> blk_size b \<Longrightarrow> b \<in> set (live @ replicate n zero_block) \<longleftrightarrow> b \<in> set live"
  by (auto simp: zero_block_def)

lemma malloc_cases:
  assumes inv: "table_inv bs" and sz: "1 \<le> sz"
  obtains (Full) "malloc sz bs = Some (None, bs)" and "\<forall>b \<in> set bs. \<not> block_fits sz b"
  | (Fit) pre b post xs where "bs = (pre @ b # post) @ replicate (1024 - length (pre @ b # post)) zero_block"
    and "laid_out 0 (pre @ b # post)" and "block_fits sz b" and "\<forall>c \<in> set pre. \<not> block_fits sz c"
    and "malloc sz bs = Some (Some (blk_start b),
      (pre @ xs) @ replicate (1024 - length (pre @ xs)) zero_block)"
    and "laid_out 0 (pre @ xs)" and "length (pre @ xs) \<le> 1024"
    and "xs = b\<lparr>blk_used := 1\<rparr> # post \<and> blk_size b = sz \<or> xs = split_block sz b @ tl post \<and> sz < blk_size b"
proof (cases "\<exists>b \<in> set bs. block_fits sz b")
  case False
  then show thesis using Full malloc_no_fit [OF table_inv_length [OF inv]] by blast
next
  case True
  then obtain j where j: "j < 1024" "block_fits sz (bs ! j)" "\<forall>k < j. \<not> block_fits sz (bs ! k)"
    and mal: "malloc sz bs = malloc_at j sz bs"
    using malloc_first_fit [OF table_inv_length [OF inv]] by blast
  obtain live where live: "laid_out 0 live" "length live \<le> 1024"
    "bs = live @ replicate (1024 - length live) zero_block"
    using inv unfolding table_inv_def by blast
  have jl: "j < length live" using table_inv_fits [OF live(1,2) sz live(3) j(1,2)] .
  obtain pre b post xs where r: "live = pre @ b # post" "length pre = j" "block_fits sz b"
    "malloc_at j sz bs = Some (Some (blk_start b),
      (pre @ xs) @ replicate (1024 - length (pre @ xs)) zero_block)"
    "laid_out 0 (pre @ xs)" "length (pre @ xs) \<le> 1024"
    "xs = b\<lparr>blk_used := 1\<rparr> # post \<and> blk_size b = sz \<or> xs = split_block sz b @ tl post \<and> sz < blk_size b"
    by (rule malloc_at_result [OF live(1,2) sz live(3) jl j(2)])
  have "bs ! k = pre ! k" if "k < length pre" for k
    using that unfolding live(3) r(1) by (simp add: nth_append)
  then have "\<forall>c \<in> set pre. \<not> block_fits sz c" using j(3) r(2) by (auto simp: in_set_conv_nth)
  then show thesis
    by (rule Fit [OF live(3) [unfolded r(1)] live(1) [unfolded r(1)] r(3) _ mal [unfolded r(4)] r(5-7)])
qed

section \<open>The table implements the contract\<close>

lemma used_blocks_table:
  "used_blocks (live @ replicate n zero_block) =
     {block_range b | b. b \<in> set live \<and> 1 \<le> blk_size b \<and> blk_used b \<noteq> 0}"
  by (auto simp: used_blocks_def zero_block_def)

lemma free_blocks_table:
  "free_blocks (live @ replicate n zero_block) =
     {block_range b | b. b \<in> set live \<and> 1 \<le> blk_size b \<and> blk_used b = 0}"
  by (auto simp: free_blocks_def zero_block_def)

lemma malloc_total:
  assumes "table_inv bs" and "1 \<le> sz"
  shows "\<exists>r bs'. malloc sz bs = Some (r, bs') \<and> table_inv bs'"
  using assms
proof (cases rule: malloc_cases)
  case Full
  then show ?thesis using assms(1) by blast
next
  case (Fit pre b post xs)
  then show ?thesis using table_invI by blast
qed

lemma malloc_null:
  assumes "table_inv bs" and "1 \<le> sz" and "malloc sz bs = Some (None, bs')"
  shows "bs' = bs \<and> (\<forall>b \<in> set bs. \<not> block_fits sz b)"
  using assms(1,2)
proof (cases rule: malloc_cases)
  case Full
  then show ?thesis using assms(3) by simp
next
  case (Fit pre b post xs)
  then show ?thesis using assms(3) by simp
qed

lemma range_set_apart:
  "blk_start a + blk_size a \<le> blk_start b \<Longrightarrow> range_set (block_range a) \<inter> range_set (block_range b) = {}"
  by (auto simp: range_set_def block_range_def)

lemma malloc_some:
  assumes inv: "table_inv bs" and sz: "1 \<le> sz" and mal: "malloc sz bs = Some (Some p, bs')"
  shows "used_blocks bs' \<subseteq> insert (p, sz) (used_blocks bs) \<and>
      (\<exists>f \<in> free_blocks bs. range_set (p, sz) \<subseteq> range_set f) \<and>
      (\<forall>g \<in> free_blocks bs'. range_set g \<inter> range_set (p, sz) = {} \<and>
         (\<exists>f \<in> free_blocks bs. range_set g \<subseteq> range_set f))"
  using inv sz
proof (cases rule: malloc_cases)
  case Full
  then show ?thesis using mal by simp
next
  case (Fit pre b post xs)
  let ?new = "b\<lparr>blk_size := sz, blk_used := 1\<rparr>"
  have p: "p = blk_start b" and bs': "bs' = (pre @ xs) @ replicate (1024 - length (pre @ xs)) zero_block"
    using mal Fit(5) by simp_all
  have pos: "\<forall>c \<in> set (pre @ b # post). 1 \<le> blk_size c" "\<forall>c \<in> set (pre @ xs). 1 \<le> blk_size c"
    using laid_out_bounds [OF Fit(2)] laid_out_bounds [OF Fit(6)] by blast+
  obtain rest where xs: "xs = ?new # rest" and sub: "sz \<le> blk_size b" "blk_used b = 0"
    using Fit(8) Fit(3) by (auto simp: split_block_def block_fits_def)
  have new: "block_range ?new = (p, sz)" by (simp add: block_range_def p)
  have restD: "c \<in> set post \<or> blk_used c = 0 \<and> range_set (block_range c) \<subseteq> range_set (block_range b)"
    if "c \<in> set rest" for c
    using that Fit(8) xs sz
    by (auto simp: split_block_def range_set_def block_range_def dest: list.set_sel(2) intro: list.set_sel(2))
      (metis list.set_sel(2) list.sel(2) empty_iff empty_set)+
  have bfree: "block_range b \<in> free_blocks bs"
    using pos sub unfolding Fit(1) free_blocks_table by auto
  have "used_blocks bs' \<subseteq> insert (p, sz) (used_blocks bs)"
    unfolding bs' Fit(1) used_blocks_table xs using restD new by auto
  moreover have "range_set (p, sz) \<subseteq> range_set (block_range b)"
    using sub by (auto simp: range_set_def block_range_def p)
  moreover have "range_set g \<inter> range_set (p, sz) = {} \<and> (\<exists>f \<in> free_blocks bs. range_set g \<subseteq> range_set f)"
    if g: "g \<in> free_blocks bs'" for g
  proof -
    obtain c where c: "g = block_range c" "c \<in> set pre \<or> c \<in> set rest" "blk_used c = 0" "1 \<le> blk_size c"
      using g unfolding bs' free_blocks_table xs by auto
    have "range_set (block_range c) \<inter> range_set (block_range ?new) = {}"
      using laid_out_apart [of 0 pre ?new rest c] Fit(6) c(2) range_set_apart [of c ?new]
        range_set_apart [of ?new c] unfolding xs by blast
    moreover have "\<exists>f \<in> free_blocks bs. range_set (block_range c) \<subseteq> range_set f"
    proof (cases "c \<in> set pre \<or> c \<in> set post")
      case True
      then have "block_range c \<in> free_blocks bs"
        using c(3,4) unfolding Fit(1) free_blocks_table by auto
      then show ?thesis by blast
    next
      case False
      then show ?thesis using restD [of c] c(2) bfree by blast
    qed
    ultimately show ?thesis using c(1) new by simp
  qed
  ultimately show ?thesis using bfree by blast
qed

lemma laid_out_map:
  "(\<And>b. blk_start (f b) = blk_start b) \<Longrightarrow> (\<And>b. blk_size (f b) = blk_size b) \<Longrightarrow>
   laid_out lo (map f bs) = laid_out lo bs"
  by (induction bs arbitrary: lo) simp_all

lemma free_inv: "table_inv bs \<Longrightarrow> table_inv (free p bs)"
proof -
  assume "table_inv bs"
  then obtain live where live: "laid_out 0 live" "length live \<le> 1024"
    "bs = live @ replicate (1024 - length live) zero_block" unfolding table_inv_def by blast
  let ?f = "\<lambda>b. if blk_start b = p then b\<lparr>blk_used := 0\<rparr> else b"
  have "laid_out 0 (map ?f live)" using live(1) by (subst laid_out_map) simp_all
  moreover have "free p bs = map ?f live @ replicate (1024 - length (map ?f live)) zero_block"
    unfolding live(3) free_def by (simp add: zero_block_def)
  ultimately show ?thesis using table_invI [of "map ?f live"] live(2) by simp
qed

lemma free_used: "used_blocks (free p bs) = {r \<in> used_blocks bs. fst r \<noteq> p}"
  by (auto simp: used_blocks_def free_def block_range_def)

lemma free_free: "free_blocks (free p bs) \<subseteq> free_blocks bs \<union> {r \<in> used_blocks bs. fst r = p}"
  by (auto simp: used_blocks_def free_blocks_def free_def block_range_def split: if_splits)

lemma free_blocks_bounded:
  assumes "table_inv bs" and "f \<in> free_blocks bs"
  shows "range_set f \<subseteq> {0..<HEAP_SIZE}"
proof -
  obtain live where live: "laid_out 0 live"
    "bs = live @ replicate (1024 - length live) zero_block"
    using assms(1) unfolding table_inv_def by blast
  obtain b where "b \<in> set live" "f = block_range b"
    using assms(2) unfolding live(2) free_blocks_table by blast
  then show ?thesis using laid_out_bounds [OF live(1)] by (fastforce simp: range_set_def block_range_def)
qed

interpretation zmm: range_allocator malloc free used_blocks free_blocks table_inv
proof (unfold_locales, goal_cases)
  case (1 s n) then show ?case by (rule malloc_total)
next
  case (2 s n s') then show ?case using malloc_null by blast
next
  case (3 s n p s') then show ?case by (rule malloc_some)
next
  case (4 s p) then show ?case by (rule free_inv)
next
  case (5 s p) show ?case by (rule free_used)
next
  case (6 s p) show ?case by (rule free_free)
next
  case (7 s f) then show ?case by (rule free_blocks_bounded)
next
  case (8 s f) then show ?case by (auto simp: used_blocks_def block_range_def)
qed

section \<open>Runs of a client\<close>

text \<open>
  A client that starts from the initialised heap, allocates at least one byte at a time and frees
  what it holds. The first argument is what it holds.
\<close>

inductive heap_run :: "range set \<Rightarrow> blocks \<Rightarrow> bool" where
  init: "heap_run {} (heap_init blocks_bss)"
| alloc: "heap_run held bs \<Longrightarrow> 1 \<le> n \<Longrightarrow> malloc n bs = Some (Some p, bs') \<Longrightarrow>
     heap_run (insert (p, n) held) bs'"
| null: "heap_run held bs \<Longrightarrow> 1 \<le> n \<Longrightarrow> malloc n bs = Some (None, bs') \<Longrightarrow> heap_run held bs'"
| release: "heap_run held bs \<Longrightarrow> (p, n) \<in> held \<Longrightarrow> heap_run (held - {(p, n)}) (free p bs)"

lemma table_inv_init: "table_inv (heap_init blocks_bss)"
proof -
  have "heap_init blocks_bss =
      [\<lparr>blk_start = 0, blk_size = HEAP_SIZE, blk_used = 0\<rparr>] @ replicate (1024 - 1) zero_block"
    unfolding heap_init_def blocks_bss_def
    by (simp add: list_update_append replicate_Suc [of 1023, simplified, symmetric] numeral_eq_Suc)
  then show ?thesis
    using table_invI [of "[\<lparr>blk_start = 0, blk_size = HEAP_SIZE, blk_used = 0\<rparr>]"]
    by (simp add: HEAP_SIZE_def)
qed

lemma heap_run_consistent: "heap_run held bs \<Longrightarrow> zmm.consistent held bs"
proof (induction rule: heap_run.induct)
  case init
  have "used_blocks (heap_init blocks_bss) = {}"
    by (auto simp: used_blocks_def heap_init_def blocks_bss_def zero_block_def
        dest: set_update_subset_insert [THEN subsetD])
  with table_inv_init show ?case by (intro zmm.consistentI) simp_all
next
  case (alloc held bs n p bs')
  then show ?case by (blast intro: zmm.consistent_alloc)
next
  case (null held bs n bs')
  then show ?case by (blast intro: zmm.consistent_null)
next
  case (release held bs p n)
  then show ?case by (intro zmm.consistent_release) simp_all
qed

abbreviation blk :: "int \<Rightarrow> int \<Rightarrow> u8 \<Rightarrow> block" where
  "blk s n u \<equiv> \<lparr>blk_start = s, blk_size = n, blk_used = u\<rparr>"

text \<open>A short run: two blocks of sixteen bytes, the first of them freed.\<close>

lemma sample_run:
  "malloc 16 (heap_init blocks_bss) = Some (Some 0, blk 0 16 1 # blk 16 1008 0 # replicate 1022 zero_block)"
  "malloc 16 (blk 0 16 1 # blk 16 1008 0 # replicate 1022 zero_block) =
     Some (Some 16, blk 0 16 1 # blk 16 16 1 # blk 32 992 0 # replicate 1021 zero_block)"
  "free 0 (blk 0 16 1 # blk 16 16 1 # blk 32 992 0 # replicate 1021 zero_block) =
     blk 0 16 0 # blk 16 16 1 # blk 32 992 0 # replicate 1021 zero_block"
  "malloc 8 (blk 0 16 0 # blk 16 16 1 # blk 32 992 0 # replicate 1021 zero_block) =
     Some (Some 0, blk 0 8 1 # blk 8 8 0 # blk 32 992 0 # replicate 1021 zero_block)"
  by (code_simp, code_simp, simp add: free_def zero_block_def, code_simp)

lemma sample_two_blocks:
  "heap_run {(0, 16), (16, 16)} (blk 0 16 1 # blk 16 16 1 # blk 32 992 0 # replicate 1021 zero_block)"
  using heap_run.alloc [OF heap_run.alloc [OF heap_run.init _ sample_run(1)] _ sample_run(2)]
  by (simp add: insert_commute)

lemma sample_reused:
  "heap_run {(0, 8), (16, 16)} (blk 0 8 1 # blk 8 8 0 # blk 32 992 0 # replicate 1021 zero_block)"
proof -
  have "heap_run ({(0, 16), (16, 16)} - {(0, 16)})
      (blk 0 16 0 # blk 16 16 1 # blk 32 992 0 # replicate 1021 zero_block)"
    using heap_run.release [OF sample_two_blocks, of 0 16, unfolded sample_run(3)] by simp
  then show ?thesis using heap_run.alloc [OF _ _ sample_run(4)] by (simp add: insert_Diff_if)
qed

section \<open>Properties\<close>

text \<open>
  C5: no memory is handed out twice. In every run of a client that asks for at least one byte at a
  time and frees only what it holds, the blocks it holds lie in the heap and do not overlap. The next
  call of \<^verbatim>\<open>malloc\<close> has a defined result (it never writes past the block table), and a block that it
  returns lies in the heap and shares no byte with any block that the client holds.
\<close>

theorem malloc_blocks_disjoint:
  assumes "heap_run held bs"
  shows "(\<forall>a \<in> held. range_set a \<subseteq> {0..<HEAP_SIZE}) \<and>
    (\<forall>a \<in> held. \<forall>b \<in> held. a \<noteq> b \<longrightarrow> range_set a \<inter> range_set b = {}) \<and>
    (\<forall>n \<ge> 1. \<exists>r bs'. malloc n bs = Some (r, bs')) \<and>
    (\<forall>n p bs'. 1 \<le> n \<and> malloc n bs = Some (Some p, bs') \<longrightarrow>
      range_set (p, n) \<noteq> {} \<and> range_set (p, n) \<subseteq> {0..<HEAP_SIZE} \<and> (\<forall>a \<in> held. range_set a \<inter> range_set (p, n) = {}))"
proof -
  note con = heap_run_consistent [OF assms]
  have "range_set (p, n) \<noteq> {} \<and> range_set (p, n) \<subseteq> {0..<HEAP_SIZE} \<and> (\<forall>a \<in> held. range_set a \<inter> range_set (p, n) = {})"
    if "1 \<le> n" "malloc n bs = Some (Some p, bs')" for n p bs'
    using zmm.consistent_new [OF con that] that(1) by (simp add: range_set_def)
  then show ?thesis
    using zmm.consistentD(3,5) [OF con] malloc_total [OF zmm.consistentD(1) [OF con]] by blast
qed

theorem malloc_blocks_disjoint_witness:
  "heap_run {(0, 8), (16, 16)} (blk 0 8 1 # blk 8 8 0 # blk 32 992 0 # replicate 1021 zero_block) \<and>
   range_set (0, 8) \<inter> range_set (16, 16) = {} \<and>
   (\<exists>bs'. malloc 8 (blk 0 8 1 # blk 8 8 0 # blk 32 992 0 # replicate 1021 zero_block) = Some (Some 8, bs') \<and>
     range_set (0, 8) \<inter> range_set (8, 8) = {} \<and> range_set (16, 16) \<inter> range_set (8, 8) = {})"
proof -
  let ?bs = "blk 0 8 1 # blk 8 8 0 # blk 32 992 0 # replicate 1021 zero_block"
  note held = malloc_blocks_disjoint [OF sample_reused]
  have new: "malloc 8 ?bs = Some (Some 8, blk 0 8 1 # blk 8 8 1 # blk 32 992 0 # replicate 1021 zero_block)"
    by (simp add: malloc_def malloc_loop.simps Let_def)
  then have "range_set (0, 8) \<inter> range_set (8, 8) = {} \<and> range_set (16, 16) \<inter> range_set (8, 8) = {}"
    using held [THEN conjunct2, THEN conjunct2, THEN conjunct2, rule_format, of 8 8] by simp
  moreover have "range_set (0, 8) \<inter> range_set (16, 16) = {}"
    using held [THEN conjunct2, THEN conjunct1, rule_format, of "(0, 8)" "(16, 16)"] by simp
  ultimately show ?thesis using sample_reused new by blast
qed

text \<open>
  C30: \<^verbatim>\<open>malloc\<close> is first fit. On a well-formed table and for a positive size it fails exactly when no
  free block is large enough; otherwise it returns the first free block that is large enough,
  all blocks before it are too small or used, and the block returned is marked used with the
  requested size.
\<close>

theorem malloc_first_fit_correct:
  assumes "table_inv bs" and "1 \<le> sz"
  shows "malloc sz bs = Some (None, bs) \<and> (\<forall>b \<in> set bs. \<not> block_fits sz b) \<or>
    (\<exists>i b bs'. i < 1024 \<and> bs ! i = b \<and> block_fits sz b \<and> (\<forall>j < i. \<not> block_fits sz (bs ! j)) \<and>
       malloc sz bs = Some (Some (blk_start b), bs') \<and> table_inv bs' \<and>
       bs' ! i = b\<lparr>blk_size := sz, blk_used := 1\<rparr>)"
  using assms
proof (cases rule: malloc_cases)
  case Full
  then show ?thesis by blast
next
  case (Fit pre b post xs)
  let ?bs' = "(pre @ xs) @ replicate (1024 - length (pre @ xs)) zero_block"
  have hd: "xs \<noteq> []" "hd xs = b\<lparr>blk_size := sz, blk_used := 1\<rparr>"
    using Fit(8) by (auto simp: split_block_def)
  then have "?bs' ! length pre = b\<lparr>blk_size := sz, blk_used := 1\<rparr>"
    by (cases xs) (simp_all add: nth_append)
  moreover have "bs ! length pre = b" unfolding Fit(1) by simp
  moreover have "bs ! j = pre ! j" if "j < length pre" for j
    using that unfolding Fit(1) by (simp add: nth_append)
  then have "\<forall>j < length pre. \<not> block_fits sz (bs ! j)" using Fit(4) by simp
  moreover have "length pre < 1024" using Fit(7) hd(1) by (cases xs) simp_all
  ultimately show ?thesis using Fit(3,5) table_invI [OF Fit(6,7)] by blast
qed

theorem malloc_first_fit_correct_witness:
  "table_inv (heap_init blocks_bss) \<and> (\<exists>bs'. malloc 16 (heap_init blocks_bss) = Some (Some 0, bs'))"
  using table_inv_init sample_run(1) malloc_first_fit_correct [OF table_inv_init, of 16] by auto

text \<open>
  C31: memory that is freed can be allocated again: when the table still has the record of a used
  block, a request for its size succeeds after the block has been freed.
\<close>

theorem free_then_malloc:
  assumes "table_inv bs" and "(p, n) \<in> used_blocks bs"
  shows "\<exists>q bs'. malloc n (free p bs) = Some (Some q, bs')"
proof -
  obtain b where b: "b \<in> set bs" "blk_start b = p" "blk_size b = n" "1 \<le> n"
    using assms(2) by (auto simp: used_blocks_def block_range_def)
  have "b\<lparr>blk_used := 0\<rparr> \<in> set (free p bs)" using b unfolding free_def by force
  then have "\<exists>c \<in> set (free p bs). block_fits n c" 
    by (rule bexI [rotated]) (simp add: block_fits_def b)
  then show ?thesis
    using malloc_total [OF free_inv [OF assms(1)] b(4), of p] malloc_null [OF free_inv [OF assms(1)] b(4)]
    by (metis not_None_eq)
qed

theorem free_then_malloc_witness:
  "\<exists>q bs'. malloc 16 (free 0 (blk 0 16 1 # blk 16 16 1 # blk 32 992 0 # replicate 1021 zero_block)) =
     Some (Some q, bs')"
proof (rule free_then_malloc)
  show "table_inv (blk 0 16 1 # blk 16 16 1 # blk 32 992 0 # replicate 1021 zero_block)"
    using zmm.consistentD(1) [OF heap_run_consistent [OF sample_two_blocks]] .
  show "(0, 16) \<in> used_blocks (blk 0 16 1 # blk 16 16 1 # blk 32 992 0 # replicate 1021 zero_block)"
    by (force simp: used_blocks_def block_range_def)
qed

text \<open>
  C39: a split overwrites the next record of the table, so that memory is lost. There is a run after
  which the client holds a block that the table has no record of; freeing that block does nothing.
\<close>

theorem malloc_split_loses_record:
  "\<exists>bs. heap_run {(0, 8), (16, 16)} bs \<and> (16, 16) \<notin> used_blocks bs \<and> free 16 bs = bs"
proof (intro exI conjI)
  show "heap_run {(0, 8), (16, 16)} (blk 0 8 1 # blk 8 8 0 # blk 32 992 0 # replicate 1021 zero_block)"
    by (rule sample_reused)
qed (auto simp: used_blocks_def block_range_def free_def zero_block_def)

text \<open>
  The guarantees end at sizes below one. A request for zero bytes leaves two records with the
  same address: the next block shares it, freeing the empty block frees the other one as well, and
  the memory is handed out again. A negative request yields a free record that starts before the
  heap, which a later request returns.
\<close>

theorem malloc_nonpositive_sizes:
  "(\<exists>bs1 bs2. malloc 0 (heap_init blocks_bss) = Some (Some 0, bs1) \<and> malloc 8 bs1 = Some (Some 0, bs2) \<and>
      (\<exists>bs3. malloc 8 (free 0 bs2) = Some (Some 0, bs3))) \<and>
   (\<exists>bs1 bs2. malloc (- 1) (heap_init blocks_bss) = Some (Some 0, bs1) \<and>
      malloc 1025 bs1 = Some (Some (- 1), bs2))"
proof (intro conjI exI)
  show "malloc 0 (heap_init blocks_bss) =
      Some (Some 0, blk 0 0 1 # blk 0 1024 0 # replicate 1022 zero_block)" by code_simp
  show "malloc 8 (blk 0 0 1 # blk 0 1024 0 # replicate 1022 zero_block) =
      Some (Some 0, blk 0 0 1 # blk 0 8 1 # blk 8 1016 0 # replicate 1021 zero_block)" by code_simp
  have "free 0 (blk 0 0 1 # blk 0 8 1 # blk 8 1016 0 # replicate 1021 zero_block) =
      blk 0 0 0 # blk 0 8 0 # blk 8 1016 0 # replicate 1021 zero_block"
    by (simp add: free_def zero_block_def)
  moreover have "malloc 8 (blk 0 0 0 # blk 0 8 0 # blk 8 1016 0 # replicate 1021 zero_block) =
      Some (Some 0, blk 0 0 0 # blk 0 8 1 # blk 8 1016 0 # replicate 1021 zero_block)" by code_simp
  ultimately show "malloc 8 (free 0 (blk 0 0 1 # blk 0 8 1 # blk 8 1016 0 # replicate 1021 zero_block)) =
      Some (Some 0, blk 0 0 0 # blk 0 8 1 # blk 8 1016 0 # replicate 1021 zero_block)" by simp
  show "malloc (- 1) (heap_init blocks_bss) =
      Some (Some 0, blk 0 (- 1) 1 # blk (- 1) 1025 0 # replicate 1022 zero_block)" by code_simp
  show "malloc 1025 (blk 0 (- 1) 1 # blk (- 1) 1025 0 # replicate 1022 zero_block) =
      Some (Some (- 1), blk 0 (- 1) 1 # blk (- 1) 1025 1 # replicate 1022 zero_block)" by code_simp
qed

end
