(* ===== verification/Eyax_Font.thy ===== *)
theory Eyax_Font
  imports Eyax_Prelude
begin

text \<open>
  The bitmap font of \<^verbatim>\<open>src/main.c\<close>: one entry per designated initialiser of \<^verbatim>\<open>eX_Font\<close>, in the order
  of the source, each with its eight rows, most significant bit leftmost.
\<close>

section \<open>Glyph table\<close>

text \<open>The capital letters A to M.\<close>

definition font_upper_1 :: "(char \<times> u8 list) list" where
  "font_upper_1 = [
     (CHR ''A'', [0b00011000, 0b00100100, 0b01000010, 0b01000010,
       0b01111110, 0b01000010, 0b01000010, 0b00000000]),
     (CHR ''B'', [0b01111100, 0b01000010, 0b01000010, 0b01111100,
       0b01000010, 0b01000010, 0b01111100, 0b00000000]),
     (CHR ''C'', [0b00111110, 0b01000000, 0b01000000, 0b01000000,
       0b01000000, 0b01000000, 0b00111110, 0b00000000]),
     (CHR ''D'', [0b01111100, 0b01000010, 0b01000010, 0b01000010,
       0b01000010, 0b01000010, 0b01111100, 0b00000000]),
     (CHR ''E'', [0b01111110, 0b01000000, 0b01000000, 0b01111100,
       0b01000000, 0b01000000, 0b01111110, 0b00000000]),
     (CHR ''F'', [0b01111110, 0b01000000, 0b01000000, 0b01111100,
       0b01000000, 0b01000000, 0b01000000, 0b00000000]),
     (CHR ''G'', [0b00111110, 0b01000000, 0b01000000, 0b01001110,
       0b01000010, 0b01000010, 0b00111110, 0b00000000]),
     (CHR ''H'', [0b01000010, 0b01000010, 0b01000010, 0b01111110,
       0b01000010, 0b01000010, 0b01000010, 0b00000000]),
     (CHR ''I'', [0b00111110, 0b00001000, 0b00001000, 0b00001000,
       0b00001000, 0b00001000, 0b00111110, 0b00000000]),
     (CHR ''J'', [0b00011110, 0b00000100, 0b00000100, 0b00000100,
       0b01000100, 0b01000100, 0b00111000, 0b00000000]),
     (CHR ''K'', [0b01000010, 0b01000100, 0b01001000, 0b01110000,
       0b01001000, 0b01000100, 0b01000010, 0b00000000]),
     (CHR ''L'', [0b01000000, 0b01000000, 0b01000000, 0b01000000,
       0b01000000, 0b01000000, 0b01111110, 0b00000000]),
     (CHR ''M'', [0b01000010, 0b01100110, 0b01011010, 0b01000010,
       0b01000010, 0b01000010, 0b01000010, 0b00000000])]"

text \<open>The capital letters N to Z.\<close>

definition font_upper_2 :: "(char \<times> u8 list) list" where
  "font_upper_2 = [
     (CHR ''N'', [0b01000010, 0b01100010, 0b01010010, 0b01001010,
       0b01000110, 0b01000010, 0b01000010, 0b00000000]),
     (CHR ''O'', [0b00111100, 0b01000010, 0b01000010, 0b01000010,
       0b01000010, 0b01000010, 0b00111100, 0b00000000]),
     (CHR ''P'', [0b01111100, 0b01000010, 0b01000010, 0b01111100,
       0b01000000, 0b01000000, 0b01000000, 0b00000000]),
     (CHR ''Q'', [0b00111100, 0b01000010, 0b01000010, 0b01000010,
       0b01001010, 0b01000100, 0b00111010, 0b00000000]),
     (CHR ''R'', [0b01111100, 0b01000010, 0b01000010, 0b01111100,
       0b01001000, 0b01000100, 0b01000010, 0b00000000]),
     (CHR ''S'', [0b00111110, 0b01000000, 0b01000000, 0b00111100,
       0b00000010, 0b00000010, 0b01111100, 0b00000000]),
     (CHR ''T'', [0b01111110, 0b00001000, 0b00001000, 0b00001000,
       0b00001000, 0b00001000, 0b00001000, 0b00000000]),
     (CHR ''U'', [0b01000010, 0b01000010, 0b01000010, 0b01000010,
       0b01000010, 0b01000010, 0b00111100, 0b00000000]),
     (CHR ''V'', [0b01000010, 0b01000010, 0b01000010, 0b01000010,
       0b00100100, 0b00100100, 0b00011000, 0b00000000]),
     (CHR ''W'', [0b01000010, 0b01000010, 0b01000010, 0b01011010,
       0b01011010, 0b01100110, 0b01000010, 0b00000000]),
     (CHR ''X'', [0b10000001, 0b01000010, 0b00100100, 0b00011000,
       0b00011000, 0b00100100, 0b01000010, 0b10000001]),
     (CHR ''Y'', [0b01000010, 0b01000010, 0b00100100, 0b00011000,
       0b00001000, 0b00001000, 0b00001000, 0b00000000]),
     (CHR ''Z'', [0b01111110, 0b00000010, 0b00000100, 0b00001000,
       0b00010000, 0b00100000, 0b01111110, 0b00000000])]"

text \<open>The small letters a to m.\<close>

definition font_lower_1 :: "(char \<times> u8 list) list" where
  "font_lower_1 = [
     (CHR ''a'', [0b00000000, 0b00000000, 0b00111000, 0b00000100,
       0b00111100, 0b01000100, 0b00111100, 0b00000000]),
     (CHR ''b'', [0b01000000, 0b01000000, 0b01011100, 0b01100010,
       0b01000010, 0b01100010, 0b01011100, 0b00000000]),
     (CHR ''c'', [0b00000000, 0b00000000, 0b00111100, 0b01000000,
       0b01000000, 0b01000000, 0b00111100, 0b00000000]),
     (CHR ''d'', [0b00000010, 0b00000010, 0b00111010, 0b01000110,
       0b01000010, 0b01000110, 0b00111010, 0b00000000]),
     (CHR ''e'', [0b00000000, 0b00000000, 0b00111000, 0b01000100,
       0b01111100, 0b01000000, 0b00111100, 0b00000000]),
     (CHR ''f'', [0b00011100, 0b00100000, 0b00100000, 0b01111000,
       0b00100000, 0b00100000, 0b00100000, 0b00000000]),
     (CHR ''g'', [0b00000000, 0b00111010, 0b01000110, 0b01000010,
       0b01000110, 0b00111010, 0b00000010, 0b00111100]),
     (CHR ''h'', [0b01000000, 0b01000000, 0b01011100, 0b01100010,
       0b01000010, 0b01000010, 0b01000010, 0b00000000]),
     (CHR ''i'', [0b00001000, 0b00000000, 0b00111000, 0b00001000,
       0b00001000, 0b00001000, 0b00111110, 0b00000000]),
     (CHR ''j'', [0b00000100, 0b00000000, 0b00011100, 0b00000100,
       0b00000100, 0b00000100, 0b01000100, 0b00111000]),
     (CHR ''k'', [0b01000000, 0b01000000, 0b01000100, 0b01001000,
       0b01110000, 0b01001000, 0b01000100, 0b00000000]),
     (CHR ''l'', [0b00110000, 0b00010000, 0b00010000, 0b00010000,
       0b00010000, 0b00010000, 0b00111000, 0b00000000]),
     (CHR ''m'', [0b00000000, 0b00000000, 0b01101100, 0b01010010,
       0b01010010, 0b01010010, 0b01010010, 0b00000000])]"

text \<open>The small letters n to z.\<close>

definition font_lower_2 :: "(char \<times> u8 list) list" where
  "font_lower_2 = [
     (CHR ''n'', [0b00000000, 0b00000000, 0b01011100, 0b01100010,
       0b01000010, 0b01000010, 0b01000010, 0b00000000]),
     (CHR ''o'', [0b00000000, 0b00000000, 0b00111000, 0b01000100,
       0b01000100, 0b01000100, 0b00111000, 0b00000000]),
     (CHR ''p'', [0b00000000, 0b01011100, 0b01100010, 0b01000010,
       0b01100010, 0b01011100, 0b01000000, 0b01000000]),
     (CHR ''q'', [0b00000000, 0b00111010, 0b01000110, 0b01000010,
       0b01000110, 0b00111010, 0b00000010, 0b00000010]),
     (CHR ''r'', [0b00000000, 0b00000000, 0b01011100, 0b01100010,
       0b01000000, 0b01000000, 0b01000000, 0b00000000]),
     (CHR ''s'', [0b00000000, 0b00000000, 0b00111100, 0b01000000,
       0b00111000, 0b00000100, 0b01111000, 0b00000000]),
     (CHR ''t'', [0b00100000, 0b00100000, 0b01111000, 0b00100000,
       0b00100000, 0b00100000, 0b00011100, 0b00000000]),
     (CHR ''u'', [0b00000000, 0b00000000, 0b01000010, 0b01000010,
       0b01000010, 0b01000110, 0b00111010, 0b00000000]),
     (CHR ''v'', [0b00000000, 0b00000000, 0b01000010, 0b01000010,
       0b00100100, 0b00100100, 0b00011000, 0b00000000]),
     (CHR ''w'', [0b00000000, 0b00000000, 0b01000010, 0b01011010,
       0b01011010, 0b01100110, 0b01000010, 0b00000000]),
     (CHR ''x'', [0b00000000, 0b00000000, 0b01000010, 0b00100100,
       0b00011000, 0b00100100, 0b01000010, 0b00000000]),
     (CHR ''y'', [0b00000000, 0b01000010, 0b01000010, 0b00100100,
       0b00011000, 0b00001000, 0b00010000, 0b01100000]),
     (CHR ''z'', [0b00000000, 0b00000000, 0b01111100, 0b00000100,
       0b00011000, 0b00100000, 0b01111100, 0b00000000])]"

text \<open>The digits.\<close>

definition font_digits :: "(char \<times> u8 list) list" where
  "font_digits = [
     (CHR ''0'', [0b00111100, 0b01000010, 0b01000110, 0b01001010,
       0b01010010, 0b01100010, 0b00111100, 0b00000000]),
     (CHR ''1'', [0b00001000, 0b00011000, 0b00101000, 0b00001000,
       0b00001000, 0b00001000, 0b00111110, 0b00000000]),
     (CHR ''2'', [0b00111100, 0b01000010, 0b00000010, 0b00001100,
       0b00110000, 0b01000000, 0b01111110, 0b00000000]),
     (CHR ''3'', [0b00111100, 0b01000010, 0b00000010, 0b00011100,
       0b00000010, 0b01000010, 0b00111100, 0b00000000]),
     (CHR ''4'', [0b00000100, 0b00001100, 0b00010100, 0b00100100,
       0b01111110, 0b00000100, 0b00000100, 0b00000000]),
     (CHR ''5'', [0b01111110, 0b01000000, 0b01000000, 0b01111100,
       0b00000010, 0b01000010, 0b00111100, 0b00000000]),
     (CHR ''6'', [0b00111100, 0b01000000, 0b01000000, 0b01111100,
       0b01000010, 0b01000010, 0b00111100, 0b00000000]),
     (CHR ''7'', [0b01111110, 0b00000010, 0b00000100, 0b00001000,
       0b00010000, 0b00010000, 0b00010000, 0b00000000]),
     (CHR ''8'', [0b00111100, 0b01000010, 0b01000010, 0b00111100,
       0b01000010, 0b01000010, 0b00111100, 0b00000000]),
     (CHR ''9'', [0b00111100, 0b01000010, 0b01000010, 0b00111110,
       0b00000010, 0b00000010, 0b00111100, 0b00000000])]"

text \<open>The punctuation marks, first part.\<close>

definition font_marks :: "(char \<times> u8 list) list" where
  "font_marks = [
     (CHR ''.'', [0b00000000, 0b00000000, 0b00000000, 0b00000000,
       0b00000000, 0b00011000, 0b00011000, 0b00000000]),
     (CHR '','', [0b00000000, 0b00000000, 0b00000000, 0b00000000,
       0b00000000, 0b00011000, 0b00011000, 0b00110000]),
     (CHR '':'', [0b00000000, 0b00011000, 0b00011000, 0b00000000,
       0b00000000, 0b00011000, 0b00011000, 0b00000000]),
     (CHR ''!'', [0b00011000, 0b00011000, 0b00011000, 0b00011000,
       0b00011000, 0b00000000, 0b00011000, 0b00000000]),
     (CHR ''?'', [0b00111100, 0b01000010, 0b00000010, 0b00001100,
       0b00011000, 0b00000000, 0b00011000, 0b00000000]),
     (CHR ''-'', [0b00000000, 0b00000000, 0b00000000, 0b01111110,
       0b00000000, 0b00000000, 0b00000000, 0b00000000]),
     (CHR ''_'', [0b00000000, 0b00000000, 0b00000000, 0b00000000,
       0b00000000, 0b00000000, 0b00000000, 0b01111110]),
     (CHR ''('', [0b00001100, 0b00010000, 0b00100000, 0b00100000,
       0b00100000, 0b00010000, 0b00001100, 0b00000000]),
     (CHR '')'', [0b00110000, 0b00001000, 0b00000100, 0b00000100,
       0b00000100, 0b00001000, 0b00110000, 0b00000000]),
     (CHR ''/'', [0b00000010, 0b00000100, 0b00001000, 0b00010000,
       0b00100000, 0b01000000, 0b00000000, 0b00000000]),
     (CHR 0x5C, [0b01000000, 0b00100000, 0b00010000, 0b00001000,
       0b00000100, 0b00000010, 0b00000000, 0b00000000]),
     (CHR ''='', [0b00000000, 0b00000000, 0b01111110, 0b00000000,
       0b01111110, 0b00000000, 0b00000000, 0b00000000])]"

text \<open>The punctuation marks, second part.\<close>

definition font_symbols :: "(char \<times> u8 list) list" where
  "font_symbols = [
     (CHR ''+'', [0b00000000, 0b00001000, 0b00001000, 0b00111110,
       0b00001000, 0b00001000, 0b00000000, 0b00000000]),
     (CHR ''%'', [0b01100010, 0b01100100, 0b00001000, 0b00010000,
       0b00100000, 0b01001100, 0b10001100, 0b00000000]),
     (CHR ''#'', [0b00010100, 0b00010100, 0b01111110, 0b00010100,
       0b01111110, 0b00010100, 0b00010100, 0b00000000]),
     (CHR ''@'', [0b00111100, 0b01000010, 0b01001110, 0b01010010,
       0b01001110, 0b01000000, 0b00111100, 0b00000000]),
     (CHR ''*'', [0b00000000, 0b00100100, 0b00011000, 0b01111110,
       0b00011000, 0b00100100, 0b00000000, 0b00000000]),
     (CHR 0x22, [0b00100100, 0b00100100, 0b00000000, 0b00000000,
       0b00000000, 0b00000000, 0b00000000, 0b00000000]),
     (CHR 0x27, [0b00001000, 0b00001000, 0b00000000, 0b00000000,
       0b00000000, 0b00000000, 0b00000000, 0b00000000]),
     (CHR ''>'', [0b00000000, 0b00000000, 0b01000000, 0b00100000,
       0b00010000, 0b00100000, 0b01000000, 0b00000000]),
     (CHR ''<'', [0b00000000, 0b00000000, 0b00000100, 0b00001000,
       0b00010000, 0b00001000, 0b00000100, 0b00000000])]"

definition eX_Font_table :: "(char \<times> u8 list) list" where
  "eX_Font_table = font_upper_1 @ font_upper_2 @ font_lower_1 @ font_lower_2 @
     font_digits @ font_marks @ font_symbols"

text \<open>An element of the array that no initialiser names is zero.\<close>

definition eX_Font :: "u8 \<Rightarrow> u8 list" where
  "eX_Font c =
     (case find (\<lambda>(k, g). of_char k = c) eX_Font_table of
        Some (k, g) \<Rightarrow> g
      | None \<Rightarrow> replicate 8 0)"

lemmas font_tables = font_upper_1_def font_upper_2_def font_lower_1_def font_lower_2_def
  font_digits_def font_marks_def font_symbols_def

section \<open>Shape of the glyphs\<close>

lemma find_key_eq_map_of:
  "find (\<lambda>(k, g). k = c) t = map_option (\<lambda>g. (c, g)) (map_of t c)"
  by (induction t) auto

lemma eX_Font_of_char:
  "eX_Font (of_char c) = (case map_of eX_Font_table c of Some g \<Rightarrow> g | None \<Rightarrow> replicate 8 0)"
  by (simp add: eX_Font_def find_key_eq_map_of split: option.split)

lemma font_keys: "map fst eX_Font_table =
  ''ABCDEFGHIJKLMNOPQRSTUVWXYZabcdefghijklmnopqrstuvwxyz0123456789.,:!?-_()/'' @
  [CHR 0x5C] @ ''=+%#@*'' @ [CHR 0x22, CHR 0x27] @ ''><''"
  by (simp add: eX_Font_table_def font_tables)

lemma font_keys_distinct: "distinct (map fst eX_Font_table)"
  unfolding font_keys by simp

lemma font_glyphs_distinct: "distinct (map snd eX_Font_table)"
proof -
  have "distinct (map (\<lambda>g. horner_sum uint 256 g) (map snd eX_Font_table))"
    unfolding eX_Font_table_def font_tables by simp
  then show ?thesis by (simp only: distinct_map)
qed

lemma blank_glyph: "replicate 8 0 = [0, 0, 0, 0, 0, 0, 0, 0]"
  by (simp add: numeral_eq_Suc)

lemma font_glyphs_not_blank: "replicate 8 0 \<notin> set (map snd eX_Font_table)"
  unfolding eX_Font_table_def font_tables blank_glyph by simp

lemma font_table_rows: "\<forall>(k, g) \<in> set eX_Font_table. length g = 8"
  unfolding eX_Font_table_def font_tables by simp

lemma length_eX_Font [simp]: "length (eX_Font c) = 8"
proof (cases "find (\<lambda>(k, g). of_char k = c) eX_Font_table")
  case (Some e)
  then have "e \<in> set eX_Font_table" by (auto simp: find_Some_iff in_set_conv_nth)
  with font_table_rows Some show ?thesis
    by (auto simp: eX_Font_def split: prod.splits)
qed (simp add: eX_Font_def)

lemma eX_Font_in_table: "(k, g) \<in> set eX_Font_table \<Longrightarrow> eX_Font (of_char k) = g"
  using font_keys_distinct by (simp add: eX_Font_of_char)

lemma eX_Font_blank_iff: "eX_Font (of_char c) = replicate 8 0 \<longleftrightarrow> c \<notin> set (map fst eX_Font_table)"
proof (cases "map_of eX_Font_table c")
  case None
  then have "c \<notin> set (map fst eX_Font_table)" by (simp add: map_of_eq_None_iff)
  with None show ?thesis by (simp add: eX_Font_of_char)
next
  case (Some g)
  then have "(c, g) \<in> set eX_Font_table" by (rule map_of_SomeD)
  then show ?thesis
    using font_glyphs_not_blank Some by (force simp: eX_Font_of_char)
qed

section \<open>Properties\<close>

text \<open>
  The font is legible: every character of the glyph table is drawn with its own pattern, no
  two characters share one and none is blank; and the printable ASCII characters that are drawn
  as a blank cell are exactly the space and eleven punctuation marks that have no glyph.
\<close>

theorem eX_Font_legible:
  "inj_on (\<lambda>k. eX_Font (of_char k)) (set (map fst eX_Font_table)) \<and>
   filter (\<lambda>c. eX_Font (of_char c) = replicate 8 0) (map char_of [32..<127 :: nat]) = '' $&;[]^`{|}~''"
proof
  have glyph: "map (\<lambda>k. eX_Font (of_char k)) (map fst eX_Font_table) = map snd eX_Font_table"
    by (auto simp: eX_Font_in_table)
  show "inj_on (\<lambda>k. eX_Font (of_char k)) (set (map fst eX_Font_table))"
    using font_glyphs_distinct unfolding glyph [symmetric] distinct_map by blast
  show "filter (\<lambda>c. eX_Font (of_char c) = replicate 8 0) (map char_of [32..<127 :: nat]) = '' $&;[]^`{|}~''"
    unfolding eX_Font_blank_iff font_keys by code_simp
qed

end
