(* ===== verification/Eyax_Limine.thy ===== *)
theory Eyax_Limine
  imports Eyax_Prelude
begin

text \<open>
  The part of the Limine boot protocol interface, \<^verbatim>\<open>src/limine.h\<close>, that the kernel uses: the base
  revision, the framebuffer, memory map and higher half requests with their responses, and the markers
  around the requests. A response pointer is an option, \<open>None\<close> for \<^verbatim>\<open>NULL\<close>; an array behind a pointer
  is a list, read by \<open>array_get\<close>, so that an index past the array has no defined result.
\<close>

record limine_video_mode =
  vm_pitch :: u64
  vm_width :: u64
  vm_height :: u64
  vm_bpp :: u16
  vm_memory_model :: u8
  vm_red_mask_size :: u8
  vm_red_mask_shift :: u8
  vm_green_mask_size :: u8
  vm_green_mask_shift :: u8
  vm_blue_mask_size :: u8
  vm_blue_mask_shift :: u8

record limine_framebuffer =
  fb_address :: u64
  fb_width :: u64
  fb_height :: u64
  fb_pitch :: u64
  fb_bpp :: u16
  fb_memory_model :: u8
  fb_red_mask_size :: u8
  fb_red_mask_shift :: u8
  fb_green_mask_size :: u8
  fb_green_mask_shift :: u8
  fb_blue_mask_size :: u8
  fb_blue_mask_shift :: u8
  fb_unused :: "u8 list"
  fb_edid_size :: u64
  fb_edid :: u64
  fb_mode_count :: u64
  fb_modes :: "limine_video_mode list"

definition LIMINE_FRAMEBUFFER_RGB :: u8 where
  "LIMINE_FRAMEBUFFER_RGB = 1"

text \<open>A framebuffer with four bytes for a pixel and no gap between the rows, for examples.\<close>

definition rgb_framebuffer :: "u64 \<Rightarrow> u64 \<Rightarrow> u64 \<Rightarrow> limine_framebuffer" where
  "rgb_framebuffer address width height =
     \<lparr>fb_address = address, fb_width = width, fb_height = height, fb_pitch = 4 * width, fb_bpp = 32,
      fb_memory_model = LIMINE_FRAMEBUFFER_RGB, fb_red_mask_size = 8, fb_red_mask_shift = 16, fb_green_mask_size = 8,
      fb_green_mask_shift = 8, fb_blue_mask_size = 8, fb_blue_mask_shift = 0, fb_unused = replicate 7 0,
      fb_edid_size = 0, fb_edid = 0, fb_mode_count = 0, fb_modes = []\<rparr>"

record limine_framebuffer_response =
  framebuffer_revision :: u64
  framebuffer_count :: u64
  framebuffers :: "limine_framebuffer list"

record limine_memmap_entry =
  me_base :: u64
  me_length :: u64
  me_type :: u64

record limine_memmap_response =
  memmap_revision :: u64
  entry_count :: u64
  entries :: "limine_memmap_entry list option"

record limine_hhdm_response =
  hhdm_revision :: u64
  hhdm_offset :: u64

definition LIMINE_MEMMAP_USABLE :: u64 where
  "LIMINE_MEMMAP_USABLE = 0"

text \<open>The array of three words that holds the base revision.\<close>

definition LIMINE_BASE_REVISION :: "u64 \<Rightarrow> u64 \<times> u64 \<times> u64" where
  "LIMINE_BASE_REVISION n = (0xf9562b2d5c95a6c8, 0x6a7b384944536bdc, n)"

definition LIMINE_BASE_REVISION_SUPPORTED :: "u64 \<times> u64 \<times> u64 \<Rightarrow> bool" where
  "LIMINE_BASE_REVISION_SUPPORTED = (\<lambda>(_, _, revision). revision = 0)"

text \<open>
  \<^verbatim>\<open>struct limine_framebuffer_request\<close>, \<^verbatim>\<open>struct limine_memmap_request\<close> and \<^verbatim>\<open>struct limine_hhdm_request\<close>,
  which differ in the type of the response only.
\<close>

record 'r limine_request =
  req_id :: "u64 list"
  req_revision :: u64
  req_response :: "'r option"

definition LIMINE_REQUESTS_START_MARKER :: "u64 list" where
  "LIMINE_REQUESTS_START_MARKER = [0xf6b8f4b39de7d1ae, 0xfab91a6940fcb9cf, 0x785c6ed015d3e316, 0x181e920a7852b9d9]"

definition LIMINE_REQUESTS_END_MARKER :: "u64 list" where
  "LIMINE_REQUESTS_END_MARKER = [0xadc0e0531bb10d03, 0x9572709f31764c62]"

definition LIMINE_COMMON_MAGIC :: "u64 list" where
  "LIMINE_COMMON_MAGIC = [0xc7b1dd30df4c8b88, 0x0a82e883a194f07b]"

definition LIMINE_HHDM_REQUEST_ID :: "u64 list" where
  "LIMINE_HHDM_REQUEST_ID = LIMINE_COMMON_MAGIC @ [0x48dcf1cb8ad2b852, 0x63984e959a98244b]"

definition LIMINE_FRAMEBUFFER_REQUEST_ID :: "u64 list" where
  "LIMINE_FRAMEBUFFER_REQUEST_ID = LIMINE_COMMON_MAGIC @ [0x9d5827dcd881dd75, 0xa3148604f6fab11b]"

definition LIMINE_MEMMAP_REQUEST_ID :: "u64 list" where
  "LIMINE_MEMMAP_REQUEST_ID = LIMINE_COMMON_MAGIC @ [0x67cf3d9d378a806f, 0xe304acdfc50c3c62]"

definition array_get :: "'a list \<Rightarrow> u64 \<Rightarrow> 'a option" where
  "array_get xs i = (if unat i < length xs then Some (xs ! unat i) else None)"

lemma array_get_in_range [simp]: "unat i < length xs \<Longrightarrow> array_get xs i = Some (xs ! unat i)"
  by (simp add: array_get_def)

text \<open>\<^verbatim>\<open>response->entries[i]\<close>.\<close>

definition memmap_entry :: "limine_memmap_response \<Rightarrow> u64 \<Rightarrow> limine_memmap_entry option" where
  "memmap_entry response i = Option.bind (entries response) (\<lambda>es. array_get es i)"

text \<open>
  What the boot protocol documents of a memory map response: the array has \<^verbatim>\<open>entry_count\<close>
  elements.
\<close>

definition memmap_ok :: "limine_memmap_response \<Rightarrow> limine_memmap_entry list \<Rightarrow> bool" where
  "memmap_ok response es \<longleftrightarrow> entries response = Some es \<and> unat (entry_count response) = length es"

lemma memmap_ok_entry:
  "memmap_ok response es \<Longrightarrow> i < entry_count response \<Longrightarrow> memmap_entry response i = Some (es ! unat i)"
  by (simp add: memmap_ok_def memmap_entry_def word_less_nat_alt)

end
