(* ===== verification/Eyax_Console.thy ===== *)
theory Eyax_Console
  imports Eyax_Font Eyax_Limine
begin

text \<open>
  The framebuffer console of \<^verbatim>\<open>src/main.c\<close>: pixels, characters, strings, backspace, the
  clearing of the screen and the scaled logo. The video memory is the array of 32-bit cells that starts
  at the framebuffer address, indexed by the 64-bit expression the code computes; the code never
  compares that index with the size of the framebuffer, so the array has no end in the model.
\<close>

record console =
  Framebuffer :: limine_framebuffer
  vram :: "u64 \<Rightarrow> u32"
  CursorX :: u64
  CursorY :: u64
  Foreground :: u32
  Background :: u32

definition eX_CharWidth :: u64 where
  "eX_CharWidth = 8"

definition eX_CharHeight :: u64 where
  "eX_CharHeight = 8"

section \<open>Pixels and characters\<close>

definition eX_PutPixel :: "u64 \<Rightarrow> u64 \<Rightarrow> u32 \<Rightarrow> console \<Rightarrow> console" where
  "eX_PutPixel x y color con =
     con\<lparr>vram := (vram con)(y * (fb_pitch (Framebuffer con) div 4) + x := color)\<rparr>"

text \<open>\<^verbatim>\<open>glyph[row] & (1 << n)\<close>, on promoted operands.\<close>

definition glyph_bit :: "u8 list \<Rightarrow> nat \<Rightarrow> nat \<Rightarrow> bool" where
  "glyph_bit glyph row n \<longleftrightarrow> (ucast (glyph ! row) :: u32) AND push_bit n 1 \<noteq> 0"

definition eX_DrawChar :: "u8 \<Rightarrow> u64 \<Rightarrow> u64 \<Rightarrow> console \<Rightarrow> console" where
  "eX_DrawChar c x y con =
     (if c \<ge> 128 then con
      else let glyph = eX_Font c in
        for_range 0 eX_CharHeight (\<lambda>row.
          for_range 0 eX_CharWidth (\<lambda>col con.
            if glyph_bit glyph (unat row) (unat (7 - col))
            then eX_PutPixel (x + col) (y + row) (Foreground con) con
            else eX_PutPixel (x + col) (y + row) (Background con) con)) con)"

definition eX_PrintChar :: "u8 \<Rightarrow> console \<Rightarrow> console" where
  "eX_PrintChar c con =
     (if c = 10 then con\<lparr>CursorX := 0, CursorY := CursorY con + 1\<rparr>
      else let con' = eX_DrawChar c (CursorX con * eX_CharWidth) (CursorY con * eX_CharHeight) con
        in con'\<lparr>CursorX := CursorX con' + 1\<rparr>)"

text \<open>
  A string argument is the memory that the pointer points into, up to the end of its object; the
  loop has no defined result when that memory holds no terminator.
\<close>

fun eX_PrintString :: "u8 list \<Rightarrow> console \<Rightarrow> console option" where
  "eX_PrintString [] con = None"
| "eX_PrintString (c # string) con =
     (if c = 0 then Some con else eX_PrintString string (eX_PrintChar c con))"

section \<open>Screen operations\<close>

definition eX_Clear :: "console \<Rightarrow> console" where
  "eX_Clear con =
     (let pitch_pixels = fb_pitch (Framebuffer con) div 4;
          con' = for_range 0 (fb_height (Framebuffer con)) (\<lambda>y.
                   for_range 0 (fb_width (Framebuffer con)) (\<lambda>x con.
                     con\<lparr>vram := (vram con)(y * pitch_pixels + x := Background con)\<rparr>)) con
      in con'\<lparr>CursorX := 0, CursorY := 0\<rparr>)"

definition eX_Backspace :: "console \<Rightarrow> console" where
  "eX_Backspace con =
     (if CursorX con = 0 then con
      else let con' = con\<lparr>CursorX := CursorX con - 1\<rparr>
        in eX_DrawChar (chr CHR '' '') (CursorX con' * eX_CharWidth) (CursorY con' * eX_CharHeight) con')"

text \<open>
  The scaled character and the logo compute their coordinates in 32 bits and widen them for
  \<^verbatim>\<open>eX_PutPixel\<close>; in the logo the loop counters are \<^verbatim>\<open>size_t\<close>, so that the sums are 64-bit.
\<close>

definition eX_DrawScaledChar :: "u32 \<Rightarrow> u32 \<Rightarrow> u8 \<Rightarrow> u32 \<Rightarrow> console \<Rightarrow> console" where
  "eX_DrawScaledChar x y c scale con =
     (if c \<ge> 128 then con
      else let glyph = eX_Font c in
        for_range 0 8 (\<lambda>row :: u32.
          for_range 0 8 (\<lambda>col :: u32. \<lambda>con.
            if glyph_bit glyph (unat row) (unat col) then
              for_range 0 scale (\<lambda>dy.
                for_range 0 scale (\<lambda>dx con.
                  eX_PutPixel (ucast (x + col * scale + dx)) (ucast (y + row * scale + dy))
                    (Foreground con) con)) con
            else con)) con)"

definition eX_DrawLogo :: "console \<Rightarrow> console" where
  "eX_DrawLogo con =
     (let logo = cstr ''Xaye'';
          scale = (4 :: u32);
          margin = (16 :: u32);
          width = (ucast (4 * eX_CharWidth * ucast scale) :: u32);
          x = (ucast (fb_width (Framebuffer con) - ucast width - ucast margin) :: u32);
          y = margin
      in for_range 0 4 (\<lambda>i :: u64.
           let glyph = eX_Font (logo ! unat (3 - i));
               char_x = (ucast (ucast x + i * eX_CharWidth * ucast scale) :: u32)
           in for_range 0 eX_CharHeight (\<lambda>row.
                for_range 0 eX_CharWidth (\<lambda>col con.
                  if glyph_bit glyph (unat row) (unat (7 - col)) then
                    for_range 0 scale (\<lambda>dy.
                      for_range 0 scale (\<lambda>dx con.
                        eX_PutPixel (ucast char_x + col * ucast scale + ucast dx)
                          (ucast y + row * ucast scale + ucast dy) (Foreground con) con)) con
                  else con))) con)"

lemma for_range_override:
  fixes con :: console
  assumes "\<And>j m. i \<le> j \<Longrightarrow> j < n \<Longrightarrow>
      body j (con\<lparr>vram := m\<rparr>) = con\<lparr>vram := override_on m g (A j)\<rparr>"
    and "i \<le> n"
  shows "for_range i n body (con\<lparr>vram := m\<rparr>) = con\<lparr>vram := override_on m g (\<Union>j \<in> {i..<n}. A j)\<rparr>"
proof -
  let ?P = "\<lambda>j s. s = con\<lparr>vram := override_on m g (\<Union>k \<in> {i..<j}. A k)\<rparr>"
  have "?P n (for_range i n body (con\<lparr>vram := m\<rparr>))"
  proof (rule for_range_inv [where P = ?P])
    fix j t
    assume "i \<le> j" "j < n" and t: "?P j t"
    then show "?P (j + 1) (body j t)"
      by (simp add: assms(1) word_atLeastLessThan_Suc override_on_def Un_def)
        (auto simp: fun_eq_iff)
  qed (use assms(2) in simp_all)
  then show ?thesis .
qed

lemma for_range_override_self:
  fixes con :: console
  assumes "\<And>j m. i \<le> j \<Longrightarrow> j < n \<Longrightarrow>
      body j (con\<lparr>vram := m\<rparr>) = con\<lparr>vram := override_on m g (A j)\<rparr>"
    and "i \<le> n"
  shows "for_range i n body con = con\<lparr>vram := override_on (vram con) g (\<Union>j \<in> {i..<n}. A j)\<rparr>"
  using for_range_override [of i n body con g A "vram con"] assms by simp

lemma glyph_bit_iff: "n < 32 \<Longrightarrow> glyph_bit glyph row n \<longleftrightarrow> bit (glyph ! row) n"
  by (simp add: glyph_bit_def push_bit_of_1 and_exp_eq_0_iff_not_bit bit_ucast_iff)

section \<open>The screen as a grid of pixels\<close>

definition stride :: "console \<Rightarrow> nat" where
  "stride con = unat (fb_pitch (Framebuffer con)) div 4"

definition pixel :: "console \<Rightarrow> nat \<Rightarrow> nat \<Rightarrow> u32" where
  "pixel con X Y = vram con (word_of_nat (Y * stride con + X))"

definition glyph_color :: "console \<Rightarrow> u8 \<Rightarrow> nat \<Rightarrow> nat \<Rightarrow> u32" where
  "glyph_color con c row col =
     (if c < 128 \<and> bit (eX_Font c ! row) (7 - col) then Foreground con else Background con)"

text \<open>A cell of eight by eight pixels lies within a row of cells and within the address range.\<close>

definition cell_fits :: "console \<Rightarrow> nat \<Rightarrow> nat \<Rightarrow> bool" where
  "cell_fits con x y \<longleftrightarrow> x + 8 \<le> stride con \<and> (y + 8) * stride con \<le> 2 ^ 64"

lemma pixel_index:
  assumes "unat x < stride con" and "Suc (unat y) * stride con \<le> 2 ^ 64"
  shows "unat (y * (fb_pitch (Framebuffer con) div 4) + x) = unat y * stride con + unat x"
proof -
  have lt: "unat y * stride con + unat x < 2 ^ 64" using assms by simp
  have p: "unat (fb_pitch (Framebuffer con) div 4) = stride con"
    by (simp add: unat_div stride_def)
  have "unat (y * (fb_pitch (Framebuffer con) div 4)) = unat y * stride con"
    using lt by (simp add: unat_mult_no_wrap p)
  then show ?thesis using lt by (simp add: unat_add_no_wrap)
qed


lemma cell_pixel_index:
  fixes row col :: u64
  assumes fits: "cell_fits con (unat x) (unat y)" and "row < 8" and "col < 8"
  shows "unat ((y + row) * (fb_pitch (Framebuffer con) div 4) + (x + col)) =
     (unat y + unat row) * stride con + (unat x + unat col)"
    and "unat x + unat col < stride con"
proof -
  have rc: "unat row < 8" "unat col < 8" using assms(2,3) by (simp_all add: word_less_nat_alt)
  have P: "unat x + 8 \<le> stride con" and all: "(unat y + 8) * stride con \<le> 2 ^ 64"
    using fits by (auto simp: cell_fits_def)
  have Plt: "stride con < 2 ^ 63"
    using unat_lt64 [of "fb_pitch (Framebuffer con)"] by (simp add: stride_def del: unat_lt64)
  have "(unat y + 8) * 8 \<le> (unat y + 8) * stride con" using P by (intro mult_le_mono2) simp
  then have ylt: "(unat y + 8) * 8 \<le> 2 ^ 64" using all by linarith
  have x': "unat (x + col) = unat x + unat col"
    using P Plt rc by (intro unat_add_no_wrap) simp
  have y': "unat (y + row) = unat y + unat row"
    using ylt rc by (intro unat_add_no_wrap) simp
  have "Suc (unat y + unat row) * stride con \<le> (unat y + 8) * stride con"
    using rc by (intro mult_le_mono1) simp
  then have "Suc (unat (y + row)) * stride con \<le> 2 ^ 64" using all y' by simp
  then show "unat ((y + row) * (fb_pitch (Framebuffer con) div 4) + (x + col)) =
     (unat y + unat row) * stride con + (unat x + unat col)"
    using pixel_index [of "x + col" con "y + row"] x' y' P rc by simp
  show "unat x + unat col < stride con" using P rc by simp
qed

definition cell_indices :: "console \<Rightarrow> u64 \<Rightarrow> u64 \<Rightarrow> u64 set" where
  "cell_indices con x y =
     (\<Union>row \<in> {0..<8}. \<Union>col \<in> {0..<8}.
        {(y + row) * (fb_pitch (Framebuffer con) div 4) + (x + col)})"

lemma eX_DrawChar_override:
  assumes fits: "cell_fits con (unat x) (unat y)" and c: "c < 128"
  defines "P \<equiv> stride con"
  shows "eX_DrawChar c x y con = con\<lparr>vram := override_on (vram con)
      (\<lambda>k. glyph_color con c (unat k div P - unat y) (unat k mod P - unat x))
      (cell_indices con x y)\<rparr>"
proof -
  let ?g = "\<lambda>k. glyph_color con c (unat k div P - unat y) (unat k mod P - unat x)"
  let ?put = "\<lambda>row col con'. if glyph_bit (eX_Font c) (unat row) (unat (7 - col))
            then eX_PutPixel (x + col) (y + row) (Foreground con') con'
            else eX_PutPixel (x + col) (y + row) (Background con') con'"
  have g: "?g ((y + row) * (fb_pitch (Framebuffer con) div 4) + (x + col)) =
      glyph_color con c (unat row) (unat col)" if "row < 8" "col < 8" for row col
    using cell_pixel_index [OF fits that] that by (simp add: P_def)
  have put: "?put row col (con\<lparr>vram := m\<rparr>) = con\<lparr>vram := override_on m ?g
      {(y + row) * (fb_pitch (Framebuffer con) div 4) + (x + col)}\<rparr>" if "row < 8" "col < 8" for row col m
  proof -
    have "unat (7 - col) = 7 - unat col" "7 - unat col < 32"
      using that by (auto simp: word_less_nat_alt word_le_nat_alt unat_sub)
    then have "glyph_bit (eX_Font c) (unat row) (unat (7 - col)) \<longleftrightarrow>
        bit (eX_Font c ! unat row) (7 - unat col)" by (simp add: glyph_bit_iff)
    then show ?thesis
      using g [OF that] c by (auto simp: eX_PutPixel_def glyph_color_def override_on_def fun_eq_iff)
  qed
  have "for_range 0 8 (\<lambda>row. for_range 0 8 (?put row)) con =
      con\<lparr>vram := override_on (vram con) ?g (\<Union>row \<in> {0..<8}. \<Union>col \<in> {0..<8}.
         {(y + row) * (fb_pitch (Framebuffer con) div 4) + (x + col)})\<rparr>"
    by (rule for_range_override_self, rule for_range_override, rule put) auto
  then show ?thesis
    using c by (simp add: eX_DrawChar_def eX_CharWidth_def eX_CharHeight_def cell_indices_def)
qed

text \<open>What \<^verbatim>\<open>eX_DrawChar\<close> does to every pixel of the screen.\<close>

lemma pixel_eX_DrawChar:
  assumes fits: "cell_fits con (unat x) (unat y)" and c: "c < 128"
    and X: "X < stride con" and Y: "Y * stride con + X < 2 ^ 64"
  shows "pixel (eX_DrawChar c x y con) X Y =
     (if X \<in> {unat x..<unat x + 8} \<and> Y \<in> {unat y..<unat y + 8}
      then glyph_color con c (Y - unat y) (X - unat x) else pixel con X Y)"
proof -
  let ?k = "word_of_nat (Y * stride con + X) :: u64"
  have k: "unat ?k = Y * stride con + X"
    using Y by (subst unat_of_nat) simp
  have "?k \<in> cell_indices con x y \<longleftrightarrow>
     (\<exists>row < 8. \<exists>col < 8. Y = unat y + unat (row :: u64) \<and> X = unat x + unat (col :: u64))"
    using cell_pixel_index [OF fits] X
    by (auto simp: word_unat_eq_iff k grid_eq_iff cell_indices_def simp del: of_nat_add of_nat_mult) blast
  also have "\<dots> \<longleftrightarrow> X \<in> {unat x..<unat x + 8} \<and> Y \<in> {unat y..<unat y + 8}" (is "?l \<longleftrightarrow> ?r")
  proof
    assume ?r
    moreover obtain row col :: u64 where "unat row = Y - unat y" "unat col = X - unat x"
      using \<open>?r\<close> unat_of_nat64 [of "Y - unat y"] unat_of_nat64 [of "X - unat x"] by fastforce
    ultimately show ?l
      by (intro exI [of _ row] conjI exI [of _ col]) (auto simp: word_less_nat_alt)
  qed (auto simp: word_less_nat_alt)
  finally have mem: "?k \<in> cell_indices con x y \<longleftrightarrow>
     X \<in> {unat x..<unat x + 8} \<and> Y \<in> {unat y..<unat y + 8}" .
  show ?thesis
    using X by (simp add: eX_DrawChar_override [OF fits c] pixel_def stride_def [of "con\<lparr>vram := _\<rparr>"]
        stride_def [of con, symmetric] override_on_def mem k del: of_nat_add of_nat_mult)
qed


text \<open>Drawing changes the video memory only, wherever the cell lies.\<close>

lemma for_range_vram_only:
  fixes con :: console
  assumes "\<And>j m. \<exists>m'. body j (con\<lparr>vram := m\<rparr>) = con\<lparr>vram := m'\<rparr>"
  shows "\<exists>m'. for_range i n body (con\<lparr>vram := m\<rparr>) = con\<lparr>vram := m'\<rparr>"
proof (cases "i \<le> n")
  case True
  show ?thesis
    by (rule for_range_inv [where P = "\<lambda>j s. \<exists>m'. s = con\<lparr>vram := m'\<rparr>"]) (use assms True in auto)
next
  case False
  then show ?thesis by auto
qed

lemma eX_DrawChar_vram_only: "\<exists>m. eX_DrawChar c x y con = con\<lparr>vram := m\<rparr>"
proof (cases "c \<ge> 128")
  case True
  then show ?thesis by (auto simp: eX_DrawChar_def intro: exI [of _ "vram con"])
next
  case False
  let ?rows = "for_range 0 eX_CharHeight (\<lambda>row. for_range 0 eX_CharWidth (\<lambda>col con.
            if glyph_bit (eX_Font c) (unat row) (unat (7 - col))
            then eX_PutPixel (x + col) (y + row) (Foreground con) con
            else eX_PutPixel (x + col) (y + row) (Background con) con))"
  have "\<exists>m. ?rows (con\<lparr>vram := vram con\<rparr>) = con\<lparr>vram := m\<rparr>"
    by (intro for_range_vram_only) (auto simp: eX_PutPixel_def)
  with False show ?thesis by (simp add: eX_DrawChar_def)
qed

lemma eX_DrawChar_frame [simp]:
  "Framebuffer (eX_DrawChar c x y con) = Framebuffer con"
  "CursorX (eX_DrawChar c x y con) = CursorX con"
  "CursorY (eX_DrawChar c x y con) = CursorY con"
  "Foreground (eX_DrawChar c x y con) = Foreground con"
  "Background (eX_DrawChar c x y con) = Background con"
  using eX_DrawChar_vram_only [of c x y con] by auto

lemma eX_PrintChar_frame [simp]:
  "Framebuffer (eX_PrintChar c con) = Framebuffer con"
  "Foreground (eX_PrintChar c con) = Foreground con"
  "Background (eX_PrintChar c con) = Background con"
  by (simp_all add: eX_PrintChar_def Let_def)

lemma eX_PrintChar_cursor:
  "CursorX (eX_PrintChar c con) = (if c = 10 then 0 else CursorX con + 1)"
  "CursorY (eX_PrintChar c con) = (if c = 10 then CursorY con + 1 else CursorY con)"
  by (simp_all add: eX_PrintChar_def Let_def)

lemma stride_cong: "Framebuffer con' = Framebuffer con \<Longrightarrow> stride con' = stride con"
  by (simp add: stride_def)

lemma stride_frame [simp]:
  "stride (con\<lparr>vram := m\<rparr>) = stride con" "stride (con\<lparr>CursorX := cx\<rparr>) = stride con"
  "stride (con\<lparr>CursorY := cy\<rparr>) = stride con"
  "stride (eX_DrawChar c x y con) = stride con" "stride (eX_PrintChar c con) = stride con"
  by (simp_all add: stride_def)

section \<open>Strings on the screen\<close>

text \<open>The character cell in column \<open>cx\<close> and row \<open>cy\<close> shows the glyph of \<open>c\<close>.\<close>

definition shows_char :: "console \<Rightarrow> nat \<Rightarrow> nat \<Rightarrow> u8 \<Rightarrow> bool" where
  "shows_char con cx cy c \<longleftrightarrow>
     (\<forall>row < 8. \<forall>col < 8. pixel con (8 * cx + col) (8 * cy + row) = glyph_color con c row col)"

definition same_cell :: "console \<Rightarrow> console \<Rightarrow> nat \<Rightarrow> nat \<Rightarrow> bool" where
  "same_cell con con' cx cy \<longleftrightarrow>
     (\<forall>row < 8. \<forall>col < 8. pixel con' (8 * cx + col) (8 * cy + row) = pixel con (8 * cx + col) (8 * cy + row))"

abbreviation printable :: "u8 \<Rightarrow> bool" where
  "printable c \<equiv> c \<noteq> 0 \<and> c \<noteq> 10 \<and> c < 128"

lemma cell_coord:
  "col < 8 \<Longrightarrow> 8 * cx + col \<in> {8 * a..<8 * a + 8} \<longleftrightarrow> cx = a" for cx a col :: nat
  by auto

definition text_row_fits :: "console \<Rightarrow> nat \<Rightarrow> nat \<Rightarrow> bool" where
  "text_row_fits con columns cy \<longleftrightarrow> 8 * columns \<le> stride con \<and> 8 * (cy + 1) * stride con \<le> 2 ^ 64"

lemma cursor_cell_fits:
  assumes "text_row_fits con (unat (CursorX con) + 1) (unat (CursorY con))"
  shows "unat (CursorX con * eX_CharWidth) = 8 * unat (CursorX con)"
    and "unat (CursorY con * eX_CharHeight) = 8 * unat (CursorY con)"
    and "cell_fits con (unat (CursorX con * eX_CharWidth)) (unat (CursorY con * eX_CharHeight))"
proof -
  have fit: "8 * (unat (CursorX con) + 1) \<le> stride con"
    and fity: "8 * (unat (CursorY con) + 1) * stride con \<le> 2 ^ 64"
    using assms by (simp_all add: text_row_fits_def)
  have "stride con < 2 ^ 63"
    using unat_lt64 [of "fb_pitch (Framebuffer con)"] by (simp add: stride_def del: unat_lt64)
  then show x: "unat (CursorX con * eX_CharWidth) = 8 * unat (CursorX con)"
    using fit by (simp add: eX_CharWidth_def unat_mult_no_wrap)
  have "8 * (unat (CursorY con) + 1) * 8 \<le> 8 * (unat (CursorY con) + 1) * stride con"
    using fit by (intro mult_le_mono2) simp
  then show y: "unat (CursorY con * eX_CharHeight) = 8 * unat (CursorY con)"
    using fity by (simp add: eX_CharHeight_def unat_mult_no_wrap)
  show "cell_fits con (unat (CursorX con * eX_CharWidth)) (unat (CursorY con * eX_CharHeight))"
    unfolding cell_fits_def x y using fit fity by (simp add: algebra_simps)
qed

lemma pixel_eX_PrintChar_cell:
  assumes c: "printable c"
    and fit: "text_row_fits con (unat (CursorX con) + 1) (unat (CursorY con))"
    and fit': "text_row_fits con (cx + 1) cy"
    and rc: "row < 8" "col < 8"
  shows "pixel (eX_PrintChar c con) (8 * cx + col) (8 * cy + row) =
     (if cx = unat (CursorX con) \<and> cy = unat (CursorY con) then glyph_color con c row col
      else pixel con (8 * cx + col) (8 * cy + row))"
proof -
  let ?x = "CursorX con * eX_CharWidth" and ?y = "CursorY con * eX_CharHeight"
  have X: "8 * cx + col < stride con" using fit' rc by (simp add: text_row_fits_def)
  have "Suc (8 * cy + row) * stride con \<le> 8 * (cy + 1) * stride con"
    using rc by (intro mult_le_mono1) simp
  also have "\<dots> \<le> 2 ^ 64" using fit' by (simp add: text_row_fits_def)
  finally have Y: "(8 * cy + row) * stride con + (8 * cx + col) < 2 ^ 64" using X by simp
  have "pixel (eX_PrintChar c con) (8 * cx + col) (8 * cy + row) =
      pixel (eX_DrawChar c ?x ?y con) (8 * cx + col) (8 * cy + row)"
    using c by (simp add: eX_PrintChar_def Let_def pixel_def)
  also have "\<dots> = (if cx = unat (CursorX con) \<and> cy = unat (CursorY con) then glyph_color con c row col
      else pixel con (8 * cx + col) (8 * cy + row))"
    using pixel_eX_DrawChar [OF cursor_cell_fits(3) [OF fit] _ X Y, of c] c rc
    by (simp add: cursor_cell_fits(1,2) [OF fit] cell_coord [simplified])
  finally show ?thesis .
qed

lemma eX_PrintString_eq:
  "0 \<notin> set s \<Longrightarrow> eX_PrintString (s @ 0 # rest) con = Some (fold eX_PrintChar s con)"
  by (induction s arbitrary: con) auto

lemma glyph_color_eX_PrintChar [simp]:
  "glyph_color (eX_PrintChar c' con) c row col = glyph_color con c row col"
  by (simp add: glyph_color_def)

lemma text_row_fits_frame [simp]:
  "text_row_fits (eX_PrintChar c con) n cy = text_row_fits con n cy"
  by (simp add: text_row_fits_def)

lemma eX_PrintChar_cells:
  assumes c: "printable c" and fit: "text_row_fits con (unat (CursorX con) + 1) (unat (CursorY con))"
  shows "shows_char (eX_PrintChar c con) (unat (CursorX con)) (unat (CursorY con)) c"
    and "text_row_fits con (a + 1) b \<Longrightarrow> (a, b) \<noteq> (unat (CursorX con), unat (CursorY con)) \<Longrightarrow>
      same_cell con (eX_PrintChar c con) a b"
    and "unat (CursorX (eX_PrintChar c con)) = unat (CursorX con) + 1"
    and "CursorY (eX_PrintChar c con) = CursorY con"
proof -
  note px = pixel_eX_PrintChar_cell [OF c fit]
  show "shows_char (eX_PrintChar c con) (unat (CursorX con)) (unat (CursorY con)) c"
    unfolding shows_char_def by (simp add: px [OF fit])
  show "same_cell con (eX_PrintChar c con) a b" if "text_row_fits con (a + 1) b"
    "(a, b) \<noteq> (unat (CursorX con), unat (CursorY con))"
    using that px [of a b] by (auto simp: same_cell_def)
  have "stride con < 2 ^ 63"
    using unat_lt64 [of "fb_pitch (Framebuffer con)"] by (simp add: stride_def del: unat_lt64)
  then show "unat (CursorX (eX_PrintChar c con)) = unat (CursorX con) + 1"
    using c fit by (simp add: eX_PrintChar_cursor unat_add_no_wrap text_row_fits_def)
  show "CursorY (eX_PrintChar c con) = CursorY con" using c by (simp add: eX_PrintChar_cursor)
qed

text \<open>A backspace blanks the cell before the cursor and moves the cursor onto it.\<close>

lemma eX_Backspace_cells:
  assumes x: "CursorX con \<noteq> 0" and fit: "text_row_fits con (unat (CursorX con)) (unat (CursorY con))"
  shows "shows_char (eX_Backspace con) (unat (CursorX con) - 1) (unat (CursorY con)) (chr CHR '' '')"
    and "text_row_fits con (a + 1) b \<Longrightarrow> (a, b) \<noteq> (unat (CursorX con) - 1, unat (CursorY con)) \<Longrightarrow>
      same_cell con (eX_Backspace con) a b"
    and "unat (CursorX (eX_Backspace con)) = unat (CursorX con) - 1"
    and "CursorY (eX_Backspace con) = CursorY con"
proof -
  define con2 where "con2 = con\<lparr>CursorX := CursorX con - 1\<rparr>"
  have x2: "unat (CursorX con2) = unat (CursorX con) - 1" "unat (CursorX con) > 0"
    using x by (simp_all add: con2_def unat_minus_one unat_gt_0)
  have bs: "vram (eX_Backspace con) = vram (eX_PrintChar (chr CHR '' '') con2)"
    "CursorX (eX_Backspace con) = CursorX con2"
    using x by (simp_all add: eX_Backspace_def eX_PrintChar_def [of 32] con2_def Let_def)
  have frame: "Framebuffer (eX_Backspace con) = Framebuffer con" "Foreground (eX_Backspace con) = Foreground con"
    "Background (eX_Backspace con) = Background con"
    by (simp_all add: eX_Backspace_def Let_def)
  show "CursorY (eX_Backspace con) = CursorY con" by (simp add: eX_Backspace_def Let_def)
  show "unat (CursorX (eX_Backspace con)) = unat (CursorX con) - 1" by (simp add: bs x2)
  have pix: "pixel (eX_Backspace con) = pixel (eX_PrintChar (chr CHR '' '') con2)"
    by (simp add: fun_eq_iff pixel_def bs frame con2_def stride_def)
  have fit2: "text_row_fits con2 (unat (CursorX con2) + 1) (unat (CursorY con2))"
    using fit x2 by (simp add: con2_def text_row_fits_def stride_def)
  have sp: "printable (chr CHR '' '')" by simp
  note two = eX_PrintChar_cells [OF sp fit2, unfolded x2(1)]
  show "shows_char (eX_Backspace con) (unat (CursorX con) - 1) (unat (CursorY con)) (chr CHR '' '')"
    using two(1) by (simp add: shows_char_def pix glyph_color_def frame con2_def)
  have same: "pixel (con\<lparr>CursorX := CursorX con - 1\<rparr>) = pixel con" by (simp add: fun_eq_iff pixel_def stride_def)
  show "same_cell con (eX_Backspace con) a b"
    if "text_row_fits con (a + 1) b" "(a, b) \<noteq> (unat (CursorX con) - 1, unat (CursorY con))"
    using two(2) [of a b] that
    by (simp add: same_cell_def pix same con2_def text_row_fits_def stride_def)
qed

lemma shows_char_same_cell:
  "shows_char con cx cy c \<Longrightarrow> same_cell con con' cx cy \<Longrightarrow>
   Foreground con' = Foreground con \<Longrightarrow> Background con' = Background con \<Longrightarrow> shows_char con' cx cy c"
  by (simp add: shows_char_def same_cell_def glyph_color_def)

lemma same_cell_trans: "same_cell a b x y \<Longrightarrow> same_cell b c x y \<Longrightarrow> same_cell a c x y"
  by (simp add: same_cell_def)

lemma fold_eX_PrintChar_frame [simp]:
  "Framebuffer (fold eX_PrintChar s con) = Framebuffer con"
  "Foreground (fold eX_PrintChar s con) = Foreground con"
  "Background (fold eX_PrintChar s con) = Background con"
  by (induction s arbitrary: con) simp_all

lemma fold_eX_PrintChar_cells:
  assumes "\<forall>c \<in> set s. printable c"
    and "text_row_fits con (unat (CursorX con) + length s) (unat (CursorY con))"
  defines "con' \<equiv> fold eX_PrintChar s con"
  shows "unat (CursorX con') = unat (CursorX con) + length s \<and> CursorY con' = CursorY con \<and>
    (\<forall>i < length s. shows_char con' (unat (CursorX con) + i) (unat (CursorY con)) (s ! i)) \<and>
    (\<forall>a b. text_row_fits con (a + 1) b \<longrightarrow>
       b \<noteq> unat (CursorY con) \<or> a < unat (CursorX con) \<or> unat (CursorX con) + length s \<le> a \<longrightarrow>
       same_cell con con' a b)"
  using assms(1,2) unfolding con'_def
proof (induction s arbitrary: con)
  case Nil
  then show ?case by (simp add: same_cell_def)
next
  case (Cons c s)
  let ?con1 = "eX_PrintChar c con" and ?x = "unat (CursorX con)" and ?y = "unat (CursorY con)"
  let ?con' = "fold eX_PrintChar s ?con1"
  have fit1: "text_row_fits con (?x + 1) ?y"
    using Cons.prems(2) by (simp add: text_row_fits_def)
  have c: "printable c" using Cons.prems(1) by simp
  note one = eX_PrintChar_cells [OF c fit1]
  have fit: "text_row_fits ?con1 (unat (CursorX ?con1) + length s) (unat (CursorY ?con1))"
    using Cons.prems(2) one(3,4) by simp
  note IH = Cons.IH [OF _ fit, unfolded one(3,4)]
  have same: "same_cell ?con1 ?con' a b" if "text_row_fits con (a + 1) b"
    "b \<noteq> ?y \<or> a < ?x + 1 \<or> ?x + 1 + length s \<le> a" for a b
    using IH Cons.prems(1) that by simp
  have shows0: "shows_char ?con' ?x ?y c"
    using one(1) same [OF fit1] by (rule shows_char_same_cell) simp_all
  have rest: "\<forall>i < length s. shows_char ?con' (Suc ?x + i) ?y (s ! i)" and
    "unat (CursorX ?con') = Suc ?x + length s" "CursorY ?con' = CursorY con"
    using IH Cons.prems(1) by auto
  moreover have "\<forall>i < Suc (length s). shows_char ?con' (?x + i) ?y ((c # s) ! i)"
    using shows0 rest by (auto simp: less_Suc_eq_0_disj)
  moreover have "same_cell con ?con' a b" if "text_row_fits con (a + 1) b"
    "b \<noteq> ?y \<or> a < ?x \<or> Suc ?x + length s \<le> a" for a b
    using that by (intro same_cell_trans [OF one(2) [OF that(1)] same [OF that(1)]]) auto
  ultimately show ?case by simp
qed

section \<open>Clearing the screen\<close>

definition screen_ok :: "console \<Rightarrow> bool" where
  "screen_ok con \<longleftrightarrow> unat (fb_width (Framebuffer con)) \<le> stride con \<and>
     unat (fb_height (Framebuffer con)) * stride con \<le> 2 ^ 64"

lemma eX_Clear_frame [simp]:
  "CursorX (eX_Clear con) = 0" "CursorY (eX_Clear con) = 0"
  by (simp_all add: eX_Clear_def Let_def)

definition screen_indices :: "console \<Rightarrow> u64 set" where
  "screen_indices con =
     (\<Union>y \<in> {0..<fb_height (Framebuffer con)}. \<Union>x \<in> {0..<fb_width (Framebuffer con)}.
        {y * (fb_pitch (Framebuffer con) div 4) + x})"

lemma eX_Clear_override:
  "eX_Clear con = con\<lparr>vram := override_on (vram con) (\<lambda>_. Background con)
     (screen_indices con), CursorX := 0, CursorY := 0\<rparr>"
proof -
  let ?p = "fb_pitch (Framebuffer con) div 4"
  have "for_range 0 (fb_height (Framebuffer con)) (\<lambda>y. for_range 0 (fb_width (Framebuffer con))
      (\<lambda>x con. con\<lparr>vram := (vram con)(y * ?p + x := Background con)\<rparr>)) con =
    con\<lparr>vram := override_on (vram con) (\<lambda>_. Background con)
     (\<Union>y \<in> {0..<fb_height (Framebuffer con)}. \<Union>x \<in> {0..<fb_width (Framebuffer con)}. {y * ?p + x})\<rparr>"
    by (rule for_range_override_self, rule for_range_override)
      (auto simp: override_on_def fun_eq_iff)
  then show ?thesis by (simp add: eX_Clear_def Let_def screen_indices_def)
qed

lemma eX_Clear_config [simp]:
  "Framebuffer (eX_Clear con) = Framebuffer con"
  "Foreground (eX_Clear con) = Foreground con" "Background (eX_Clear con) = Background con"
  "stride (eX_Clear con) = stride con"
  by (simp_all add: eX_Clear_override stride_def)

lemma pixel_eX_Clear:
  assumes ok: "screen_ok con" and X: "X < stride con" and Y: "Y * stride con + X < 2 ^ 64"
  shows "pixel (eX_Clear con) X Y =
     (if X < unat (fb_width (Framebuffer con)) \<and> Y < unat (fb_height (Framebuffer con))
      then Background con else pixel con X Y)"
proof -
  let ?w = "fb_width (Framebuffer con)" and ?h = "fb_height (Framebuffer con)"
  let ?p = "fb_pitch (Framebuffer con) div 4"
  define k :: u64 where "k = word_of_nat (Y * stride con + X)"
  have k: "unat k = Y * stride con + X"
    unfolding k_def using Y by (subst unat_of_nat) simp
  have idx: "unat (y * ?p + x) = unat y * stride con + unat x" "unat x < stride con"
    if "y < ?h" "x < ?w" for x y
  proof -
    have xy: "unat y < unat ?h" "unat x < unat ?w"
      using that by (simp_all add: word_less_nat_alt)
    then show lt: "unat x < stride con" using ok by (simp add: screen_ok_def)
    have "Suc (unat y) * stride con \<le> unat ?h * stride con" using xy by (intro mult_le_mono1) simp
    then show "unat (y * ?p + x) = unat y * stride con + unat x"
      using ok lt by (intro pixel_index) (simp_all add: screen_ok_def)
  qed
  have "k \<in> screen_indices con \<longleftrightarrow>
     (\<exists>y < ?h. \<exists>x < ?w. Y = unat y \<and> X = unat x)"
    using idx X by (auto simp: word_unat_eq_iff k grid_eq_iff screen_indices_def) blast+
  also have "\<dots> \<longleftrightarrow> X < unat ?w \<and> Y < unat ?h"
  proof
    assume lt: "X < unat ?w \<and> Y < unat ?h"
    then have "unat (word_of_nat Y :: u64) = Y" "unat (word_of_nat X :: u64) = X"
      using unat_lt64 [of ?w] unat_lt64 [of ?h] by (auto intro!: unat_of_nat64 simp del: unat_lt64)
    then show "\<exists>y < ?h. \<exists>x < ?w. Y = unat y \<and> X = unat x"
      using lt by (intro exI [of _ "word_of_nat Y"] conjI exI [of _ "word_of_nat X"])
        (simp_all add: word_less_nat_alt)
  qed (auto simp: word_less_nat_alt)
  finally have mem: "k \<in> screen_indices con \<longleftrightarrow>
     X < unat ?w \<and> Y < unat ?h" .
  show ?thesis
    using mem by (simp add: pixel_def k_def [symmetric] eX_Clear_override override_on_def
        del: of_nat_add of_nat_mult)
qed

lemma eX_DrawChar_indices:
  assumes "cell_fits con (unat x) (unat y)" and "c < 128"
    and "vram (eX_DrawChar c x y con) k \<noteq> vram con k"
  shows "\<exists>row < 8. \<exists>col < 8. unat k = (unat y + row) * stride con + (unat x + col)"
proof -
  have "k \<in> cell_indices con x y"
    using assms(3) by (auto simp: eX_DrawChar_override [OF assms(1,2)] override_on_def split: if_splits)
  then obtain row col :: u64 where rc: "row < 8" "col < 8"
    "k = (y + row) * (fb_pitch (Framebuffer con) div 4) + (x + col)"
    by (auto simp: cell_indices_def)
  then show ?thesis
    using cell_pixel_index(1) [OF assms(1) rc(1,2)]
    by (intro exI [of _ "unat row"] conjI exI [of _ "unat col"]) (auto simp: word_less_nat_alt)
qed

lemma eX_PrintChar_indices:
  assumes "text_row_fits con (unat (CursorX con) + 1) (unat (CursorY con))" and "printable c"
    and "vram (eX_PrintChar c con) k \<noteq> vram con k"
  shows "\<exists>row < 8. \<exists>col < 8.
    unat k = (8 * unat (CursorY con) + row) * stride con + (8 * unat (CursorX con) + col)"
  using eX_DrawChar_indices [OF cursor_cell_fits(3) [OF assms(1)], of c k] assms(2,3)
  by (simp add: eX_PrintChar_def Let_def cursor_cell_fits(1,2) [OF assms(1)])

section \<open>Properties\<close>

text \<open>
  \<^verbatim>\<open>eX_PrintString\<close> shows its text: for a string of printable characters that fits into the rest
  of the text row, the call returns, every character appears in its cell, the cursor stands after
  the last one, and no other cell of the screen has changed.
\<close>

theorem eX_PrintString_shows:
  assumes "\<forall>c \<in> set s. printable c"
    and "text_row_fits con (unat (CursorX con) + length s) (unat (CursorY con))"
  shows "\<exists>con'. eX_PrintString (s @ 0 # rest) con = Some con' \<and>
    unat (CursorX con') = unat (CursorX con) + length s \<and> CursorY con' = CursorY con \<and>
    (\<forall>i < length s. shows_char con' (unat (CursorX con) + i) (unat (CursorY con)) (s ! i)) \<and>
    (\<forall>a b. text_row_fits con (a + 1) b \<longrightarrow>
       b \<noteq> unat (CursorY con) \<or> a < unat (CursorX con) \<or> unat (CursorX con) + length s \<le> a \<longrightarrow>
       same_cell con con' a b)"
proof -
  have "eX_PrintString (s @ 0 # rest) con = Some (fold eX_PrintChar s con)"
    using assms(1) by (intro eX_PrintString_eq) auto
  then show ?thesis using fold_eX_PrintChar_cells [OF assms] by blast
qed

definition sample_console :: console where
  "sample_console = \<lparr>Framebuffer = rgb_framebuffer 0xFD000000 640 480,
     vram = (\<lambda>_. 0), CursorX = 0, CursorY = 0, Foreground = 0xFFFFFFFF, Background = 0\<rparr>"

theorem eX_PrintString_shows_witness:
  "\<exists>con'. eX_PrintString (cstr ''hi'') sample_console = Some con' \<and>
    unat (CursorX con') = 2 \<and> shows_char con' 1 0 (chr CHR ''i'')"
proof -
  have p: "\<forall>c \<in> set (bytes_of ''hi''). printable c" by (simp add: bytes_of_def)
  have f: "text_row_fits sample_console (unat (CursorX sample_console) + length (bytes_of ''hi''))
     (unat (CursorY sample_console))"
    by (simp add: text_row_fits_def sample_console_def rgb_framebuffer_def stride_def bytes_of_def)
  obtain con' where con': "eX_PrintString (bytes_of ''hi'' @ 0 # []) sample_console = Some con'"
    "unat (CursorX con') = unat (CursorX sample_console) + length (bytes_of ''hi'')"
    "\<forall>i < length (bytes_of ''hi''). shows_char con' (unat (CursorX sample_console) + i)
       (unat (CursorY sample_console)) (bytes_of ''hi'' ! i)"
    using eX_PrintString_shows [OF p f, of "[]"] by blast
  then have "unat (CursorX con') = 2" "shows_char con' 1 0 (chr CHR ''i'')"
    by (simp_all add: sample_console_def rgb_framebuffer_def bytes_of_def numeral_2_eq_2 All_less_Suc)
  with con'(1) show ?thesis by (auto simp: cstr_def)
qed

text \<open>
  C33: a character printed while the cursor stands inside of the screen writes to the framebuffer
  only: every cell of the video memory that changes lies before the end of the framebuffer.
\<close>

theorem eX_PrintChar_in_framebuffer:
  assumes "screen_ok con" and "printable c"
    and "8 * (unat (CursorX con) + 1) \<le> stride con"
    and "8 * (unat (CursorY con) + 1) \<le> unat (fb_height (Framebuffer con))"
    and "vram (eX_PrintChar c con) k \<noteq> vram con k"
  shows "unat k < unat (fb_height (Framebuffer con)) * stride con"
proof -
  have "8 * (unat (CursorY con) + 1) * stride con \<le> unat (fb_height (Framebuffer con)) * stride con"
    using assms(4) by (rule mult_le_mono1)
  also have "\<dots> \<le> 2 ^ 64" using assms(1) by (simp add: screen_ok_def)
  finally have "text_row_fits con (unat (CursorX con) + 1) (unat (CursorY con))"
    using assms(3) by (simp add: text_row_fits_def)
  then obtain row col where rc: "row < 8" "col < 8"
    "unat k = (8 * unat (CursorY con) + row) * stride con + (8 * unat (CursorX con) + col)"
    using eX_PrintChar_indices assms(2,5) by blast
  have "unat k < Suc (8 * unat (CursorY con) + row) * stride con"
    using rc(2) assms(3) unfolding rc(3) by simp
  also have "\<dots> \<le> unat (fb_height (Framebuffer con)) * stride con"
    using rc(1) assms(4) by (intro mult_le_mono1) simp
  finally show ?thesis .
qed

theorem eX_PrintChar_in_framebuffer_witness:
  "vram (eX_PrintChar (chr CHR ''A'') sample_console) 3 \<noteq> vram sample_console 3 \<and>
   unat (3 :: u64) < unat (fb_height (Framebuffer sample_console)) * stride sample_console"
proof -
  have ok: "screen_ok sample_console"
    by (simp add: screen_ok_def sample_console_def rgb_framebuffer_def stride_def)
  have x: "8 * (unat (CursorX sample_console) + 1) \<le> stride sample_console"
    and y: "8 * (unat (CursorY sample_console) + 1) \<le> unat (fb_height (Framebuffer sample_console))"
    by (simp_all add: sample_console_def rgb_framebuffer_def stride_def)
  have p: "printable (chr CHR ''A'')" by simp
  have "pixel (eX_PrintChar (chr CHR ''A'') sample_console) (8 * 0 + 3) (8 * 0 + 0) =
      glyph_color sample_console (chr CHR ''A'') 0 3"
    by (subst pixel_eX_PrintChar_cell) (simp_all add: sample_console_def rgb_framebuffer_def stride_def text_row_fits_def)
  also have "\<dots> = 0xFFFFFFFF" by code_simp
  finally have ne: "vram (eX_PrintChar (chr CHR ''A'') sample_console) 3 \<noteq> vram sample_console 3"
    by (simp add: pixel_def sample_console_def rgb_framebuffer_def)
  show ?thesis
    using ne eX_PrintChar_in_framebuffer [OF ok p x y ne] by simp
qed

text \<open>
  The console neither scrolls nor wraps. Once the cursor row is at or past the last row of the
  screen, whatever a printed character changes lies at or past the end of the framebuffer.
\<close>

theorem eX_PrintChar_below_screen:
  assumes "unat (fb_height (Framebuffer con)) \<le> 8 * unat (CursorY con)" and "printable c"
    and "text_row_fits con (unat (CursorX con) + 1) (unat (CursorY con))"
    and "vram (eX_PrintChar c con) k \<noteq> vram con k"
  shows "unat (fb_height (Framebuffer con)) * stride con \<le> unat k"
proof -
  obtain row col where k:
    "unat k = (8 * unat (CursorY con) + row) * stride con + (8 * unat (CursorX con) + col)"
    using eX_PrintChar_indices assms(2-4) by blast
  have "unat (fb_height (Framebuffer con)) * stride con \<le> (8 * unat (CursorY con) + row) * stride con"
    using assms(1) by (intro mult_le_mono1) simp
  then show ?thesis unfolding k by (rule trans_le_add1)
qed

theorem eX_PrintChar_below_screen_witness:
  "vram (eX_PrintChar (chr CHR ''A'') (sample_console\<lparr>CursorY := 60\<rparr>)) 307203 \<noteq>
     vram (sample_console\<lparr>CursorY := 60\<rparr>) 307203 \<and>
   unat (fb_height (Framebuffer (sample_console\<lparr>CursorY := 60\<rparr>))) *
     stride (sample_console\<lparr>CursorY := 60\<rparr>) \<le> unat (307203 :: u64)"
proof -
  let ?con = "sample_console\<lparr>CursorY := 60\<rparr>"
  have h: "unat (fb_height (Framebuffer ?con)) \<le> 8 * unat (CursorY ?con)"
    and fit: "text_row_fits ?con (unat (CursorX ?con) + 1) (unat (CursorY ?con))"
    by (simp_all add: sample_console_def rgb_framebuffer_def text_row_fits_def stride_def)
  have p: "printable (chr CHR ''A'')" by simp
  have "pixel (eX_PrintChar (chr CHR ''A'') ?con) (8 * 0 + 3) (8 * 60 + 0) =
      glyph_color ?con (chr CHR ''A'') 0 3"
    by (subst pixel_eX_PrintChar_cell) (simp_all add: sample_console_def rgb_framebuffer_def stride_def text_row_fits_def)
  also have "\<dots> = 0xFFFFFFFF" by code_simp
  finally have ne: "vram (eX_PrintChar (chr CHR ''A'') ?con) 307203 \<noteq> vram ?con 307203"
    by (simp add: pixel_def sample_console_def rgb_framebuffer_def stride_def)
  show ?thesis using ne eX_PrintChar_below_screen [OF h p fit ne] by simp
qed

text \<open>
  \<^verbatim>\<open>eX_Clear\<close> paints every pixel of the screen with the background colour, changes no pixel
  outside of it and moves the cursor to the top left cell.
\<close>

theorem eX_Clear_correct:
  assumes "screen_ok con" and "X < stride con" and "Y * stride con + X < 2 ^ 64"
  shows "pixel (eX_Clear con) X Y =
     (if X < unat (fb_width (Framebuffer con)) \<and> Y < unat (fb_height (Framebuffer con))
      then Background con else pixel con X Y) \<and>
    CursorX (eX_Clear con) = 0 \<and> CursorY (eX_Clear con) = 0"
  using pixel_eX_Clear [OF assms] by simp

theorem eX_Clear_correct_witness:
  "pixel (eX_Clear (sample_console\<lparr>Background := 7\<rparr>)) 639 479 = 7"
proof -
  let ?con = "sample_console\<lparr>Background := 7\<rparr>"
  have ok: "screen_ok ?con" "639 < stride ?con" "479 * stride ?con + 639 < 2 ^ 64"
    by (simp_all add: screen_ok_def sample_console_def rgb_framebuffer_def stride_def)
  have "unat (fb_width (Framebuffer ?con)) = 640" "unat (fb_height (Framebuffer ?con)) = 480"
    "Background ?con = 7"
    by (simp_all add: sample_console_def rgb_framebuffer_def)
  then show ?thesis using eX_Clear_correct [OF ok] by simp
qed

text \<open>
  C34: \<^verbatim>\<open>eX_Backspace\<close> undoes a printed character: after printing one character inside of a text row
  and a backspace the cursor is where it was, the cell is blank, and all other cells are as before.
\<close>

theorem eX_Backspace_undoes_PrintChar:
  assumes "printable c" and fit: "text_row_fits con (unat (CursorX con) + 1) (unat (CursorY con))"
  defines "con' \<equiv> eX_Backspace (eX_PrintChar c con)"
  shows "CursorX con' = CursorX con \<and> CursorY con' = CursorY con \<and>
    shows_char con' (unat (CursorX con)) (unat (CursorY con)) (chr CHR '' '') \<and>
    (\<forall>a b. text_row_fits con (a + 1) b \<longrightarrow> (a, b) \<noteq> (unat (CursorX con), unat (CursorY con)) \<longrightarrow>
       same_cell con con' a b)"
proof -
  let ?con1 = "eX_PrintChar c con"
  note one = eX_PrintChar_cells [OF assms(1) fit]
  have x: "CursorX ?con1 \<noteq> 0" using one(3) by auto
  have fit1: "text_row_fits ?con1 (unat (CursorX ?con1)) (unat (CursorY ?con1))"
    using fit one(3,4) by simp
  note two = eX_Backspace_cells [OF x fit1, unfolded one(3,4), simplified]
  have "CursorX con' = CursorX con" "CursorY con' = CursorY con"
    using two(3,4) by (simp_all add: con'_def word_unat_eq_iff)
  moreover have "same_cell con con' a b" if "text_row_fits con (a + 1) b"
    "(a, b) \<noteq> (unat (CursorX con), unat (CursorY con))" for a b
    unfolding con'_def
  proof (rule same_cell_trans)
    show "same_cell con ?con1 a b" using that by (rule one(2))
    show "same_cell ?con1 (eX_Backspace ?con1) a b" by (rule two(2)) (use that in auto)
  qed
  moreover have "shows_char con' (unat (CursorX con)) (unat (CursorY con)) (chr CHR '' '')"
    using two(1) by (simp only: con'_def) simp
  ultimately show ?thesis by blast
qed

theorem eX_Backspace_undoes_PrintChar_witness:
  "shows_char (eX_Backspace (eX_PrintChar (chr CHR ''A'') sample_console)) 0 0 (chr CHR '' '')"
proof -
  have "text_row_fits sample_console (unat (CursorX sample_console) + 1) (unat (CursorY sample_console))"
    "unat (CursorX sample_console) = 0" "unat (CursorY sample_console) = 0"
    by (simp_all add: sample_console_def rgb_framebuffer_def text_row_fits_def stride_def)
  then show ?thesis
    using eX_Backspace_undoes_PrintChar [of "chr CHR ''A''" sample_console] by simp
qed

end
