(* ===== verification/Eyax_Print.thy ===== *)
theory Eyax_Print
  imports Eyax_Console
begin

text \<open>
  Number and formatted output of \<^verbatim>\<open>src/main.c\<close>: \<^verbatim>\<open>eX_PrintNumberUnsigned\<close>, \<^verbatim>\<open>eX_PrintNumberSigned\<close> and
  \<^verbatim>\<open>eX_Print\<close>. The lemmas show that each call prints a text, the fold of \<^verbatim>\<open>eX_PrintChar\<close> over the
  characters that the number or the format denotes.
\<close>

section \<open>Numbers\<close>

text \<open>
  The first loop of \<^verbatim>\<open>eX_PrintNumberUnsigned\<close> stores the digits, least significant first, in
  \<^verbatim>\<open>char buffer[32]\<close>; the second prints them backwards. Division by a zero base, an index past
  the digit string and a store past the buffer are undefined.
\<close>

function number_fill :: "u8 list \<Rightarrow> u64 \<Rightarrow> u64 \<Rightarrow> nat \<Rightarrow> u8 list \<Rightarrow> (nat \<times> u8 list) option" where
  "number_fill digits value base i buffer =
     (if value > 0 then
        if base = 0 then None
        else if unat (value mod base) < length digits \<and> i < length buffer then
          number_fill digits (value div base) base (Suc i)
            (buffer[i := digits ! unat (value mod base)])
        else None
      else Some (i, buffer))"
  by pat_completeness auto
termination
  by (relation "measure (\<lambda>(digits, value, base, i, buffer). length buffer - i)") auto

declare number_fill.simps [simp del]

primrec number_print :: "nat \<Rightarrow> u8 list \<Rightarrow> console \<Rightarrow> console" where
  "number_print 0 buffer con = con"
| "number_print (Suc i) buffer con = number_print i buffer (eX_PrintChar (buffer ! i) con)"

definition eX_PrintNumberUnsigned :: "u64 \<Rightarrow> u32 \<Rightarrow> bool \<Rightarrow> console \<Rightarrow> console option" where
  "eX_PrintNumberUnsigned value base uppercase con =
     (let digits = (if uppercase then cstr ''0123456789ABCDEF'' else cstr ''0123456789abcdef'') in
      if value = 0 then Some (eX_PrintChar (chr CHR ''0'') con)
      else do {
        (i, buffer) \<leftarrow> number_fill digits value (ucast base) 0 (replicate 32 0);
        Some (number_print i buffer con)
      })"

definition eX_PrintNumberSigned :: "u64 \<Rightarrow> console \<Rightarrow> console option" where
  "eX_PrintNumberSigned value con =
     (if value <s 0 then
        let con' = eX_PrintChar (chr CHR ''-'') con; magnitude = - (value + 1) + 1
        in eX_PrintNumberUnsigned magnitude 10 False con'
      else eX_PrintNumberUnsigned value 10 False con)"

section \<open>Formatted print\<close>

text \<open>
  A variadic argument is an integer register value or a pointer to a string, \<open>None\<close> for \<^verbatim>\<open>NULL\<close>.
  \<^verbatim>\<open>va_arg(args, int)\<close> and \<^verbatim>\<open>va_arg(args, unsigned int)\<close> read the low 32 bits of the register, as
  the System V calling convention passes a narrower integer; a 64-bit argument is cut off there.
\<close>

datatype vararg = ArgInt u64 | ArgStr "u8 list option"

definition va_arg_int :: "vararg list \<Rightarrow> (u32 \<times> vararg list) option" where
  "va_arg_int args = (case args of ArgInt v # rest \<Rightarrow> Some (ucast v, rest) | _ \<Rightarrow> None)"

definition va_arg_str :: "vararg list \<Rightarrow> (u8 list option \<times> vararg list) option" where
  "va_arg_str args = (case args of ArgStr s # rest \<Rightarrow> Some (s, rest) | _ \<Rightarrow> None)"

text \<open>The \<^verbatim>\<open>switch (*format)\<close> of \<^verbatim>\<open>eX_Print\<close>.\<close>

definition eX_Print_directive ::
  "u8 \<Rightarrow> vararg list \<Rightarrow> console \<Rightarrow> (vararg list \<times> console) option" where
  "eX_Print_directive d args con =
     (if d = chr CHR ''%'' then Some (args, eX_PrintChar (chr CHR ''%'') con)
      else if d = chr CHR ''c'' then do {
        (v, args') \<leftarrow> va_arg_int args;
        Some (args', eX_PrintChar (ucast v) con) }
      else if d = chr CHR ''s'' then do {
        (string, args') \<leftarrow> va_arg_str args;
        con' \<leftarrow> (case string of
                   None \<Rightarrow> eX_PrintString (cstr ''(null)'') con
                 | Some s \<Rightarrow> eX_PrintString s con);
        Some (args', con') }
      else if d = chr CHR ''d'' then do {
        (v, args') \<leftarrow> va_arg_int args;
        con' \<leftarrow> eX_PrintNumberSigned (scast v) con;
        Some (args', con') }
      else if d = chr CHR ''u'' then do {
        (v, args') \<leftarrow> va_arg_int args;
        con' \<leftarrow> eX_PrintNumberUnsigned (ucast v) 10 False con;
        Some (args', con') }
      else if d = chr CHR ''x'' then do {
        (v, args') \<leftarrow> va_arg_int args;
        con' \<leftarrow> eX_PrintNumberUnsigned (ucast v) 16 False con;
        Some (args', con') }
      else if d = chr CHR ''X'' then do {
        (v, args') \<leftarrow> va_arg_int args;
        con' \<leftarrow> eX_PrintNumberUnsigned (ucast v) 16 True con;
        Some (args', con') }
      else Some (args, eX_PrintChar d (eX_PrintChar (chr CHR ''%'') con)))"

fun eX_Print :: "u8 list \<Rightarrow> vararg list \<Rightarrow> console \<Rightarrow> console option" where
  "eX_Print [] args con = None"
| "eX_Print (c # format) args con =
     (if c = 0 then Some con
      else if c \<noteq> chr CHR ''%'' then eX_Print format args (eX_PrintChar c con)
      else (case format of
              [] \<Rightarrow> None
            | d # format' \<Rightarrow>
                (case eX_Print_directive d args con of
                   None \<Rightarrow> None
                 | Some (args', con') \<Rightarrow> eX_Print format' args' con')))"

section \<open>Numbers as text\<close>

fun digits_lsb :: "nat \<Rightarrow> nat \<Rightarrow> nat list" where
  "digits_lsb b n = (if n = 0 \<or> b < 2 then [] else n mod b # digits_lsb b (n div b))"

declare digits_lsb.simps [simp del]

definition digit_chars :: "bool \<Rightarrow> u8 list" where
  "digit_chars uppercase =
     (if uppercase then cstr ''0123456789ABCDEF'' else cstr ''0123456789abcdef'')"

text \<open>The text of a number: its digits, most significant first.\<close>

definition number_text :: "bool \<Rightarrow> nat \<Rightarrow> nat \<Rightarrow> u8 list" where
  "number_text uppercase b n =
     (if n = 0 then [chr CHR ''0''] else map (\<lambda>d. digit_chars uppercase ! d) (rev (digits_lsb b n)))"

definition digit_value :: "u8 \<Rightarrow> nat" where
  "digit_value c =
     (if c \<ge> chr CHR ''a'' then unat c - 87 else if c \<ge> chr CHR ''A'' then unat c - 55 else unat c - 48)"

definition parse_number :: "nat \<Rightarrow> u8 list \<Rightarrow> nat" where
  "parse_number b text = foldl (\<lambda>n c. n * b + digit_value c) 0 text"

lemma length_digit_chars [simp]: "length (digit_chars up) = 17"
  by (simp add: digit_chars_def cstr_def bytes_of_def)

lemma digits_lsb_step:
  "0 < n \<Longrightarrow> 2 \<le> b \<Longrightarrow> digits_lsb b n = n mod b # digits_lsb b (n div b)"
  by (subst digits_lsb.simps) simp

lemma digits_lsb_0 [simp]: "digits_lsb b 0 = []"
  by (simp add: digits_lsb.simps)

lemma digits_lsb_less: "2 \<le> b \<Longrightarrow> d \<in> set (digits_lsb b n) \<Longrightarrow> d < b"
proof (induction b n rule: digits_lsb.induct)
  case (1 b n)
  then show ?case by (cases "n = 0") (auto simp: digits_lsb_step)
qed

lemma length_digits_lsb:
  "2 \<le> b \<Longrightarrow> n < b ^ k \<Longrightarrow> length (digits_lsb b n) \<le> k"
proof (induction k arbitrary: n)
  case (Suc k)
  show ?case
  proof (cases "n = 0")
    case False
    have "n div b < b ^ k" using Suc.prems by (simp add: less_mult_imp_div_less mult.commute)
    with Suc False show ?thesis by (simp add: digits_lsb_step)
  qed simp
qed simp

lemma number_fill_eq:
  assumes "2 \<le> unat base" and "unat base \<le> 16" and "length digits = 17"
    and "i + length (digits_lsb (unat base) (unat v)) \<le> length buffer"
  defines "ds \<equiv> map (\<lambda>d. digits ! d) (digits_lsb (unat base) (unat v))"
  shows "number_fill digits v base i buffer =
     Some (i + length ds, take i buffer @ ds @ drop (i + length ds) buffer)"
  using assms(4) unfolding ds_def
proof (induction "unat v" arbitrary: v i buffer rule: less_induct)
  case less
  show ?case
  proof (cases "v = 0")
    case True
    then show ?thesis by (simp add: number_fill.simps)
  next
    case False
    then have pos: "0 < unat v" by (simp add: unat_gt_0)
    let ?d = "unat v mod unat base" and ?q = "unat v div unat base"
    have step: "digits_lsb (unat base) (unat v) = ?d # digits_lsb (unat base) ?q"
      using pos assms(1) by (rule digits_lsb_step)
    have "?q < unat v" using pos assms(1) by simp
    moreover have "unat (v div base) = ?q" by (simp add: unat_div)
    ultimately have IH: "number_fill digits (v div base) base (Suc i) (buffer[i := digits ! ?d]) =
       Some (Suc i + length (digits_lsb (unat base) ?q),
         take (Suc i) (buffer[i := digits ! ?d]) @ map (\<lambda>d. digits ! d) (digits_lsb (unat base) ?q) @
         drop (Suc i + length (digits_lsb (unat base) ?q)) (buffer[i := digits ! ?d]))"
      using less.hyps [of "v div base" "Suc i" "buffer[i := digits ! ?d]"] less.prems step by simp
    have "base \<noteq> 0" using assms(1) by auto
    moreover have "?d < 17" using assms(1,2) mod_less_divisor [of "unat base" "unat v"] by linarith
    moreover have "0 < v" using False by (simp add: word_neq_0_conv)
    moreover have "i < length buffer" using less.prems step by simp
    ultimately show ?thesis
      using IH assms(3)
      by (simp add: number_fill.simps [of digits v] unat_mod step take_Suc_conv_app_nth)
  qed
qed

lemma number_print_eq:
  "i \<le> length buffer \<Longrightarrow> number_print i buffer con = fold eX_PrintChar (rev (take i buffer)) con"
  by (induction i arbitrary: con) (simp_all add: take_Suc_conv_app_nth)

lemma unat_less_4_pow_32: "4 \<le> b \<Longrightarrow> unat (v :: u64) < b ^ 32"
proof -
  assume "4 \<le> b"
  then have "(4 :: nat) ^ 32 \<le> b ^ 32" by (rule power_mono) simp
  then show ?thesis using unat_lt64 [of v] by (simp del: unat_lt64)
qed

lemma eX_PrintNumberUnsigned_eq:
  assumes "4 \<le> base" and "base \<le> 16"
  shows "eX_PrintNumberUnsigned v base up con =
     Some (fold eX_PrintChar (number_text up (unat base) (unat v)) con)"
proof (cases "v = 0")
  case True
  then show ?thesis by (simp add: eX_PrintNumberUnsigned_def number_text_def)
next
  case False
  have b: "4 \<le> unat base" "unat base \<le> 16" "unat (ucast base :: u64) = unat base"
    using assms by (simp_all add: word_le_nat_alt unat_ucast_up)
  let ?ds = "digits_lsb (unat base) (unat v)"
  have len: "length ?ds \<le> 32"
    using b by (intro length_digits_lsb unat_less_4_pow_32) simp_all
  have "number_fill (digit_chars up) v (ucast base) 0 (replicate 32 0) =
     Some (length ?ds, map (\<lambda>d. digit_chars up ! d) ?ds @ drop (length ?ds) (replicate 32 0))"
    using number_fill_eq [of "ucast base" "digit_chars up" 0 v "replicate 32 0"] b len by simp
  then show ?thesis
    using False len
    by (simp add: eX_PrintNumberUnsigned_def digit_chars_def [symmetric] number_print_eq
        number_text_def rev_map unat_eq_0)
qed

lemma digit_value_table:
  "map digit_value (take 16 (digit_chars True)) = [0..<16]"
  "map digit_value (take 16 (digit_chars False)) = [0..<16]"
  by code_simp+

lemma digit_value_digit_chars: "d < 16 \<Longrightarrow> digit_value (digit_chars up ! d) = d"
proof -
  assume d: "d < 16"
  have "map digit_value (take 16 (digit_chars up)) ! d = d"
    using digit_value_table d by (cases up) simp_all
  then show ?thesis using d by simp
qed

lemma parse_number_text:
  assumes "2 \<le> b" and "b \<le> 16"
  shows "parse_number b (number_text up b n) = n"
proof -
  have "foldl (\<lambda>m c. m * b + digit_value c) 0 (map (\<lambda>d. digit_chars up ! d) (rev (digits_lsb b n))) = n"
    using assms
  proof (induction b n rule: digits_lsb.induct)
    case (1 b n)
    show ?case
    proof (cases "n = 0")
      case False
      then have "n mod b < 16" using 1 by (meson less_le_trans mod_less_divisor not_less zero_less_iff_neq_zero not_numeral_le_zero)
      with False 1 show ?thesis
        by (simp add: digits_lsb_step digit_value_digit_chars)
    qed simp
  qed
  then show ?thesis
    by (simp add: parse_number_def number_text_def digit_value_def)
qed

definition int_text :: "int \<Rightarrow> u8 list" where
  "int_text i =
     (if i < 0 then chr CHR ''-'' # number_text False 10 (nat (- i)) else number_text False 10 (nat i))"

lemma unat_eq_nat_sint: "0 \<le> sint v \<Longrightarrow> unat v = nat (sint v)" for v :: u64
proof -
  assume pos: "0 \<le> sint v"
  have "uint v = uint (word_of_int (sint v) :: u64)" by simp
  also have "\<dots> = sint v mod 2 ^ 64" by (simp only: uint_word_of_int) simp
  also have "\<dots> = sint v" using pos sint_lt [of v] by simp
  finally show ?thesis by (simp add: unat_eq_nat_uint)
qed

lemma unat_minus_of_neg: "sint v < 0 \<Longrightarrow> unat (- v) = nat (- sint v)" for v :: u64
proof -
  assume neg: "sint v < 0"
  have "- v = word_of_int (- sint v)" by simp
  then have "uint (- v) = (- sint v) mod 2 ^ 64"
    by (simp only: uint_word_of_int) simp
  moreover have "- (2 ^ 63) \<le> sint v" using sint_greater_eq [of v] by simp
  ultimately have "uint (- v) = - sint v" using neg by simp
  then show ?thesis by (simp add: unat_eq_nat_uint)
qed

lemma eX_PrintNumberSigned_eq:
  "eX_PrintNumberSigned v con = Some (fold eX_PrintChar (int_text (sint v)) con)"
proof (cases "sint v < 0")
  case True
  have "- (v + 1) + 1 = - v" by simp
  then show ?thesis
    using True
    by (simp add: eX_PrintNumberSigned_def word_sless_alt eX_PrintNumberUnsigned_eq int_text_def
        unat_minus_of_neg)
next
  case False
  then show ?thesis
    by (simp add: eX_PrintNumberSigned_def word_sless_alt eX_PrintNumberUnsigned_eq int_text_def
        unat_eq_nat_sint)
qed

section \<open>Formats as sequences of pieces\<close>

datatype piece =
    Lit u8
  | Percent
  | PChar u64
  | PStr "u8 list option"
  | PDec u64
  | PUns u64
  | PHex u64
  | PHexUp u64

fun piece_format :: "piece \<Rightarrow> u8 list" where
  "piece_format (Lit c) = [c]"
| "piece_format Percent = bytes_of ''%%''"
| "piece_format (PChar v) = bytes_of ''%c''"
| "piece_format (PStr s) = bytes_of ''%s''"
| "piece_format (PDec v) = bytes_of ''%d''"
| "piece_format (PUns v) = bytes_of ''%u''"
| "piece_format (PHex v) = bytes_of ''%x''"
| "piece_format (PHexUp v) = bytes_of ''%X''"

fun piece_args :: "piece \<Rightarrow> vararg list" where
  "piece_args (Lit c) = []"
| "piece_args Percent = []"
| "piece_args (PStr s) = [ArgStr (map_option (\<lambda>s. s @ [0]) s)]"
| "piece_args (PChar v) = [ArgInt v]"
| "piece_args (PDec v) = [ArgInt v]"
| "piece_args (PUns v) = [ArgInt v]"
| "piece_args (PHex v) = [ArgInt v]"
| "piece_args (PHexUp v) = [ArgInt v]"

fun piece_text :: "piece \<Rightarrow> u8 list" where
  "piece_text (Lit c) = [c]"
| "piece_text Percent = bytes_of ''%''"
| "piece_text (PChar v) = [ucast v]"
| "piece_text (PStr s) = (case s of None \<Rightarrow> bytes_of ''(null)'' | Some t \<Rightarrow> t)"
| "piece_text (PDec v) = int_text (sint (ucast v :: u32))"
| "piece_text (PUns v) = number_text False 10 (unat (ucast v :: u32))"
| "piece_text (PHex v) = number_text False 16 (unat (ucast v :: u32))"
| "piece_text (PHexUp v) = number_text True 16 (unat (ucast v :: u32))"

fun piece_ok :: "piece \<Rightarrow> bool" where
  "piece_ok (Lit c) = (c \<noteq> 0 \<and> c \<noteq> chr CHR ''%'')"
| "piece_ok (PStr (Some s)) = (0 \<notin> set s)"
| "piece_ok _ = True"

lemma percent_nonzero [simp]: "chr CHR ''%'' \<noteq> 0"
  by simp

lemma eX_Print_directive_step:
  "eX_Print (chr CHR ''%'' # d # format) args con =
     (case eX_Print_directive d args con of
        None \<Rightarrow> None | Some (args', con') \<Rightarrow> eX_Print format args' con')"
  by simp

lemma sint_scast_u32: "sint (scast (v :: u32) :: u64) = sint v"
  using sint_lt [of v] sint_ge [of v]
  by (simp add: signed_scast_eq signed_take_bit_int_eq_self)

lemma ucast_ucast_char: "(ucast (ucast (v :: u64) :: u32) :: u8) = ucast v"
  by (rule bit_word_eqI) (simp add: bit_ucast_iff)

lemma eX_Print_piece:
  assumes "piece_ok p"
  shows "eX_Print (piece_format p @ format) (piece_args p @ args) con =
     eX_Print format args (fold eX_PrintChar (piece_text p) con)"
proof (cases p)
  case (PStr s)
  then show ?thesis
    using assms eX_PrintString_eq [of _ "[]"] eX_PrintString_eq [of "bytes_of ''(null)''" "[]"]
    by (cases s) (auto simp: eX_Print_directive_def va_arg_str_def cstr_def bytes_of_def)
qed (use assms in \<open>simp_all add: bytes_of_def eX_Print_directive_def va_arg_int_def ucast_ucast_char
    eX_PrintNumberUnsigned_eq eX_PrintNumberSigned_eq unat_ucast_up sint_scast_u32\<close>)

lemma eX_Print_pieces:
  "list_all piece_ok ps \<Longrightarrow>
   eX_Print (concat (map piece_format ps) @ format) (concat (map piece_args ps) @ args) con =
   eX_Print format args (fold eX_PrintChar (concat (map piece_text ps)) con)"
  by (induction ps arbitrary: con) (simp_all add: eX_Print_piece)

text \<open>Literal text at the start of a format is printed as it is.\<close>

lemma eX_Print_prefix:
  assumes "0 \<notin> set s" and "chr CHR ''%'' \<notin> set s"
  shows "eX_Print (s @ format) args con = eX_Print format args (fold eX_PrintChar s con)"
proof -
  have eqs: "concat (map piece_format (map Lit s)) = s" "concat (map piece_args (map Lit s)) = []"
    "concat (map piece_text (map Lit s)) = s"
    by (induction s) simp_all
  have "list_all piece_ok (map Lit s)" using assms by (auto simp: list_all_iff)
  from eX_Print_pieces [OF this, of format args con, unfolded eqs] show ?thesis by simp
qed

lemma eX_Print_literal:
  "0 \<notin> set s \<Longrightarrow> chr CHR ''%'' \<notin> set s \<Longrightarrow> eX_Print (s @ [0]) args con = Some (fold eX_PrintChar s con)"
  by (simp add: eX_Print_prefix)

lemma eX_Print_bytes:
  "CHR 0x00 \<notin> set s \<Longrightarrow> CHR ''%'' \<notin> set s \<Longrightarrow>
   eX_Print (bytes_of s @ format) args con = eX_Print format args (fold eX_PrintChar (bytes_of s) con)"
  by (rule eX_Print_prefix) simp_all

text \<open>The directives for numbers and strings, after the text that precedes them.\<close>

lemma eX_Print_numbers:
  "eX_Print (bytes_of ''%X'' @ format) (ArgInt v # args) con =
     eX_Print format args (fold eX_PrintChar (number_text True 16 (unat (ucast v :: u32))) con)"
  "eX_Print (bytes_of ''%x'' @ format) (ArgInt v # args) con =
     eX_Print format args (fold eX_PrintChar (number_text False 16 (unat (ucast v :: u32))) con)"
  "eX_Print (bytes_of ''%u'' @ format) (ArgInt v # args) con =
     eX_Print format args (fold eX_PrintChar (number_text False 10 (unat (ucast v :: u32))) con)"
  using eX_Print_piece [of "PHexUp v" format args con] eX_Print_piece [of "PHex v" format args con]
    eX_Print_piece [of "PUns v" format args con]
  by simp_all

lemma eX_Print_string:
  assumes "0 \<notin> set s"
  shows "eX_Print (bytes_of ''%s'' @ format) (ArgStr (Some (s @ 0 # rest)) # args) con =
    eX_Print format args (fold eX_PrintChar s con)"
  using eX_PrintString_eq [OF assms, of rest] by (simp add: bytes_of_def eX_Print_directive_def va_arg_str_def)

section \<open>Properties\<close>

text \<open>
  C28: \<^verbatim>\<open>eX_PrintNumberUnsigned\<close> is correct for every 64-bit value and every base from 4 to 16, the
  bases the kernel uses among them: it never overruns its 32-byte buffer, and the text it prints
  reads back as the value.
\<close>

theorem eX_PrintNumberUnsigned_roundtrip:
  assumes "4 \<le> base" and "base \<le> 16"
  shows "\<exists>text. eX_PrintNumberUnsigned v base up con = Some (fold eX_PrintChar text con) \<and>
     length text \<le> 32 \<and> parse_number (unat base) text = unat v"
proof -
  have b: "4 \<le> unat base" "unat base \<le> 16" using assms by (simp_all add: word_le_nat_alt)
  have "length (number_text up (unat base) (unat v)) \<le> 32"
    using b length_digits_lsb [of "unat base" "unat v" 32] unat_less_4_pow_32 [of "unat base" v]
    by (simp add: number_text_def)
  then show ?thesis
    using eX_PrintNumberUnsigned_eq [OF assms] parse_number_text [of "unat base"] b by auto
qed

theorem eX_PrintNumberUnsigned_roundtrip_witness:
  "\<exists>text. eX_PrintNumberUnsigned 0xFFFFFFFFFFFFFFFF 10 False sample_console =
     Some (fold eX_PrintChar text sample_console) \<and> length text \<le> 32 \<and>
     parse_number 10 text = 18446744073709551615"
  using eX_PrintNumberUnsigned_roundtrip [of 10 "0xFFFFFFFFFFFFFFFF" False sample_console] by simp

text \<open>
  \<^verbatim>\<open>eX_PrintNumberSigned\<close> prints the decimal text of its argument for every 64-bit value,
  the most negative one included, whose magnitude has no positive counterpart.
\<close>

theorem eX_PrintNumberSigned_correct:
  "eX_PrintNumberSigned v con =
     Some (fold eX_PrintChar
       ((if sint v < 0 then [chr CHR ''-''] else []) @ number_text False 10 (nat \<bar>sint v\<bar>)) con)"
  by (simp add: eX_PrintNumberSigned_eq int_text_def)

text \<open>
  C23: \<^verbatim>\<open>eX_Print\<close> prints every well-formed format: for any sequence of literal characters and of
  conversions with their arguments it returns and prints the concatenated texts, with the
  integer conversions reading the low 32 bits of their argument and a null string as \<^verbatim>\<open>(null)\<close>.
\<close>

theorem eX_Print_correct:
  assumes "list_all piece_ok ps"
  shows "eX_Print (concat (map piece_format ps) @ [0]) (concat (map piece_args ps)) con =
     Some (fold eX_PrintChar (concat (map piece_text ps)) con)"
  using eX_Print_pieces [OF assms, of "[0]" "[]" con] by simp

theorem eX_Print_correct_witness:
  "list_all piece_ok [Lit 0x3D, PHexUp 0xBEEF, PStr None] \<and>
   eX_Print (cstr ''=%X%s'') [ArgInt 0xBEEF, ArgStr None] sample_console =
     Some (fold eX_PrintChar (bytes_of ''=BEEF(null)'') sample_console)"
proof -
  have ok: "list_all piece_ok [Lit 0x3D, PHexUp 0xBEEF, PStr None]" by simp
  have t: "concat (map piece_text [Lit 0x3D, PHexUp 0xBEEF, PStr None]) = bytes_of ''=BEEF(null)''"
    by (simp add: number_text_def digits_lsb.simps digit_chars_def cstr_def bytes_of_def)
  have f: "concat (map piece_format [Lit 0x3D, PHexUp 0xBEEF, PStr None]) @ [0] = cstr ''=%X%s''"
    "concat (map piece_args [Lit 0x3D, PHexUp 0xBEEF, PStr None]) = [ArgInt 0xBEEF, ArgStr None]"
    by (simp_all add: cstr_def bytes_of_def)
  show ?thesis
    using ok eX_Print_correct [OF ok, of sample_console, unfolded t f] by simp
qed
text \<open>
  Conversions that \<^verbatim>\<open>eX_Print\<close> does not know are printed as they stand and consume no argument,
  so that the page statistics of the boot messages print their own format; and a format that
  ends in a percent sign reads past its terminator.
\<close>

theorem eX_Print_unknown_conversion:
  "(d \<notin> set (bytes_of ''%csduxX'') \<longrightarrow>
     eX_Print (chr CHR ''%'' # d # format) args con =
     eX_Print format args (fold eX_PrintChar [chr CHR ''%'', d] con)) \<and>
   eX_Print (cstr ''PMM: %lu free pages (%lu KiB)'') args con =
     Some (fold eX_PrintChar (bytes_of ''PMM: %lu free pages (%lu KiB)'') con) \<and>
   eX_Print (cstr ''%'') args con = None"
proof (intro conjI impI)
  have unknown: "eX_Print (chr CHR ''%'' # d # format) args con =
     eX_Print format args (fold eX_PrintChar [chr CHR ''%'', d] con)"
    if "d \<notin> set (bytes_of ''%csduxX'')" for d format con
    using that by (simp add: bytes_of_def eX_Print_directive_def)
  then show "eX_Print (chr CHR ''%'' # d # format) args con =
     eX_Print format args (fold eX_PrintChar [chr CHR ''%'', d] con)"
    if "d \<notin> set (bytes_of ''%csduxX'')" using that .
  show "eX_Print (cstr ''PMM: %lu free pages (%lu KiB)'') args con =
     Some (fold eX_PrintChar (bytes_of ''PMM: %lu free pages (%lu KiB)'') con)"
    by (simp add: cstr_def bytes_of_def eX_Print_directive_def)
  show "eX_Print (cstr ''%'') args con = None"
    by (simp add: cstr_def bytes_of_def eX_Print_directive_def)
qed

theorem eX_Print_unknown_conversion_witness:
  "eX_Print (chr CHR ''%'' # chr CHR ''l'' # cstr ''u'') [] sample_console =
   eX_Print (cstr ''u'') [] (fold eX_PrintChar [chr CHR ''%'', chr CHR ''l''] sample_console)"
proof -
  have "chr CHR ''l'' \<notin> set (bytes_of ''%csduxX'')" by (simp add: bytes_of_def)
  then show ?thesis
    using eX_Print_unknown_conversion [of "chr CHR ''l''" "cstr ''u''" "[]" sample_console] by blast
qed

end
