(* ===== verification/Eyax_Ports.thy ===== *)
theory Eyax_Ports
  imports Eyax_Prelude
begin

text \<open>
  Port input and output, \<^verbatim>\<open>eX_Inb\<close> and \<^verbatim>\<open>eX_Outb\<close> of \<^verbatim>\<open>src/main.c\<close> and \<^verbatim>\<open>eX_Keyboard_Inb\<close> and
  \<^verbatim>\<open>eX_Keyboard_Outb\<close> of \<^verbatim>\<open>src/keyboard.c\<close>. The devices behind the ports are not part of the kernel: a
  pair of functions over a type of device states that every operation using a port takes as an
  argument.
\<close>

record 'w devices =
  dev_inb :: "u16 \<Rightarrow> 'w \<Rightarrow> u8 \<times> 'w"
  dev_outb :: "u16 \<Rightarrow> u8 \<Rightarrow> 'w \<Rightarrow> 'w"

definition eX_Inb :: "'w devices \<Rightarrow> u16 \<Rightarrow> 'w \<Rightarrow> u8 \<times> 'w" where
  "eX_Inb dev port w = dev_inb dev port w"

definition eX_Outb :: "'w devices \<Rightarrow> u16 \<Rightarrow> u8 \<Rightarrow> 'w \<Rightarrow> 'w" where
  "eX_Outb dev port value w = dev_outb dev port value w"

text \<open>
  Devices that record what is written and answer reads from a queue of bytes per port, zero when
  the queue is empty: an instance for examples and for statements about the sequence of writes.
\<close>

record trace_world =
  inputs :: "u16 \<Rightarrow> u8 list"
  writes :: "(u16 \<times> u8) list"

definition trace_devices :: "trace_world devices" where
  "trace_devices =
     \<lparr>dev_inb = (\<lambda>port w. case inputs w port of
          [] \<Rightarrow> (0, w)
        | b # bs \<Rightarrow> (b, w\<lparr>inputs := (inputs w)(port := bs)\<rparr>)),
      dev_outb = (\<lambda>port v w. w\<lparr>writes := writes w @ [(port, v)]\<rparr>)\<rparr>"

end
