(* ===== verification/Eyax_Keyboard.thy ===== *)
theory Eyax_Keyboard
  imports Eyax_Ports
begin

text \<open>
  The PS/2 keyboard driver, \<^verbatim>\<open>src/keyboard.c\<close>: the ring buffer of typed characters, the two scancode
  tables, the scancode state machine and the polling loop. The lemmas show that the ring is a
  first-in first-out queue of 127 characters and follow what each scancode does to it.
\<close>

section \<open>State and ring buffer\<close>

definition eX_KEYBOARD_DATA_PORT :: u16 where [simp]: "eX_KEYBOARD_DATA_PORT = 0x60"
definition eX_KEYBOARD_STATUS_PORT :: u16 where [simp]: "eX_KEYBOARD_STATUS_PORT = 0x64"
definition eX_KBC_STATUS_OUTPUT_FULL :: u8 where [simp]: "eX_KBC_STATUS_OUTPUT_FULL = 0x01"
definition eX_KEYBOARD_BUFFER_SIZE :: u32 where [simp]: "eX_KEYBOARD_BUFFER_SIZE = 128"

record keyboard =
  KeyboardBuffer :: "u8 list"
  KeyboardReadIndex :: u8
  KeyboardWriteIndex :: u8
  ShiftPressed :: bool
  CapsLock :: bool
  ExtendedScancode :: bool

text \<open>An index past the buffer has no defined result; the sum in the index is promoted to \<^verbatim>\<open>int\<close>.\<close>

definition ring_next :: "u8 \<Rightarrow> u8" where
  "ring_next i = ucast ((ucast i + 1 :: u32) mod eX_KEYBOARD_BUFFER_SIZE)"

definition eX_Keyboard_PushChar :: "u8 \<Rightarrow> keyboard \<Rightarrow> keyboard option" where
  "eX_Keyboard_PushChar c k =
     (let next = ring_next (KeyboardWriteIndex k) in
      if next = KeyboardReadIndex k then Some k
      else if unat (KeyboardWriteIndex k) < length (KeyboardBuffer k) then
        Some (k\<lparr>KeyboardBuffer := (KeyboardBuffer k)[unat (KeyboardWriteIndex k) := c],
                KeyboardWriteIndex := next\<rparr>)
      else None)"

definition eX_Keyboard_GetChar :: "keyboard \<Rightarrow> (int \<times> keyboard) option" where
  "eX_Keyboard_GetChar k =
     (if KeyboardReadIndex k = KeyboardWriteIndex k then Some (- 1, k)
      else if unat (KeyboardReadIndex k) < length (KeyboardBuffer k) then
        let c = KeyboardBuffer k ! unat (KeyboardReadIndex k)
        in Some (uint c, k\<lparr>KeyboardReadIndex := ring_next (KeyboardReadIndex k)\<rparr>)
      else None)"

section \<open>Controller registers\<close>

definition eX_Keyboard_Inb :: "'w devices \<Rightarrow> u16 \<Rightarrow> 'w \<Rightarrow> u8 \<times> 'w" where
  "eX_Keyboard_Inb dev port w = dev_inb dev port w"

definition eX_Keyboard_Outb :: "'w devices \<Rightarrow> u16 \<Rightarrow> u8 \<Rightarrow> 'w \<Rightarrow> 'w" where
  "eX_Keyboard_Outb dev port value w = dev_outb dev port value w"

definition eX_Keyboard_GetControllerStatus :: "'w devices \<Rightarrow> 'w \<Rightarrow> u8 \<times> 'w" where
  "eX_Keyboard_GetControllerStatus dev w = eX_Keyboard_Inb dev eX_KEYBOARD_STATUS_PORT w"

definition eX_Keyboard_GetPICMask :: "'w devices \<Rightarrow> 'w \<Rightarrow> u8 \<times> 'w" where
  "eX_Keyboard_GetPICMask dev w = eX_Keyboard_Inb dev 0x21 w"

definition eX_Keyboard_GetPICIRR :: "'w devices \<Rightarrow> 'w \<Rightarrow> u8 \<times> 'w" where
  "eX_Keyboard_GetPICIRR dev w = eX_Keyboard_Inb dev 0x20 (eX_Keyboard_Outb dev 0x20 0x0A w)"

section \<open>Scancode tables\<close>

definition KeyboardNormal_table :: "(u8 \<times> u8) list" where
  "KeyboardNormal_table = [
     (0x02, chr CHR ''1''), (0x03, chr CHR ''2''), (0x04, chr CHR ''3''), (0x05, chr CHR ''4''),
     (0x06, chr CHR ''5''), (0x07, chr CHR ''6''), (0x08, chr CHR ''7''), (0x09, chr CHR ''8''),
     (0x0A, chr CHR ''9''), (0x0B, chr CHR ''0''), (0x0C, chr CHR ''-''), (0x0D, chr CHR ''=''),
     (0x0E, 8), (0x0F, 9), (0x10, chr CHR ''q''), (0x11, chr CHR ''w''),
     (0x12, chr CHR ''e''), (0x13, chr CHR ''r''), (0x14, chr CHR ''t''), (0x15, chr CHR ''y''),
     (0x16, chr CHR ''u''), (0x17, chr CHR ''i''), (0x18, chr CHR ''o''), (0x19, chr CHR ''p''),
     (0x1A, chr CHR ''[''), (0x1B, chr CHR '']''), (0x1C, 10), (0x1E, chr CHR ''a''),
     (0x1F, chr CHR ''s''), (0x20, chr CHR ''d''), (0x21, chr CHR ''f''), (0x22, chr CHR ''g''),
     (0x23, chr CHR ''h''), (0x24, chr CHR ''j''), (0x25, chr CHR ''k''), (0x26, chr CHR ''l''),
     (0x27, chr CHR '';''), (0x28, 0x27), (0x29, chr CHR ''`''), (0x2B, 0x5C),
     (0x2C, chr CHR ''z''), (0x2D, chr CHR ''x''), (0x2E, chr CHR ''c''), (0x2F, chr CHR ''v''),
     (0x30, chr CHR ''b''), (0x31, chr CHR ''n''), (0x32, chr CHR ''m''), (0x33, chr CHR '',''),
     (0x34, chr CHR ''.''), (0x35, chr CHR ''/''), (0x39, chr CHR '' '')]"

definition KeyboardShift_table :: "(u8 \<times> u8) list" where
  "KeyboardShift_table = [
     (0x02, chr CHR ''!''), (0x03, chr CHR ''@''), (0x04, chr CHR ''#''), (0x05, chr CHR ''$''),
     (0x06, chr CHR ''%''), (0x07, chr CHR ''^''), (0x08, chr CHR ''&''), (0x09, chr CHR ''*''),
     (0x0A, chr CHR ''(''), (0x0B, chr CHR '')''), (0x0C, chr CHR ''_''), (0x0D, chr CHR ''+''),
     (0x10, chr CHR ''Q''), (0x11, chr CHR ''W''), (0x12, chr CHR ''E''), (0x13, chr CHR ''R''),
     (0x14, chr CHR ''T''), (0x15, chr CHR ''Y''), (0x16, chr CHR ''U''), (0x17, chr CHR ''I''),
     (0x18, chr CHR ''O''), (0x19, chr CHR ''P''), (0x1A, chr CHR ''{''), (0x1B, chr CHR ''}''),
     (0x1E, chr CHR ''A''), (0x1F, chr CHR ''S''), (0x20, chr CHR ''D''), (0x21, chr CHR ''F''),
     (0x22, chr CHR ''G''), (0x23, chr CHR ''H''), (0x24, chr CHR ''J''), (0x25, chr CHR ''K''),
     (0x26, chr CHR ''L''), (0x27, chr CHR '':''), (0x28, 0x22), (0x29, chr CHR ''~''),
     (0x2B, chr CHR ''|''), (0x2C, chr CHR ''Z''), (0x2D, chr CHR ''X''), (0x2E, chr CHR ''C''),
     (0x2F, chr CHR ''V''), (0x30, chr CHR ''B''), (0x31, chr CHR ''N''), (0x32, chr CHR ''M''),
     (0x33, chr CHR ''<''), (0x34, chr CHR ''>''), (0x35, chr CHR ''?''), (0x39, chr CHR '' '')]"

text \<open>The arrays have 128 elements; an element that no initialiser names is zero.\<close>

definition eX_KeyboardNormal :: "u8 \<Rightarrow> u8" where
  "eX_KeyboardNormal code = (case map_of KeyboardNormal_table code of Some c \<Rightarrow> c | None \<Rightarrow> 0)"

definition eX_KeyboardShift :: "u8 \<Rightarrow> u8" where
  "eX_KeyboardShift code = (case map_of KeyboardShift_table code of Some c \<Rightarrow> c | None \<Rightarrow> 0)"

section \<open>Scancodes\<close>

definition caps_swap :: "bool \<Rightarrow> u8 \<Rightarrow> u8" where
  "caps_swap caps c =
     (if caps \<and> c \<ge> chr CHR ''a'' \<and> c \<le> chr CHR ''z'' then c - chr CHR ''a'' + chr CHR ''A''
      else if caps \<and> c \<ge> chr CHR ''A'' \<and> c \<le> chr CHR ''Z'' then c - chr CHR ''A'' + chr CHR ''a''
      else c)"

definition eX_Keyboard_HandleScancode :: "u8 \<Rightarrow> keyboard \<Rightarrow> keyboard option" where
  "eX_Keyboard_HandleScancode scancode k =
     (let released = (scancode AND 0x80 \<noteq> 0); code = scancode AND 0x7F in
      if scancode = 0xE0 then Some (k\<lparr>ExtendedScancode := True\<rparr>)
      else if ExtendedScancode k then Some (k\<lparr>ExtendedScancode := False\<rparr>)
      else if code = 0x2A \<or> code = 0x36 then Some (k\<lparr>ShiftPressed := \<not> released\<rparr>)
      else if code = 0x3A then
        (if \<not> released then Some (k\<lparr>CapsLock := \<not> CapsLock k\<rparr>) else Some k)
      else if released then Some k
      else
        let c = (if ShiftPressed k then eX_KeyboardShift code else eX_KeyboardNormal code);
            c' = caps_swap (CapsLock k) c
        in if c' \<noteq> 0 then eX_Keyboard_PushChar c' k else Some k)"

definition eX_Keyboard_Init :: "keyboard \<Rightarrow> keyboard" where
  "eX_Keyboard_Init k =
     k\<lparr>KeyboardReadIndex := 0, KeyboardWriteIndex := 0,
       ShiftPressed := False, CapsLock := False, ExtendedScancode := False\<rparr>"

text \<open>The polling loop ends when the controller reports an empty output buffer.\<close>

partial_function (option) eX_Keyboard_Poll ::
  "'w devices \<Rightarrow> 'w \<Rightarrow> keyboard \<Rightarrow> ('w \<times> keyboard) option" where
  "eX_Keyboard_Poll dev w k =
     (let (status, w1) = eX_Keyboard_Inb dev eX_KEYBOARD_STATUS_PORT w in
      if status AND eX_KBC_STATUS_OUTPUT_FULL \<noteq> 0 then
        let (scancode, w2) = eX_Keyboard_Inb dev eX_KEYBOARD_DATA_PORT w1 in
        Option.bind (eX_Keyboard_HandleScancode scancode k) (\<lambda>k'. eX_Keyboard_Poll dev w2 k')
      else Some (w1, k))"

section \<open>Character sources and bounded queues\<close>

text \<open>
  What the shell relies on: a source of characters that yields the pending ones in order and
  minus one when there is none. A bounded queue is a source that can be filled up to a capacity.
\<close>

locale char_source =
  fixes getc :: "'s \<Rightarrow> (int \<times> 's) option"
    and pending :: "'s \<Rightarrow> u8 list"
    and inv :: "'s \<Rightarrow> bool"
  assumes getc_empty: "inv s \<Longrightarrow> pending s = [] \<Longrightarrow> getc s = Some (- 1, s)"
    and getc_next: "inv s \<Longrightarrow> pending s = c # cs \<Longrightarrow>
      \<exists>s'. getc s = Some (uint c, s') \<and> pending s' = cs \<and> inv s'"
begin

text \<open>
  Any loop of the shape \<^verbatim>\<open>while ((c = getc()) != -1) handle(c)\<close> ends and handles the pending
  characters in order, provided that the handler keeps its own invariant.
\<close>

lemma drain:
  assumes loop: "\<And>s t. loop s t = Option.bind (getc s) (\<lambda>(c, s').
      if c = - 1 then Some (s', t) else Option.bind (handle c t) (\<lambda>t'. loop s' t'))"
    and step: "\<And>c t. good t \<Longrightarrow> handle (uint c) t = Some (step c t) \<and> good (step c t)"
    and inv: "inv s" and good: "good t"
  shows "\<exists>s'. loop s t = Some (s', fold step (pending s) t) \<and> inv s' \<and> pending s' = [] \<and>
    good (fold step (pending s) t)"
  using inv good
proof (induction "pending s" arbitrary: s t)
  case Nil
  then show ?case by (subst loop) (simp add: getc_empty)
next
  case (Cons c cs)
  obtain s' where s': "getc s = Some (uint c, s')" "pending s' = cs" "inv s'"
    using getc_next [OF Cons.prems(1) Cons.hyps(2) [symmetric]] by blast
  have "uint c \<noteq> - 1" using uint_ge_0 [of c] by linarith
  then have "loop s t = loop s' (step c t)"
    using s' step [OF Cons.prems(2)] by (subst loop) simp
  then show ?case
    using Cons.hyps(1) [of s' "step c t"] s' step [OF Cons.prems(2)]
    by (simp add: Cons.hyps(2) [symmetric])
qed

end

locale bounded_queue = char_source getc pending inv
  for getc :: "'s \<Rightarrow> (int \<times> 's) option" and pending inv +
  fixes push :: "u8 \<Rightarrow> 's \<Rightarrow> 's option"
    and capacity :: nat
  assumes push_room: "inv s \<Longrightarrow> length (pending s) < capacity \<Longrightarrow>
      \<exists>s'. push c s = Some s' \<and> inv s' \<and> pending s' = pending s @ [c]"
    and push_full: "inv s \<Longrightarrow> length (pending s) = capacity \<Longrightarrow> push c s = Some s"
    and pending_bound: "inv s \<Longrightarrow> length (pending s) \<le> capacity"
begin

lemma push_pending:
  assumes "inv s"
  shows "\<exists>s'. push c s = Some s' \<and> inv s' \<and> pending s' = take capacity (pending s @ [c])"
proof (cases "length (pending s) < capacity")
  case True
  then show ?thesis using push_room [OF assms True, of c] by auto
next
  case False
  then show ?thesis using push_full [OF assms] pending_bound [OF assms] assms by simp
qed

end

section \<open>The ring buffer is a bounded queue\<close>

definition kb_inv :: "keyboard \<Rightarrow> bool" where
  "kb_inv k \<longleftrightarrow> length (KeyboardBuffer k) = 128 \<and>
     unat (KeyboardReadIndex k) < 128 \<and> unat (KeyboardWriteIndex k) < 128"

definition kb_count :: "keyboard \<Rightarrow> nat" where
  "kb_count k = (unat (KeyboardWriteIndex k) + 128 - unat (KeyboardReadIndex k)) mod 128"

definition kb_pending :: "keyboard \<Rightarrow> u8 list" where
  "kb_pending k =
     map (\<lambda>i. KeyboardBuffer k ! ((unat (KeyboardReadIndex k) + i) mod 128)) [0..<kb_count k]"

lemma unat_ring_next: "unat (ring_next i) = (unat i + 1) mod 128"
proof -
  have "unat (ucast i + 1 :: u32) = unat i + 1"
    using unat_lt8 [of i] by (simp add: unat_add_no_wrap unat_ucast_up del: unat_lt8)
  then have "unat ((ucast i + 1 :: u32) mod 128) = (unat i + 1) mod 128"
    by (simp add: unat_mod)
  then show ?thesis
    by (simp add: ring_next_def unsigned_ucast_eq take_bit_nat_eq_self)
qed

lemma mod_ring_Suc: "a < 128 \<Longrightarrow> (a + 1) mod 128 = (if a = 127 then 0 else a + 1)" for a :: nat
  by auto

lemma ring_distance:
  fixes r w :: nat
  assumes "r < 128" and "w < 128"
  shows "(w + 128 - r) mod 128 = (if r \<le> w then w - r else w + 128 - r)"
  using assms by (auto simp: mod_if)

lemma ring_offset_neq:
  fixes r w i :: nat
  assumes "r < 128" and "w < 128" and "i < (w + 128 - r) mod 128"
  shows "(r + i) mod 128 \<noteq> w"
proof (cases "r \<le> w")
  case True
  then show ?thesis using assms by (simp add: ring_distance)
next
  case False
  then have i: "i < w + 128 - r" using assms by (simp add: ring_distance)
  show ?thesis
  proof (cases "r + i < 128")
    case True
    then show ?thesis using False by simp
  next
    case ge: False
    then have "(r + i) mod 128 = r + i - 128" using i assms by (simp add: mod_if)
    then show ?thesis using i ge by linarith
  qed
qed

lemma length_kb_pending [simp]: "length (kb_pending k) = kb_count k"
  by (simp add: kb_pending_def)

lemma kb_empty_iff:
  "kb_inv k \<Longrightarrow> kb_pending k = [] \<longleftrightarrow> KeyboardReadIndex k = KeyboardWriteIndex k"
  by (auto simp: kb_inv_def kb_pending_def kb_count_def word_unat_eq_iff mod_if split: if_splits)

lemma eX_Keyboard_GetChar_next:
  assumes inv: "kb_inv k" and pend: "kb_pending k = c # cs"
  shows "\<exists>k'. eX_Keyboard_GetChar k = Some (uint c, k') \<and> kb_pending k' = cs \<and> kb_inv k'"
proof -
  let ?r = "unat (KeyboardReadIndex k)" and ?w = "unat (KeyboardWriteIndex k)"
  let ?k' = "k\<lparr>KeyboardReadIndex := ring_next (KeyboardReadIndex k)\<rparr>"
  have b: "?r < 128" "?w < 128" "length (KeyboardBuffer k) = 128" using inv by (auto simp: kb_inv_def)
  have ne: "KeyboardReadIndex k \<noteq> KeyboardWriteIndex k" using kb_empty_iff [OF inv] pend by auto
  then have neq: "?r \<noteq> ?w" by (simp add: word_unat_eq_iff)
  have count: "kb_count k = Suc (kb_count ?k')"
    using b neq by (auto simp: kb_count_def unat_ring_next mod_ring_Suc mod_if)
  have upt: "[0..<Suc n] = 0 # map Suc [0..<n]" for n by (simp add: upt_conv_Cons map_Suc_upt)
  have shift: "((?r + 1) mod 128 + i) mod 128 = (?r + Suc i) mod 128" for i
    by (simp add: mod_add_left_eq)
  have "kb_pending k = KeyboardBuffer k ! ?r # kb_pending ?k'"
    unfolding kb_pending_def count upt using b by (simp add: unat_ring_next shift [simplified])
  then have "c = KeyboardBuffer k ! ?r" "kb_pending ?k' = cs" using pend by simp_all
  moreover have "kb_inv ?k'" using b by (simp add: kb_inv_def unat_ring_next)
  ultimately show ?thesis using ne b by (auto simp: eX_Keyboard_GetChar_def)
qed

lemma eX_Keyboard_PushChar_room:
  assumes inv: "kb_inv k" and room: "length (kb_pending k) < 127"
  shows "\<exists>k'. eX_Keyboard_PushChar c k = Some k' \<and> kb_inv k' \<and> kb_pending k' = kb_pending k @ [c]"
proof -
  let ?r = "unat (KeyboardReadIndex k)" and ?w = "unat (KeyboardWriteIndex k)"
  let ?k' = "k\<lparr>KeyboardBuffer := (KeyboardBuffer k)[?w := c],
      KeyboardWriteIndex := ring_next (KeyboardWriteIndex k)\<rparr>"
  have b: "?r < 128" "?w < 128" "length (KeyboardBuffer k) = 128" using inv by (auto simp: kb_inv_def)
  have ne: "ring_next (KeyboardWriteIndex k) \<noteq> KeyboardReadIndex k"
    using room b by (auto simp: word_unat_eq_iff unat_ring_next mod_ring_Suc kb_count_def mod_if split: if_splits)
  have count: "kb_count ?k' = Suc (kb_count k)"
    using room b by (auto simp: kb_count_def unat_ring_next mod_ring_Suc mod_if split: if_splits)
  have last: "(?r + kb_count k) mod 128 = ?w"
    using b by (auto simp: kb_count_def mod_if)
  have old: "?w \<noteq> (?r + i) mod 128" if "i < kb_count k" for i
    using that b ring_offset_neq [of ?r ?w i] by (simp add: kb_count_def)
  have "kb_pending ?k' = kb_pending k @ [c]"
    unfolding kb_pending_def count using b old by (simp add: last)
  moreover have "kb_inv ?k'" using b by (simp add: kb_inv_def unat_ring_next)
  moreover have "eX_Keyboard_PushChar c k = Some ?k'"
    using ne b by (simp add: eX_Keyboard_PushChar_def Let_def)
  ultimately show ?thesis by blast
qed

lemma eX_Keyboard_PushChar_full:
  assumes inv: "kb_inv k" and full: "length (kb_pending k) = 127"
  shows "eX_Keyboard_PushChar c k = Some k"
proof -
  have "ring_next (KeyboardWriteIndex k) = KeyboardReadIndex k"
    using inv full by (auto simp: kb_inv_def word_unat_eq_iff unat_ring_next mod_ring_Suc kb_count_def mod_if
        split: if_splits)
  then show ?thesis by (simp add: eX_Keyboard_PushChar_def)
qed

interpretation kb: bounded_queue eX_Keyboard_GetChar kb_pending kb_inv eX_Keyboard_PushChar 127
proof (unfold_locales, goal_cases)
  case (1 k) then show ?case using kb_empty_iff by (auto simp: eX_Keyboard_GetChar_def)
next
  case (2 k c cs) then show ?case by (rule eX_Keyboard_GetChar_next)
next
  case (3 k c) then show ?case by (rule eX_Keyboard_PushChar_room)
next
  case (4 k c) then show ?case by (rule eX_Keyboard_PushChar_full)
next
  case (5 k)
  have "kb_count k < 128" by (simp add: kb_count_def)
  then show ?case by simp
qed

section \<open>What a stream of scancodes types\<close>

definition key_char :: "bool \<Rightarrow> bool \<Rightarrow> u8 \<Rightarrow> u8" where
  "key_char shift caps code =
     caps_swap caps (if shift then eX_KeyboardShift code else eX_KeyboardNormal code)"

text \<open>
  The characters that a sequence of make and break codes types, for given states of the shift
  key, of caps lock and of a pending extension prefix.
\<close>

fun typed :: "bool \<Rightarrow> bool \<Rightarrow> bool \<Rightarrow> u8 list \<Rightarrow> u8 list" where
  "typed shift caps ext [] = []"
| "typed shift caps ext (b # bs) =
     (if b = 0xE0 then typed shift caps True bs
      else if ext then typed shift caps False bs
      else if b \<in> {0x2A, 0x36} then typed True caps False bs
      else if b \<in> {0xAA, 0xB6} then typed False caps False bs
      else if b = 0x3A then typed shift (\<not> caps) False bs
      else if 0x80 \<le> b then typed shift caps False bs
      else (if key_char shift caps b = 0 then [] else [key_char shift caps b]) @
        typed shift caps False bs)"

abbreviation typed_by :: "keyboard \<Rightarrow> u8 list \<Rightarrow> u8 list" where
  "typed_by k \<equiv> typed (ShiftPressed k) (CapsLock k) (ExtendedScancode k)"

lemma scancode_masks:
  fixes b :: u8
  shows "b AND 0x80 \<noteq> 0 \<longleftrightarrow> 0x80 \<le> b"
    and "b AND 0x7F = (if 0x80 \<le> b then b - 0x80 else b)"
proof -
  have "b AND 0x7F = b mod 128"
    using take_bit_eq_mask [of 7 b] take_bit_eq_mod [of 7 b] by (simp add: mask_eq_exp_minus_1)
  then have low: "unat (b AND 0x7F) = unat b mod 128" by (simp add: unat_mod)
  have "b AND 0x80 \<noteq> 0 \<longleftrightarrow> bit b 7"
    using and_exp_eq_0_iff_not_bit [of b 7] by simp
  also have "\<dots> \<longleftrightarrow> odd (unat b div 128)"
  proof -
    have "bit (unat b) 7 \<longleftrightarrow> bit b 7" by (simp add: bit_unsigned_iff)
    then show ?thesis by (simp add: bit_iff_odd [of "unat b"])
  qed
  also have "\<dots> \<longleftrightarrow> 128 \<le> unat b"
  proof -
    have "unat b div 128 < 2" using unat_lt8 [of b] by (simp add: less_mult_imp_div_less del: unat_lt8)
    then show ?thesis by (auto simp: less_2_cases_iff div_eq_0_iff)
  qed
  finally show "b AND 0x80 \<noteq> 0 \<longleftrightarrow> 0x80 \<le> b" by (simp add: word_le_nat_alt)
  have "128 \<le> unat b \<Longrightarrow> unat b mod 128 = unat b - 128"
    using unat_lt8 [of b] by (simp add: mod_if del: unat_lt8)
  then show "b AND 0x7F = (if 0x80 \<le> b then b - 0x80 else b)"
    by (auto simp: word_unat_eq_iff low word_le_nat_alt unat_sub)
qed


lemma scancode_code_eq:
  fixes b c :: u8
  assumes "c < 0x80"
  shows "b AND 0x7F = c \<longleftrightarrow> b = c \<or> b = c + 0x80"
proof -
  have c: "unat c < 128" and s: "unat (c + 0x80) = unat c + 128"
    using assms by (simp_all add: word_less_nat_alt unat_add_no_wrap)
  show ?thesis
    by (auto simp: scancode_masks(2) word_unat_eq_iff word_le_nat_alt unat_sub s c dest: less_imp_diff_less)
      (use c in linarith)+
qed

lemma typed_append_take:
  "take n (take n (xs @ ys) @ zs) = take n (xs @ ys @ zs)"
  by (simp add: min_def)


text \<open>A scancode either only changes the flags or pushes one character.\<close>

definition same_ring :: "keyboard \<Rightarrow> keyboard \<Rightarrow> bool" where
  "same_ring k' k \<longleftrightarrow> KeyboardBuffer k' = KeyboardBuffer k \<and>
     KeyboardReadIndex k' = KeyboardReadIndex k \<and> KeyboardWriteIndex k' = KeyboardWriteIndex k"

lemma eX_Keyboard_HandleScancode_cases:
  fixes k :: keyboard and b :: u8
  defines "c \<equiv> key_char (ShiftPressed k) (CapsLock k) b"
  obtains (flags) k' where "eX_Keyboard_HandleScancode b k = Some k'" "same_ring k' k"
      "typed_by k [b] = []" "\<And>bs. typed_by k (b # bs) = typed_by k' bs"
    | (key) "eX_Keyboard_HandleScancode b k = eX_Keyboard_PushChar c k" "typed_by k [b] = [c]"
      "\<And>bs. typed_by k (b # bs) = c # typed_by k bs"
proof -
  have codes: "b AND 0x7F = 0x2A \<longleftrightarrow> b = 0x2A \<or> b = 0xAA" "b AND 0x7F = 0x36 \<longleftrightarrow> b = 0x36 \<or> b = 0xB6"
    "b AND 0x7F = 0x3A \<longleftrightarrow> b = 0x3A \<or> b = 0xBA"
    using scancode_code_eq [of "0x2A" b] scancode_code_eq [of "0x36" b] scancode_code_eq [of "0x3A" b]
    by simp_all
  note handle = eX_Keyboard_HandleScancode_def Let_def codes scancode_masks(1) same_ring_def
  consider "b = 0xE0 \<or> ExtendedScancode k"
    | (special) "b \<noteq> 0xE0" "\<not> ExtendedScancode k" "b \<in> {0x2A, 0x36, 0xAA, 0xB6, 0x3A}"
    | (release) "b \<noteq> 0xE0" "\<not> ExtendedScancode k" "b \<notin> {0x2A, 0x36, 0xAA, 0xB6, 0x3A}" "0x80 \<le> b"
    | (make) "b \<noteq> 0xE0" "\<not> ExtendedScancode k" "b \<notin> {0x2A, 0x36, 0xAA, 0xB6, 0x3A}" "\<not> 0x80 \<le> b"
    by blast
  then show thesis
  proof cases
    case 1
    then show thesis
      by (intro flags [of "k\<lparr>ExtendedScancode := (b = 0xE0)\<rparr>"]) (auto simp: handle)
  next
    case special
    define k' where "k' = (if b = 0x3A then k\<lparr>CapsLock := \<not> CapsLock k\<rparr>
      else k\<lparr>ShiftPressed := b \<in> {0x2A, 0x36}\<rparr>)"
    show thesis
      by (intro flags [of k']) (use special in \<open>auto simp: handle k'_def\<close>)
  next
    case release
    then show thesis by (intro flags [of k]) (auto simp: handle)
  next
    case make
    have low: "b AND 0x7F = b" using make by (simp add: scancode_masks(2))
    have ne: "b \<noteq> 0xBA" using make by auto
    show thesis
    proof (cases "c = 0")
      case True
      then show thesis
        using make ne low
        by (intro flags [of k]) (auto simp: handle c_def key_char_def)
    next
      case False
      then show thesis
        using make ne low by (intro key) (auto simp: handle c_def key_char_def)
    qed
  qed
qed

lemma eX_Keyboard_HandleScancode_typed:
  assumes "kb_inv k"
  shows "\<exists>k'. eX_Keyboard_HandleScancode b k = Some k' \<and> kb_inv k' \<and>
    kb_pending k' = take 127 (kb_pending k @ typed_by k [b]) \<and>
    (\<forall>bs. typed_by k (b # bs) = typed_by k [b] @ typed_by k' bs)"
proof (cases rule: eX_Keyboard_HandleScancode_cases [of b k])
  case (flags k')
  then show ?thesis
    using assms kb.pending_bound [OF assms]
    by (simp add: same_ring_def kb_inv_def kb_pending_def kb_count_def)
next
  case key
  obtain k' where k': "eX_Keyboard_PushChar (key_char (ShiftPressed k) (CapsLock k) b) k = Some k'"
      "kb_inv k'" "kb_pending k' = take 127 (kb_pending k @ [key_char (ShiftPressed k) (CapsLock k) b])"
    using kb.push_pending [OF assms] by blast
  have "ShiftPressed k' = ShiftPressed k" "CapsLock k' = CapsLock k" "ExtendedScancode k' = ExtendedScancode k"
    using k'(1) by (auto simp: eX_Keyboard_PushChar_def Let_def split: if_splits)
  then show ?thesis using key k' by auto
qed

section \<open>Polling the controller\<close>

text \<open>
  What the driver relies on of the keyboard controller: bit 0 of the status port tells whether its
  output buffer holds a byte, reading the status changes nothing, and reading the data port takes
  the oldest byte. The function yields the bytes the controller has left to deliver.
\<close>

definition kbc_queue :: "'w devices \<Rightarrow> ('w \<Rightarrow> u8 list) \<Rightarrow> bool" where
  "kbc_queue dev q \<longleftrightarrow>
     (\<forall>w. (fst (dev_inb dev 0x64 w) AND 1 \<noteq> 0 \<longleftrightarrow> q w \<noteq> []) \<and> q (snd (dev_inb dev 0x64 w)) = q w) \<and>
     (\<forall>w b bs. q w = b # bs \<longrightarrow> fst (dev_inb dev 0x60 w) = b \<and> q (snd (dev_inb dev 0x60 w)) = bs)"

lemma kbc_queue_status:
  assumes "kbc_queue dev q" and "dev_inb dev 0x64 w = (st, w1)"
  shows "st AND 1 \<noteq> 0 \<longleftrightarrow> q w \<noteq> []" and "q w1 = q w"
proof -
  have "(fst (dev_inb dev 0x64 w) AND 1 \<noteq> 0 \<longleftrightarrow> q w \<noteq> []) \<and> q (snd (dev_inb dev 0x64 w)) = q w"
    using assms(1) unfolding kbc_queue_def by (rule conjunct1 [THEN spec])
  then show "st AND 1 \<noteq> 0 \<longleftrightarrow> q w \<noteq> []" and "q w1 = q w" by (simp_all add: assms(2))
qed

lemma kbc_queue_data:
  assumes "kbc_queue dev q" and "q w = b # bs"
  shows "\<exists>w'. dev_inb dev 0x60 w = (b, w') \<and> q w' = bs"
proof -
  have "fst (dev_inb dev 0x60 w) = b \<and> q (snd (dev_inb dev 0x60 w)) = bs"
    using assms unfolding kbc_queue_def by blast
  then show ?thesis by (metis prod.collapse)
qed

lemma eX_Keyboard_Poll_typed:
  assumes dev: "kbc_queue dev q" and inv: "kb_inv k"
  shows "\<exists>w' k'. eX_Keyboard_Poll dev w k = Some (w', k') \<and> q w' = [] \<and> kb_inv k' \<and>
    kb_pending k' = take 127 (kb_pending k @ typed_by k (q w)) \<and>
    (\<forall>bs. typed_by k (q w @ bs) = typed_by k (q w) @ typed_by k' bs)"
  using inv
proof (induction "q w" arbitrary: w k)
  case Nil
  obtain st w1 where st: "dev_inb dev 0x64 w = (st, w1)" by fastforce
  then have "st AND 1 = 0" "q w1 = []" using kbc_queue_status [OF dev st] Nil.hyps by simp_all
  then show ?case
    using st Nil kb.pending_bound [OF Nil.prems]
    by (subst eX_Keyboard_Poll.simps) (simp add: eX_Keyboard_Inb_def)
next
  case (Cons b bs)
  obtain st w1 where st: "dev_inb dev 0x64 w = (st, w1)" by fastforce
  then have st': "st AND 1 \<noteq> 0" "q w1 = b # bs"
    using kbc_queue_status [OF dev st] by (simp_all add: Cons.hyps(2) [symmetric])
  obtain w2 where w2: "dev_inb dev 0x60 w1 = (b, w2)" "bs = q w2"
    using kbc_queue_data [OF dev st'(2)] by blast
  obtain k1 where k1: "eX_Keyboard_HandleScancode b k = Some k1" "kb_inv k1"
      "kb_pending k1 = take 127 (kb_pending k @ typed_by k [b])"
      "\<And>bs. typed_by k (b # bs) = typed_by k [b] @ typed_by k1 bs"
    using eX_Keyboard_HandleScancode_typed [OF Cons.prems] by blast
  have "eX_Keyboard_Poll dev w k = eX_Keyboard_Poll dev w2 k1"
    using st st'(1) w2 k1(1) by (subst eX_Keyboard_Poll.simps) (simp add: eX_Keyboard_Inb_def)
  moreover have "take 127 (kb_pending k1 @ typed_by k1 bs) = take 127 (kb_pending k @ typed_by k (q w))"
    using Cons.hyps(2) k1(3) k1(4) [of bs] typed_append_take by metis
  moreover obtain w' k' where k': "eX_Keyboard_Poll dev w2 k1 = Some (w', k')" "q w' = []" "kb_inv k'"
      "kb_pending k' = take 127 (kb_pending k1 @ typed_by k1 bs)"
      "\<And>cs. typed_by k1 (bs @ cs) = typed_by k1 bs @ typed_by k' cs"
    using Cons.hyps(1) [OF w2(2) k1(2)] unfolding w2(2) by blast
  moreover have "typed_by k (q w @ cs) = typed_by k (q w) @ typed_by k' cs" for cs
    using k1(4) [of "bs @ cs"] k1(4) [of bs] k'(5) [of cs] unfolding Cons.hyps(2) [symmetric] by (simp del: typed.simps)
  ultimately show ?case by auto
qed

text \<open>Whatever the devices deliver, a polling loop that ends keeps the ring well-formed.\<close>

lemma eX_Keyboard_HandleScancode_inv:
  "eX_Keyboard_HandleScancode b k = Some k' \<Longrightarrow> kb_inv k \<Longrightarrow> kb_inv k'"
  using eX_Keyboard_HandleScancode_typed [of k b] by (metis option.inject)

lemma eX_Keyboard_Poll_inv:
  assumes "eX_Keyboard_Poll dev w k = Some r" and "kb_inv k"
  shows "kb_inv (snd r)"
proof -
  have "kb_inv k \<longrightarrow> kb_inv (snd r)"
  proof (rule eX_Keyboard_Poll.raw_induct [where P = "\<lambda>dev w k r. kb_inv k \<longrightarrow> kb_inv (snd r)", OF _ assms(1)])
    fix poll :: "'a devices \<Rightarrow> 'a \<Rightarrow> keyboard \<Rightarrow> ('a \<times> keyboard) option" and dev w k r
    assume IH: "\<And>dev w k r. poll dev w k = Some r \<Longrightarrow> kb_inv k \<longrightarrow> kb_inv (snd r)"
      and body: "(let (status, w1) = eX_Keyboard_Inb dev eX_KEYBOARD_STATUS_PORT w in
        if status AND eX_KBC_STATUS_OUTPUT_FULL \<noteq> 0 then let (scancode, w2) = eX_Keyboard_Inb dev eX_KEYBOARD_DATA_PORT w1 in
          Option.bind (eX_Keyboard_HandleScancode scancode k) (poll dev w2)
        else Some (w1, k)) = Some r"
    show "kb_inv k \<longrightarrow> kb_inv (snd r)"
    proof
      assume "kb_inv k"
      consider w1 where "r = (w1, k)"
        | scancode k1 w2 where "eX_Keyboard_HandleScancode scancode k = Some k1" "poll dev w2 k1 = Some r"
        using body by (auto simp: bind_eq_Some_conv split: prod.splits if_splits)
      then show "kb_inv (snd r)"
        using IH eX_Keyboard_HandleScancode_inv \<open>kb_inv k\<close> by cases (simp, blast)
    qed
  qed
  then show ?thesis using assms(2) by simp
qed
section \<open>Keys and characters\<close>

text \<open>The scancodes that a user typing a character sends: with the shift key where it needs one.\<close>

definition code_of :: "(u8 \<times> u8) list \<Rightarrow> u8 \<Rightarrow> u8 option" where
  "code_of table c = map_of (map prod.swap table) c"

definition typable :: "u8 \<Rightarrow> bool" where
  "typable c \<longleftrightarrow> code_of KeyboardNormal_table c \<noteq> None \<or> code_of KeyboardShift_table c \<noteq> None"

definition keystrokes :: "u8 \<Rightarrow> u8 list" where
  "keystrokes c = (case code_of KeyboardNormal_table c of
       Some code \<Rightarrow> [code, code + 0x80]
     | None \<Rightarrow> (case code_of KeyboardShift_table c of
         Some code \<Rightarrow> [0x2A, code, code + 0x80, 0xAA]
       | None \<Rightarrow> []))"

definition plain_code :: "u8 \<Rightarrow> bool" where
  "plain_code b \<longleftrightarrow> b < 0x80 \<and> b \<notin> {0x2A, 0x36, 0x3A, 0x60}"

lemma KeyboardNormal_entries:
  "(code, c) \<in> set KeyboardNormal_table \<Longrightarrow> plain_code code \<and> eX_KeyboardNormal code = c \<and> c \<noteq> 0"
proof -
  have "list_all (\<lambda>(code, c). plain_code code \<and> eX_KeyboardNormal code = c \<and> c \<noteq> 0) KeyboardNormal_table"
    by code_simp
  then show "(code, c) \<in> set KeyboardNormal_table \<Longrightarrow> plain_code code \<and> eX_KeyboardNormal code = c \<and> c \<noteq> 0"
    by (auto simp: list_all_iff)
qed

lemma KeyboardShift_entries:
  "(code, c) \<in> set KeyboardShift_table \<Longrightarrow> plain_code code \<and> eX_KeyboardShift code = c \<and> c \<noteq> 0"
proof -
  have "list_all (\<lambda>(code, c). plain_code code \<and> eX_KeyboardShift code = c \<and> c \<noteq> 0) KeyboardShift_table"
    by code_simp
  then show "(code, c) \<in> set KeyboardShift_table \<Longrightarrow> plain_code code \<and> eX_KeyboardShift code = c \<and> c \<noteq> 0"
    by (auto simp: list_all_iff)
qed

lemma code_of_entry: "code_of table c = Some code \<Longrightarrow> (code, c) \<in> set table"
  by (auto simp: code_of_def dest!: map_of_SomeD)

lemma plain_code_break:
  assumes "plain_code b"
  shows "b + 0x80 \<notin> {0xE0, 0x2A, 0x36, 0xAA, 0xB6, 0x3A}" and "0x80 \<le> b + 0x80" and "b \<notin> {0xE0, 0xAA, 0xB6}"
    and "\<not> 0x80 \<le> b"
proof -
  have u: "unat (b + 0x80) = unat b + 128" "unat b < 128"
    using assms by (simp_all add: plain_code_def word_less_nat_alt unat_add_no_wrap)
  have ne: "unat b \<notin> {0x2A, 0x36, 0x3A, 0x60}"
    using assms by (auto simp: plain_code_def word_unat_eq_iff)
  show "b + 0x80 \<notin> {0xE0, 0x2A, 0x36, 0xAA, 0xB6, 0x3A}" "0x80 \<le> b + 0x80" "b \<notin> {0xE0, 0xAA, 0xB6}" "\<not> 0x80 \<le> b"
    using u ne by (auto simp: word_unat_eq_iff word_le_nat_alt)
qed

lemma typed_press_release:
  assumes "plain_code b" and "key_char shift caps b \<noteq> 0"
  shows "typed shift caps False (b # (b + 0x80) # bs) = key_char shift caps b # typed shift caps False bs"
  using assms(2) plain_code_break [OF assms(1)] assms(1) by (simp add: plain_code_def)

lemma typed_keystrokes:
  assumes "typable c"
  shows "typed False False False (keystrokes c @ bs) = c # typed False False False bs"
proof (cases "code_of KeyboardNormal_table c")
  case (Some code)
  then show ?thesis
    using KeyboardNormal_entries [OF code_of_entry [OF Some]] typed_press_release [of code False False bs]
    by (simp add: keystrokes_def key_char_def caps_swap_def del: typed.simps)
next
  case None
  then obtain code where code: "code_of KeyboardShift_table c = Some code"
    using assms by (auto simp: typable_def)
  have "typed True False False (code # (code + 0x80) # 0xAA # bs) = c # typed True False False (0xAA # bs)"
    using KeyboardShift_entries [OF code_of_entry [OF code]]
      typed_press_release [of code True False "0xAA # bs"]
    by (simp add: key_char_def caps_swap_def del: typed.simps)
  then show ?thesis using None code by (simp add: keystrokes_def)
qed

lemma typed_concat_keystrokes:
  "list_all typable cs \<Longrightarrow> typed False False False (concat (map keystrokes cs)) = cs"
  by (induction cs) (simp_all add: typed_keystrokes)

lemma typable_iff: "typable c \<longleftrightarrow> c \<in> snd ` set (KeyboardNormal_table @ KeyboardShift_table)"
  by (simp add: typable_def code_of_def map_of_eq_None_iff image_Un image_image)

lemma printable_typable:
  assumes "32 \<le> n" and "n < 127"
  shows "typable (of_nat n)"
proof -
  have "list_all (\<lambda>n. n \<in> set (map (\<lambda>e. unat (snd e)) (KeyboardNormal_table @ KeyboardShift_table))) [32..<127]"
    unfolding KeyboardNormal_table_def KeyboardShift_table_def by (simp add: upt_rec_numeral)
  moreover have "n \<in> set [32..<127]" using assms by (simp only: set_upt atLeastLessThan_iff)
  ultimately have "n \<in> (\<lambda>e. unat (snd e)) ` set (KeyboardNormal_table @ KeyboardShift_table)"
    unfolding list_all_iff set_map by (rule bspec)
  then obtain e where e: "e \<in> set (KeyboardNormal_table @ KeyboardShift_table)" "n = unat (snd e)" by blast
  then have "of_nat n = snd e" by simp
  then show ?thesis using e(1) by (simp add: typable_iff)
qed

lemma letter_keys:
  assumes "chr CHR ''a'' \<le> eX_KeyboardNormal b" and "eX_KeyboardNormal b \<le> chr CHR ''z''"
  shows "plain_code b" and "eX_KeyboardShift b = eX_KeyboardNormal b - 32"
proof -
  have all: "list_all (\<lambda>(code, c). chr CHR ''a'' \<le> c \<and> c \<le> chr CHR ''z'' \<longrightarrow> eX_KeyboardShift code = c - 32)
    KeyboardNormal_table"
    by code_simp
  obtain c where "map_of KeyboardNormal_table b = Some c"
    using assms(1) by (cases "map_of KeyboardNormal_table b") (simp_all add: eX_KeyboardNormal_def)
  then have c: "(b, c) \<in> set KeyboardNormal_table" "eX_KeyboardNormal b = c"
    by (auto simp: eX_KeyboardNormal_def dest: map_of_SomeD)
  show "plain_code b" using KeyboardNormal_entries [OF c(1)] by simp
  show "eX_KeyboardShift b = eX_KeyboardNormal b - 32"
    using all c assms by (auto simp: list_all_iff)
qed

lemma editing_keys:
  "eX_KeyboardNormal 0x1C = 10" "eX_KeyboardNormal 0x0E = 8" "eX_KeyboardNormal 0x0F = 9"
  "eX_KeyboardShift 0x1C = 0" "eX_KeyboardShift 0x0E = 0" "eX_KeyboardShift 0x0F = 0"
  by (simp_all add: eX_KeyboardShift_def KeyboardShift_table_def eX_KeyboardNormal_def KeyboardNormal_table_def)

section \<open>Properties\<close>

text \<open>
  C8: The ring buffer of the driver is a first-in first-out queue of at most 127 characters:
  pushing appends and drops the character only when 127 are pending, reading yields the oldest
  pending character, or minus one when there is none, and no index ever leaves the buffer.
\<close>

theorem keyboard_ring_refines_queue:
  assumes "kb_inv k"
  shows "(\<exists>k'. eX_Keyboard_PushChar c k = Some k' \<and> kb_inv k' \<and>
      kb_pending k' = take 127 (kb_pending k @ [c])) \<and>
    (case kb_pending k of
       [] \<Rightarrow> eX_Keyboard_GetChar k = Some (- 1, k)
     | d # ds \<Rightarrow> \<exists>k'. eX_Keyboard_GetChar k = Some (uint d, k') \<and> kb_inv k' \<and> kb_pending k' = ds)"
  using kb.push_pending [OF assms] kb.getc_empty [OF assms] kb.getc_next [OF assms]
  by (auto split: list.split)

definition kb_example :: keyboard where
  "kb_example = \<lparr>KeyboardBuffer = (replicate 128 0)[127 := 65], KeyboardReadIndex = 127,
     KeyboardWriteIndex = 0, ShiftPressed = False, CapsLock = False, ExtendedScancode = False\<rparr>"

lemma kb_example_flags [simp]:
  "\<not> ShiftPressed kb_example" "\<not> CapsLock kb_example" "\<not> ExtendedScancode kb_example"
  "length (KeyboardBuffer kb_example) = 128"
  by (simp_all add: kb_example_def)

lemma kb_example_inv: "kb_inv kb_example" and kb_example_pending: "kb_pending kb_example = [65]"
  by (simp_all add: kb_example_def kb_inv_def kb_pending_def kb_count_def)

theorem keyboard_ring_refines_queue_witness:
  "kb_inv kb_example \<and> kb_pending kb_example = [65] \<and>
   (\<exists>k'. eX_Keyboard_PushChar 66 kb_example = Some k' \<and> kb_inv k' \<and> kb_pending k' = [65, 66]) \<and>
   (\<exists>k'. eX_Keyboard_GetChar kb_example = Some (65, k') \<and> kb_inv k' \<and> kb_pending k' = [])"
  using keyboard_ring_refines_queue [OF kb_example_inv, of 66]
  by (simp add: kb_example_inv kb_example_pending)

text \<open>
  C9: Polling a controller that has a finite sequence of bytes to deliver returns, empties the
  controller, and adds to the pending characters exactly the ones that the bytes type under the
  current shift, caps lock and prefix state, up to the capacity of the ring.
\<close>

theorem keyboard_poll_correct:
  assumes "kbc_queue dev q" and "kb_inv k"
  shows "\<exists>w' k'. eX_Keyboard_Poll dev w k = Some (w', k') \<and> q w' = [] \<and> kb_inv k' \<and>
    kb_pending k' = take 127 (kb_pending k @ typed_by k (q w))"
  using eX_Keyboard_Poll_typed [OF assms, of w] by blast

text \<open>A controller that delivers the bytes of a list, for the examples.\<close>

definition list_controller :: "u8 list devices" where
  "list_controller = \<lparr>
     dev_inb = (\<lambda>port q. if port = 0x64 then (if q = [] then 0 else 1, q)
       else if port = 0x60 then (case q of [] \<Rightarrow> (0, []) | b # bs \<Rightarrow> (b, bs))
       else (0, q)),
     dev_outb = (\<lambda>port v q. q)\<rparr>"

lemma list_controller_queue: "kbc_queue list_controller (\<lambda>q. q)"
  by (simp add: kbc_queue_def list_controller_def)

theorem keyboard_poll_correct_witness:
  "kbc_queue list_controller (\<lambda>q. q) \<and> kb_inv kb_example \<and>
   (\<exists>w' k'. eX_Keyboard_Poll list_controller [0x2A, 0x23, 0xA3, 0xAA, 0xE0, 0x48, 0x17] kb_example = Some (w', k') \<and>
     w' = [] \<and> kb_pending k' = [65, chr CHR ''H'', chr CHR ''i''])"
proof -
  have "typed False False False [0x2A, 0x23, 0xA3, 0xAA, 0xE0, 0x48, 0x17] = [chr CHR ''H'', chr CHR ''i'']"
    by code_simp
  moreover have "typed_by kb_example = typed False False False" by simp
  ultimately show ?thesis
    using keyboard_poll_correct [OF list_controller_queue kb_example_inv,
        of "[0x2A, 0x23, 0xA3, 0xAA, 0xE0, 0x48, 0x17]"]
    by (auto simp: list_controller_queue kb_example_inv kb_example_pending)
qed

text \<open>
  C29: Every text of typable characters of at most 127 characters can be entered: when the
  controller delivers the make and break codes of its keys to a freshly initialised driver, polling
  leaves exactly the text pending. All printable ASCII characters, newline, tab and backspace are
  typable.
\<close>

theorem keyboard_typing_roundtrip:
  assumes "kbc_queue dev q" and "q w = concat (map keystrokes text)"
    and "list_all typable text" and "length text \<le> 127" and "length (KeyboardBuffer k) = 128"
  shows "(\<exists>w' k'. eX_Keyboard_Poll dev w (eX_Keyboard_Init k) = Some (w', k') \<and> kb_pending k' = text) \<and>
    {8, 9, 10} \<union> {32..126} \<subseteq> {n. typable (of_nat n)}"
proof -
  let ?k = "eX_Keyboard_Init k"
  have inv: "kb_inv ?k" and pend: "kb_pending ?k = []" and st: "typed_by ?k = typed False False False"
    using assms(5) by (simp_all add: eX_Keyboard_Init_def kb_inv_def kb_pending_def kb_count_def)
  have "typable 8" "typable 9" "typable 10"
    by (simp_all add: typable_def code_of_def KeyboardNormal_table_def)
  then have "{8, 9, 10} \<union> {32..126} \<subseteq> {n. typable (of_nat n)}"
    using printable_typable by auto
  then show ?thesis
    using eX_Keyboard_Poll_typed [OF assms(1) inv, of w] assms(2-4)
    by (auto simp: pend st typed_concat_keystrokes)
qed

theorem keyboard_typing_roundtrip_witness:
  "\<exists>w' k'. eX_Keyboard_Poll list_controller (concat (map keystrokes (bytes_of ''Hi~''))) (eX_Keyboard_Init kb_example) =
     Some (w', k') \<and> kb_pending k' = bytes_of ''Hi~''"
proof -
  have "list_all typable (bytes_of ''Hi~'')" by code_simp
  moreover have "length (bytes_of ''Hi~'') \<le> 127" "length (KeyboardBuffer kb_example) = 128"
    by (simp_all add: bytes_of_def)
  ultimately show ?thesis
    using keyboard_typing_roundtrip [OF list_controller_queue refl] by blast
qed

text \<open>
  A letter key types the capital letter exactly when one of shift and caps lock is active and
  the other is not.
\<close>

theorem keyboard_letter_case:
  assumes "chr CHR ''a'' \<le> eX_KeyboardNormal b" and "eX_KeyboardNormal b \<le> chr CHR ''z''"
    and "\<not> ExtendedScancode k"
  shows "eX_Keyboard_HandleScancode b k =
    eX_Keyboard_PushChar (if ShiftPressed k \<noteq> CapsLock k then eX_KeyboardNormal b - 32 else eX_KeyboardNormal b) k"
proof -
  let ?c = "eX_KeyboardNormal b"
  note b = letter_keys [OF assms(1,2)]
  have u: "97 \<le> unat ?c" "unat ?c \<le> 122" using assms(1,2) by (simp_all add: word_le_nat_alt)
  then have low: "unat (?c - 32) = unat ?c - 32" by (simp add: unat_sub word_le_nat_alt)
  have key: "key_char (ShiftPressed k) (CapsLock k) b = (if ShiftPressed k \<noteq> CapsLock k then ?c - 32 else ?c)"
    using u by (auto simp: key_char_def caps_swap_def b(2) word_le_nat_alt low)
  then have ne: "key_char (ShiftPressed k) (CapsLock k) b \<noteq> 0"
    using u low by (auto simp: word_unat_eq_iff)
  have "eX_Keyboard_HandleScancode b k = eX_Keyboard_PushChar (key_char (ShiftPressed k) (CapsLock k) b) k"
  proof (cases rule: eX_Keyboard_HandleScancode_cases [of b k])
    case (flags k')
    then show ?thesis
      using ne assms(3) b(1) plain_code_break [OF b(1)] by (simp add: plain_code_def)
  qed
  then show ?thesis by (simp add: key)
qed

theorem keyboard_letter_case_witness:
  "eX_Keyboard_HandleScancode 0x1E (kb_example\<lparr>CapsLock := True\<rparr>) =
   eX_Keyboard_PushChar (chr CHR ''A'') (kb_example\<lparr>CapsLock := True\<rparr>)"
proof -
  have a: "eX_KeyboardNormal 0x1E = chr CHR ''a''" by (simp add: eX_KeyboardNormal_def KeyboardNormal_table_def)
  show ?thesis
    using keyboard_letter_case [of "0x1E" "kb_example\<lparr>CapsLock := True\<rparr>"] by (simp add: a)
qed

text \<open>
  C40: While shift is held, Enter, Backspace and Tab are lost: the shift table has no entry for
  them, so their make codes change nothing, whereas without shift they type newline, backspace and
  tab.
\<close>

theorem keyboard_shift_loses_editing_keys:
  assumes "\<not> ExtendedScancode k" and "(b, c) \<in> {(0x1C, 10), (0x0E, 8), (0x0F, 9)}"
  shows "eX_Keyboard_HandleScancode b k =
    (if ShiftPressed k then Some k else eX_Keyboard_PushChar c k)"
  using assms
  using editing_keys by (elim insertE emptyE) (simp_all add: eX_Keyboard_HandleScancode_def caps_swap_def)

theorem keyboard_shift_loses_editing_keys_witness:
  "eX_Keyboard_HandleScancode 0x1C (kb_example\<lparr>ShiftPressed := True\<rparr>) = Some (kb_example\<lparr>ShiftPressed := True\<rparr>)"
  using keyboard_shift_loses_editing_keys [of "kb_example\<lparr>ShiftPressed := True\<rparr>" "0x1C" 10]
  by simp

end
