(* ===== verification/Eyax_Shell.thy ===== *)
theory Eyax_Shell
  imports Eyax_Print Eyax_Keyboard "HOL-Library.Sublist"
begin

text \<open>
  The command line, \<^verbatim>\<open>src/shell.c\<close>: the line buffer, the editing keys, the commands and the loop that
  drains the keyboard. The lemmas show that the buffer implements a line editor on lists of
  characters and that the screen always shows the prompt and the line being edited.
\<close>

section \<open>State and operations\<close>

definition eX_SHELL_BUFFER_SIZE :: u64 where [simp]: "eX_SHELL_BUFFER_SIZE = 128"

record shell =
  ShellBuffer :: "u8 list"
  ShellLength :: u64

definition eX_Shell_Prompt :: "console \<Rightarrow> console option" where
  "eX_Shell_Prompt con = eX_Print (cstr ''eyaX> '') [] con"

definition eX_Shell_Init :: "shell \<times> console \<Rightarrow> (shell \<times> console) option" where
  "eX_Shell_Init = (\<lambda>(sh, con). do {
     let sh = sh\<lparr>ShellLength := 0\<rparr>;
     con \<leftarrow> eX_Shell_Prompt con;
     Some (sh, con)
   })"

definition eX_Shell_Backspace :: "shell \<times> console \<Rightarrow> shell \<times> console" where
  "eX_Shell_Backspace = (\<lambda>(sh, con).
     if ShellLength sh = 0 then (sh, con)
     else (sh\<lparr>ShellLength := ShellLength sh - 1\<rparr>, eX_Backspace con))"

text \<open>The arguments are the memory from the pointers on; running past its end has no result.\<close>

fun eX_Shell_StringEquals :: "u8 list \<Rightarrow> u8 list \<Rightarrow> bool option" where
  "eX_Shell_StringEquals (a # as) (b # bs) =
     (if a \<noteq> 0 \<and> b \<noteq> 0
      then (if a \<noteq> b then Some False else eX_Shell_StringEquals as bs)
      else Some (a = b))"
| "eX_Shell_StringEquals _ _ = None"

text \<open>The commands. A string literal that ends in a line break is written as its text.\<close>

definition cline :: "string \<Rightarrow> u8 list" where
  "cline s = bytes_of s @ [10, 0]"

definition eX_Shell_command :: "shell \<Rightarrow> console \<Rightarrow> console option" where
  "eX_Shell_command sh con = do {
     is_help \<leftarrow> eX_Shell_StringEquals (ShellBuffer sh) (cstr ''help'');
     if is_help then do {
       con \<leftarrow> eX_Print (cline ''Available commands:'') [] con;
       con \<leftarrow> eX_Print (cline ''  help'') [] con;
       con \<leftarrow> eX_Print (cline ''  clear'') [] con;
       con \<leftarrow> eX_Print (cline ''  echo'') [] con;
       eX_Print (cline ''  version'') [] con
     } else do {
       is_clear \<leftarrow> eX_Shell_StringEquals (ShellBuffer sh) (cstr ''clear'');
       if is_clear then Some (eX_Clear con)
       else do {
         is_version \<leftarrow> eX_Shell_StringEquals (ShellBuffer sh) (cstr ''version'');
         if is_version then eX_Print (cline ''eyaX kernel beta 0.1'') [] con
         else if ShellLength sh > 0 then
           eX_Print (cline ''Unknown command: %s'') [ArgStr (Some (ShellBuffer sh))] con
         else Some con
       }
     }
   }"

definition eX_Shell_Enter :: "shell \<times> console \<Rightarrow> (shell \<times> console) option" where
  "eX_Shell_Enter = (\<lambda>(sh, con).
     if unat (ShellLength sh) < length (ShellBuffer sh) then do {
       let sh = sh\<lparr>ShellBuffer := (ShellBuffer sh)[unat (ShellLength sh) := 0]\<rparr>;
       con \<leftarrow> eX_Print (cline []) [] con;
       con \<leftarrow> eX_Shell_command sh con;
       let sh = sh\<lparr>ShellLength := 0\<rparr>;
       con \<leftarrow> eX_Shell_Prompt con;
       Some (sh, con)
     } else None)"

definition eX_Shell_Character :: "u8 \<Rightarrow> shell \<times> console \<Rightarrow> (shell \<times> console) option" where
  "eX_Shell_Character c = (\<lambda>(sh, con).
     if ShellLength sh \<ge> eX_SHELL_BUFFER_SIZE - 1 then Some (sh, con)
     else if unat (ShellLength sh) < length (ShellBuffer sh) then
       Some (sh\<lparr>ShellBuffer := (ShellBuffer sh)[unat (ShellLength sh) := c],
                ShellLength := ShellLength sh + 1\<rparr>, eX_PrintChar c con)
     else None)"

text \<open>The body of the loop of \<^verbatim>\<open>eX_Shell_Update\<close>, and the loop.\<close>

definition eX_Shell_key :: "int \<Rightarrow> shell \<times> console \<Rightarrow> (shell \<times> console) option" where
  "eX_Shell_key c s =
     (if c = 10 then eX_Shell_Enter s
      else if c = 8 then Some (eX_Shell_Backspace s)
      else if c \<ge> 32 \<and> c \<le> 126 then eX_Shell_Character (word_of_int c) s
      else Some s)"

partial_function (option) eX_Shell_Update ::
  "keyboard \<Rightarrow> shell \<times> console \<Rightarrow> (keyboard \<times> shell \<times> console) option" where
  "eX_Shell_Update k s =
     Option.bind (eX_Keyboard_GetChar k) (\<lambda>(c, k').
       if c = - 1 then Some (k', s)
       else Option.bind (eX_Shell_key c s) (\<lambda>s'. eX_Shell_Update k' s'))"

section \<open>The line editor it implements\<close>

definition shell_prompt :: "u8 list" where
  "shell_prompt = bytes_of ''eyaX> ''"

definition shell_help :: "u8 list" where
  "shell_help = concat (map (\<lambda>s. bytes_of s @ [10])
     [''Available commands:'', ''  help'', ''  clear'', ''  echo'', ''  version''])"

text \<open>The answer to a command and its effect, between the line break and the new prompt.\<close>

definition reply :: "u8 list \<Rightarrow> u8 list" where
  "reply line =
     (if line = [] then []
      else if line = bytes_of ''help'' then shell_help
      else if line = bytes_of ''version'' then bytes_of ''eyaX kernel beta 0.1'' @ [10]
      else bytes_of ''Unknown command: '' @ line @ [10])"

definition run_command :: "u8 list \<Rightarrow> console \<Rightarrow> console" where
  "run_command line con =
     (if line = bytes_of ''clear'' then eX_Clear con else fold eX_PrintChar (reply line) con)"

definition shell_step :: "u8 \<Rightarrow> u8 list \<times> console \<Rightarrow> u8 list \<times> console" where
  "shell_step c = (\<lambda>(line, con).
     if c = 10 then ([], fold eX_PrintChar shell_prompt (run_command line (eX_PrintChar 10 con)))
     else if c = 8 then (if line = [] then (line, con) else (butlast line, eX_Backspace con))
     else if 32 \<le> c \<and> c \<le> 126 \<and> length line < 127 then (line @ [c], eX_PrintChar c con)
     else (line, con))"

definition shell_line :: "shell \<Rightarrow> u8 list" where
  "shell_line sh = take (unat (ShellLength sh)) (ShellBuffer sh)"

definition shell_inv :: "shell \<Rightarrow> bool" where
  "shell_inv sh \<longleftrightarrow> length (ShellBuffer sh) = 128 \<and> unat (ShellLength sh) \<le> 127 \<and>
     list_all (\<lambda>c. 32 \<le> c \<and> c \<le> 126) (shell_line sh)"

definition shell_abs :: "shell \<times> console \<Rightarrow> u8 list \<times> console" where
  "shell_abs = (\<lambda>(sh, con). (shell_line sh, con))"

section \<open>The operations implement the editor\<close>

lemma eX_Shell_StringEquals_iff:
  "0 \<notin> set a \<Longrightarrow> 0 \<notin> set b \<Longrightarrow>
   eX_Shell_StringEquals (a @ 0 # x) (b @ 0 # y) = Some (a = b)"
proof (induction a arbitrary: b)
  case Nil
  then show ?case by (cases b) auto
next
  case (Cons c a)
  then show ?case by (cases b) auto
qed

lemma eX_Shell_StringEquals_cstr:
  "0 \<notin> set a \<Longrightarrow> CHR 0x00 \<notin> set b \<Longrightarrow>
   eX_Shell_StringEquals (a @ 0 # x) (cstr b) = Some (a = bytes_of b)"
  unfolding cstr_def by (rule eX_Shell_StringEquals_iff) simp_all

lemma eX_Print_cline:
  "CHR 0x00 \<notin> set s \<Longrightarrow> CHR ''%'' \<notin> set s \<Longrightarrow>
   eX_Print (cline s) args con = Some (fold eX_PrintChar (bytes_of s @ [10]) con)"
  using eX_Print_literal [of "bytes_of s @ [10]" args con] by (simp add: cline_def)

lemma eX_Shell_Prompt_eq: "eX_Shell_Prompt con = Some (fold eX_PrintChar shell_prompt con)"
  unfolding eX_Shell_Prompt_def shell_prompt_def cstr_def
  by (rule eX_Print_literal) simp_all

lemma eX_Print_unknown:
  assumes "0 \<notin> set line"
  shows "eX_Print (cline ''Unknown command: %s'') [ArgStr (Some (line @ 0 # rest))] con =
    Some (fold eX_PrintChar (bytes_of ''Unknown command: '' @ line @ [10]) con)"
  using eX_PrintString_eq [OF assms, of rest]
  by (simp add: cline_def bytes_of_def eX_Print_directive_def va_arg_str_def)

lemma eX_Shell_command_eq:
  assumes "ShellBuffer sh = line @ 0 # rest" and "0 \<notin> set line"
    and "ShellLength sh > 0 \<longleftrightarrow> line \<noteq> []"
  shows "eX_Shell_command sh con = Some (run_command line con)"
proof -
  have eqs: "eX_Shell_StringEquals (ShellBuffer sh) (cstr b) = Some (line = bytes_of b)"
    if "CHR 0x00 \<notin> set b" for b
    unfolding assms(1) using assms(2) that by (rule eX_Shell_StringEquals_cstr)
  have unknown: "eX_Print (cline ''Unknown command: %s'') [ArgStr (Some (ShellBuffer sh))] con =
      Some (fold eX_PrintChar (bytes_of ''Unknown command: '' @ line @ [10]) con)"
    unfolding assms(1) using assms(2) by (rule eX_Print_unknown)
  consider "line = bytes_of ''help''" | "line = bytes_of ''clear''" | "line = bytes_of ''version''"
    | "line = []" | "line \<notin> {bytes_of ''help'', bytes_of ''clear'', bytes_of ''version'', []}"
    by blast
  then show ?thesis
    by cases (simp_all add: eX_Shell_command_def run_command_def reply_def eqs assms(3) eX_Print_cline shell_help_def unknown)
qed

lemma shell_line_terminated:
  assumes "length (ShellBuffer sh) = 128" and "unat (ShellLength sh) \<le> 127"
  shows "(ShellBuffer sh)[unat (ShellLength sh) := 0] =
    shell_line sh @ 0 # drop (unat (ShellLength sh) + 1) (ShellBuffer sh)"
  using assms by (simp add: shell_line_def upd_conv_take_nth_drop)

lemma eX_Shell_Enter_eq:
  assumes "shell_inv sh"
  shows "\<exists>sh'. eX_Shell_Enter (sh, con) = Some (sh',
      fold eX_PrintChar shell_prompt (run_command (shell_line sh) (eX_PrintChar 10 con))) \<and>
    shell_inv sh' \<and> shell_line sh' = []"
proof -
  let ?line = "shell_line sh" and ?n = "unat (ShellLength sh)"
  let ?sh1 = "sh\<lparr>ShellBuffer := (ShellBuffer sh)[?n := 0]\<rparr>"
  let ?sh' = "?sh1\<lparr>ShellLength := 0\<rparr>"
  have len: "length (ShellBuffer sh) = 128" "?n \<le> 127" and nz: "0 \<notin> set ?line"
    using assms by (auto simp: shell_inv_def list_all_iff)
  have "ShellLength ?sh1 > 0 \<longleftrightarrow> ?line \<noteq> []"
    using len by (auto simp: shell_line_def word_greater_zero_iff unat_gt_0)
  then have "eX_Shell_command ?sh1 (eX_PrintChar 10 con) = Some (run_command ?line (eX_PrintChar 10 con))"
    using nz by (intro eX_Shell_command_eq) (simp_all add: shell_line_terminated [OF len])
  moreover have "eX_Print (cline []) [] con = Some (eX_PrintChar 10 con)"
    by (simp add: eX_Print_cline) (simp add: bytes_of_def)
  ultimately have "eX_Shell_Enter (sh, con) = Some (?sh',
      fold eX_PrintChar shell_prompt (run_command ?line (eX_PrintChar 10 con)))"
    using len by (simp add: eX_Shell_Enter_def Let_def eX_Shell_Prompt_eq)
  moreover have "shell_inv ?sh'" "shell_line ?sh' = []"
    using len by (simp_all add: shell_inv_def shell_line_def)
  ultimately show ?thesis by blast
qed

lemma eX_Shell_Character_eq:
  assumes "shell_inv sh" and "32 \<le> c" and "c \<le> 126"
  shows "\<exists>sh' con'. eX_Shell_Character c (sh, con) = Some (sh', con') \<and> shell_inv sh' \<and>
    (shell_line sh', con') = (if length (shell_line sh) < 127 then (shell_line sh @ [c], eX_PrintChar c con)
      else (shell_line sh, con))"
proof -
  let ?n = "unat (ShellLength sh)"
  have len: "length (ShellBuffer sh) = 128" "?n \<le> 127" "length (shell_line sh) = ?n"
    using assms(1) by (auto simp: shell_inv_def shell_line_def)
  show ?thesis
  proof (cases "?n < 127")
    case True
    let ?sh' = "sh\<lparr>ShellBuffer := (ShellBuffer sh)[?n := c], ShellLength := ShellLength sh + 1\<rparr>"
    have n: "unat (ShellLength sh + 1) = ?n + 1" using True by (simp add: unat_add_no_wrap)
    have "shell_line ?sh' = shell_line sh @ [c]"
      using True len unfolding shell_line_def by (simp add: n take_Suc_conv_app_nth)
    then show ?thesis
      using True len assms n by (simp add: eX_Shell_Character_def shell_inv_def word_le_nat_alt)
  next
    case False
    then show ?thesis using len assms by (simp add: eX_Shell_Character_def word_le_nat_alt)
  qed
qed

lemma eX_Shell_Backspace_eq:
  assumes "shell_inv sh"
  shows "\<exists>sh' con'. eX_Shell_Backspace (sh, con) = (sh', con') \<and> shell_inv sh' \<and>
    (shell_line sh', con') = (if shell_line sh = [] then (shell_line sh, con)
      else (butlast (shell_line sh), eX_Backspace con))"
proof (cases "ShellLength sh = 0")
  case True
  then show ?thesis using assms by (simp add: eX_Shell_Backspace_def shell_line_def)
next
  case False
  let ?n = "unat (ShellLength sh)"
  have n: "?n > 0" "unat (ShellLength sh - 1) = ?n - 1"
    using False by (simp_all add: unat_gt_0 unat_minus_one)
  have len: "length (ShellBuffer sh) = 128" "?n \<le> 127"
    using assms by (auto simp: shell_inv_def)
  have "shell_line (sh\<lparr>ShellLength := ShellLength sh - 1\<rparr>) = butlast (shell_line sh)"
    using n len by (simp add: shell_line_def butlast_take)
  moreover have "shell_line sh \<noteq> []" using n len by (auto simp: shell_line_def)
  ultimately show ?thesis
    using False assms n len
    by (auto simp: eX_Shell_Backspace_def shell_inv_def list_all_iff dest: in_set_butlastD)
qed

lemma eX_Shell_key_refines:
  assumes "shell_inv sh"
  shows "\<exists>sh' con'. eX_Shell_key (uint c) (sh, con) = Some (sh', con') \<and> shell_inv sh' \<and>
    (shell_line sh', con') = shell_step c (shell_line sh, con)"
proof -
  have key: "eX_Shell_key (uint c) s =
    (if c = 10 then eX_Shell_Enter s else if c = 8 then Some (eX_Shell_Backspace s)
     else if 32 \<le> c \<and> c \<le> 126 then eX_Shell_Character c s else Some s)" for s
    by (simp add: eX_Shell_key_def word_uint_eq_iff word_le_def)
  consider "c = 10" | "c = 8" | "32 \<le> c" "c \<le> 126" | "c \<noteq> 10" "c \<noteq> 8" "\<not> (32 \<le> c \<and> c \<le> 126)"
    by blast
  then show ?thesis
  proof cases
    case 1
    then show ?thesis unfolding key using eX_Shell_Enter_eq [OF assms, of con] by (auto simp: shell_step_def)
  next
    case 2
    then show ?thesis
      unfolding key using eX_Shell_Backspace_eq [OF assms, of con] by (auto simp: shell_step_def split: if_splits)
  next
    case 3
    moreover from this have "c \<noteq> 10" "c \<noteq> 8" by auto
    ultimately show ?thesis
      unfolding key using eX_Shell_Character_eq [OF assms, of c con] by (auto simp: shell_step_def split: if_splits)
  next
    case 4
    then show ?thesis unfolding key using assms by (auto simp: shell_step_def)
  qed
qed

definition shell_good :: "shell \<times> console \<Rightarrow> bool" where
  "shell_good s \<longleftrightarrow> shell_inv (fst s)"

lemma eX_Shell_key_step:
  assumes "shell_good s"
  shows "eX_Shell_key (uint c) s = Some (the (eX_Shell_key (uint c) s)) \<and>
    shell_good (the (eX_Shell_key (uint c) s))"
    and "shell_abs (the (eX_Shell_key (uint c) s)) = shell_step c (shell_abs s)"
proof -
  obtain sh con where s: "s = (sh, con)" by fastforce
  obtain sh' con' where "eX_Shell_key (uint c) s = Some (sh', con')" "shell_inv sh'"
      "(shell_line sh', con') = shell_step c (shell_line sh, con)"
    using eX_Shell_key_refines [of sh c con] assms by (auto simp: shell_good_def s)
  then show "eX_Shell_key (uint c) s = Some (the (eX_Shell_key (uint c) s)) \<and>
      shell_good (the (eX_Shell_key (uint c) s))"
    "shell_abs (the (eX_Shell_key (uint c) s)) = shell_step c (shell_abs s)"
    by (simp_all add: shell_good_def shell_abs_def s)
qed

lemma shell_abs_fold:
  "shell_good s \<Longrightarrow> shell_abs (fold (\<lambda>c s. the (eX_Shell_key (uint c) s)) cs s) = fold shell_step cs (shell_abs s)"
proof (induction cs arbitrary: s)
  case (Cons c cs)
  then show ?case
    using eX_Shell_key_step(1) [THEN conjunct2, OF Cons.prems, of c] by (simp add: eX_Shell_key_step(2))
qed simp

lemma eX_Shell_Update_refines:
  assumes "kb_inv k" and "shell_good s"
  shows "\<exists>k' s'. eX_Shell_Update k s = Some (k', s') \<and> kb_inv k' \<and> kb_pending k' = [] \<and>
    shell_good s' \<and> shell_abs s' = fold shell_step (kb_pending k) (shell_abs s)"
proof -
  have "\<exists>k'. eX_Shell_Update k s = Some (k', fold (\<lambda>c s. the (eX_Shell_key (uint c) s)) (kb_pending k) s) \<and>
    kb_inv k' \<and> kb_pending k' = [] \<and>
    shell_good (fold (\<lambda>c s. the (eX_Shell_key (uint c) s)) (kb_pending k) s)"
    using kb.drain [where loop = eX_Shell_Update and handle = eX_Shell_key and good = shell_good,
        OF eX_Shell_Update.simps eX_Shell_key_step(1) assms] .
  then show ?thesis using shell_abs_fold [OF assms(2)] by blast
qed

text \<open>Draining the keyboard does not touch its modifier flags.\<close>

lemma eX_Shell_Update_typed_by:
  assumes "eX_Shell_Update k s = Some (k', s')"
  shows "typed_by k' = typed_by k"
proof -
  have "\<forall>k' s'. r = (k', s') \<longrightarrow> typed_by k' = typed_by k" if "eX_Shell_Update k s = Some r" for k s r
  proof (rule eX_Shell_Update.raw_induct [OF _ that, of "\<lambda>k s r. \<forall>k' s'. r = (k', s') \<longrightarrow> typed_by k' = typed_by k"])
    fix f :: "keyboard \<Rightarrow> shell \<times> console \<Rightarrow> (keyboard \<times> shell \<times> console) option" and k s r
    assume IH: "\<And>k s r. f k s = Some r \<Longrightarrow> \<forall>k' s'. r = (k', s') \<longrightarrow> typed_by k' = typed_by k"
      and eq: "Option.bind (eX_Keyboard_GetChar k) (\<lambda>(c, k'). if c = - 1 then Some (k', s)
        else Option.bind (eX_Shell_key c s) (f k')) = Some r"
    obtain c k1 where g: "eX_Keyboard_GetChar k = Some (c, k1)" using eq by (cases "eX_Keyboard_GetChar k") auto
    have flags: "typed_by k1 = typed_by k"
      using g by (auto simp: eX_Keyboard_GetChar_def Let_def split: if_splits)
    show "\<forall>k' s'. r = (k', s') \<longrightarrow> typed_by k' = typed_by k"
    proof (cases "c = - 1")
      case True
      then show ?thesis using eq g flags by auto
    next
      case False
      then obtain s1 where "f k1 s1 = Some r" using eq g by (cases "eX_Shell_key c s") auto
      from IH [OF this] show ?thesis using flags by simp
    qed
  qed
  then show ?thesis using assms by blast
qed

section \<open>The screen shows the line\<close>

text \<open>The bottom row shows the prompt and the line, with the cursor behind them.\<close>

definition shell_visible :: "u8 list \<times> console \<Rightarrow> bool" where
  "shell_visible = (\<lambda>(line, con).
     unat (CursorX con) = 6 + length line \<and>
     (\<forall>i < 6 + length line. shows_char con i (unat (CursorY con)) ((shell_prompt @ line) ! i)))"

lemma shell_prompt_facts: "length shell_prompt = 6" "\<forall>c \<in> set shell_prompt. printable c"
  by (simp_all add: shell_prompt_def bytes_of_def)

lemma eX_PrintChar_newline [simp]:
  "CursorX (eX_PrintChar 10 con) = 0" "CursorY (eX_PrintChar 10 con) = CursorY con + 1"
  by (simp_all add: eX_PrintChar_def)

lemma prompt_visible:
  assumes "CursorX con = 0" and "text_row_fits con 6 (unat (CursorY con))"
  shows "shell_visible ([], fold eX_PrintChar shell_prompt con)"
proof -
  have "text_row_fits con (unat (CursorX con) + length shell_prompt) (unat (CursorY con))"
    using assms by (simp add: shell_prompt_facts)
  from fold_eX_PrintChar_cells [OF shell_prompt_facts(2) this] show ?thesis
    using assms(1) by (simp add: shell_visible_def shell_prompt_facts(1))
qed

lemma text_row_fits_mono:
  assumes "text_row_fits con n b" and "m \<le> n" and "a \<le> b"
  shows "text_row_fits con m a"
proof -
  have "8 * (a + 1) * stride con \<le> 8 * (b + 1) * stride con"
    using assms(3) by (intro mult_le_mono1) simp
  then show ?thesis using assms(1,2) unfolding text_row_fits_def by linarith
qed

lemma text_row_fits_cong: "Framebuffer con' = Framebuffer con \<Longrightarrow> text_row_fits con' n a = text_row_fits con n a"
  by (simp add: text_row_fits_def stride_def)

lemma text_row_fits_bound:
  assumes "text_row_fits con n a" and "0 < n"
  shows "a < 2 ^ 58"
proof -
  have "8 \<le> stride con" using assms by (simp add: text_row_fits_def)
  then have "8 * (a + 1) * 8 \<le> 8 * (a + 1) * stride con" by (intro mult_le_mono2)
  then show ?thesis using assms(1) by (simp add: text_row_fits_def)
qed

lemma CursorY_fold_eX_PrintChar:
  "CursorY (fold eX_PrintChar s con) = CursorY con + of_nat (count_list s 10)"
  by (induction s arbitrary: con) (simp_all add: eX_PrintChar_cursor)

lemma CursorX_fold_newline: "CursorX (fold eX_PrintChar (s @ [10]) con) = 0"
  by (simp add: eX_PrintChar_cursor)

lemma reply_lines:
  assumes "list_all (\<lambda>c. 32 \<le> c \<and> c \<le> 126) line"
  shows "count_list (reply line) 10 \<le> 5" and "reply line \<noteq> [] \<Longrightarrow> last (reply line) = 10"
proof -
  have "10 \<notin> set line" using assms by (auto simp: list_all_iff)
  then have "count_list line 10 = 0" by (simp add: count_list_0_iff)
  then show "count_list (reply line) 10 \<le> 5"
    by (simp add: reply_def shell_help_def bytes_of_def)
  show "reply line \<noteq> [] \<Longrightarrow> last (reply line) = 10"
    by (auto simp: reply_def shell_help_def)
qed

lemma run_command_cursor:
  assumes "list_all (\<lambda>c. 32 \<le> c \<and> c \<le> 126) line" and "CursorX con = 0" and "unat (CursorY con) < 2 ^ 60"
  shows "CursorX (run_command line con) = 0" and "unat (CursorY (run_command line con)) \<le> unat (CursorY con) + 5"
    and "Framebuffer (run_command line con) = Framebuffer con"
proof -
  show "CursorX (run_command line con) = 0"
  proof (cases "reply line = []")
    case False
    then have "reply line = butlast (reply line) @ [10]"
      using reply_lines(2) [OF assms(1) False] append_butlast_last_id by metis
    then show ?thesis by (metis run_command_def CursorX_fold_newline eX_Clear_frame(1))
  qed (simp add: run_command_def assms(2))
  let ?n = "count_list (reply line) 10"
  have n: "?n \<le> 5" using reply_lines(1) [OF assms(1)] .
  then have "unat (CursorY con + of_nat ?n) = unat (CursorY con) + ?n"
    using assms(3) by (simp add: unat_add_no_wrap unat_of_nat64)
  then show "unat (CursorY (run_command line con)) \<le> unat (CursorY con) + 5"
    using n by (simp add: run_command_def CursorY_fold_eX_PrintChar)
  show "Framebuffer (run_command line con) = Framebuffer con"
    by (simp add: run_command_def)
qed

lemma shell_visible_type:
  assumes vis: "shell_visible (line, con)" and c: "32 \<le> c" "c \<le> 126"
    and fit: "text_row_fits con (7 + length line) (unat (CursorY con))"
  shows "shell_visible (line @ [c], eX_PrintChar c con)"
proof -
  have x: "unat (CursorX con) = 6 + length line" using vis by (simp add: shell_visible_def)
  have pc: "printable c" using c by (auto simp: word_le_nat_alt word_less_nat_alt)
  have fit1: "text_row_fits con (unat (CursorX con) + 1) (unat (CursorY con))" using fit x by simp
  note one = eX_PrintChar_cells [OF pc fit1]
  have "shows_char (eX_PrintChar c con) i (unat (CursorY con)) ((shell_prompt @ line @ [c]) ! i)"
    if i: "i < 7 + length line" for i
  proof (cases "i = 6 + length line")
    case True
    then show ?thesis using one(1) x by (simp add: nth_append shell_prompt_facts)
  next
    case False
    then have i': "i < 6 + length line" using i by simp
    have "text_row_fits con (i + 1) (unat (CursorY con))"
      using fit by (rule text_row_fits_mono) (use i in auto)
    then have "same_cell con (eX_PrintChar c con) i (unat (CursorY con))"
      using False x by (intro one(2)) auto
    moreover have "shows_char con i (unat (CursorY con)) ((shell_prompt @ line) ! i)"
      using vis i' by (simp add: shell_visible_def)
    moreover have "(shell_prompt @ line @ [c]) ! i = (shell_prompt @ line) ! i"
      using i' by (auto simp: nth_append shell_prompt_facts)
    ultimately show ?thesis by (auto intro: shows_char_same_cell)
  qed
  then show ?thesis using one(3,4) x by (simp add: shell_visible_def)
qed

lemma shell_visible_erase:
  assumes vis: "shell_visible (line, con)" and ne: "line \<noteq> []"
    and fit: "text_row_fits con (6 + length line) (unat (CursorY con))"
  shows "shell_visible (butlast line, eX_Backspace con)" and "CursorY (eX_Backspace con) = CursorY con"
    and "Framebuffer (eX_Backspace con) = Framebuffer con"
proof -
  have x: "unat (CursorX con) = 6 + length line" using vis by (simp add: shell_visible_def)
  then have nz: "CursorX con \<noteq> 0" by auto
  note bs = eX_Backspace_cells [OF nz, unfolded x, OF fit]
  show y: "CursorY (eX_Backspace con) = CursorY con" by (rule bs(4))
  show fr: "Framebuffer (eX_Backspace con) = Framebuffer con" by (simp add: eX_Backspace_def Let_def)
  have "shows_char (eX_Backspace con) i (unat (CursorY con)) ((shell_prompt @ butlast line) ! i)"
    if i: "i < 5 + length line" for i
  proof -
    have "text_row_fits con (i + 1) (unat (CursorY con))"
      using fit by (rule text_row_fits_mono) (use i in auto)
    then have "same_cell con (eX_Backspace con) i (unat (CursorY con))"
      using i by (intro bs(2)) auto
    moreover have "shows_char con i (unat (CursorY con)) ((shell_prompt @ line) ! i)"
      using vis i by (simp add: shell_visible_def)
    moreover have "(shell_prompt @ butlast line) ! i = (shell_prompt @ line) ! i"
      using i by (auto simp: nth_append shell_prompt_facts nth_butlast)
    moreover have "Foreground (eX_Backspace con) = Foreground con" "Background (eX_Backspace con) = Background con"
      by (simp_all add: eX_Backspace_def Let_def)
    ultimately show ?thesis by (auto intro: shows_char_same_cell)
  qed
  then show "shell_visible (butlast line, eX_Backspace con)"
    using bs(3) y ne by (cases line) (auto simp: shell_visible_def)
qed

lemma shell_visible_enter:
  assumes "list_all (\<lambda>c. 32 \<le> c \<and> c \<le> 126) line"
    and fit: "text_row_fits con 6 (unat (CursorY con) + 6)"
  defines "con' \<equiv> fold eX_PrintChar shell_prompt (run_command line (eX_PrintChar 10 con))"
  shows "shell_visible ([], con')" and "unat (CursorY con') \<le> unat (CursorY con) + 6"
    and "Framebuffer con' = Framebuffer con"
proof -
  let ?con1 = "eX_PrintChar 10 con"
  have y: "unat (CursorY con) + 6 < 2 ^ 58" using text_row_fits_bound [OF fit] by simp
  then have y1: "unat (CursorY ?con1) = unat (CursorY con) + 1" by (simp add: unat_add_no_wrap)
  have "unat (CursorY ?con1) < 2 ^ 60" using y y1 by simp
  note run = run_command_cursor [OF assms(1) eX_PrintChar_newline(1) this]
  show fr: "Framebuffer con' = Framebuffer con" using run(3) by (simp add: con'_def)
  have "10 \<notin> set shell_prompt" using shell_prompt_facts(2) by blast
  then have "CursorY con' = CursorY (run_command line ?con1)"
    by (simp add: con'_def CursorY_fold_eX_PrintChar count_list_0_iff [THEN iffD2])
  then show "unat (CursorY con') \<le> unat (CursorY con) + 6" using run(2) y1 by simp
  have "text_row_fits (run_command line ?con1) 6 (unat (CursorY (run_command line ?con1)))"
  proof (rule text_row_fits_mono)
    show "text_row_fits (run_command line ?con1) 6 (unat (CursorY con) + 6)"
      using fit text_row_fits_cong [of "run_command line ?con1" con] run(3) by simp
    show "unat (CursorY (run_command line ?con1)) \<le> unat (CursorY con) + 6" using run(2) y1 by simp
  qed simp
  then show "shell_visible ([], con')" unfolding con'_def by (intro prompt_visible run(1))
qed

definition line_ok :: "u8 list \<Rightarrow> bool" where
  "line_ok line \<longleftrightarrow> length line \<le> 127 \<and> list_all (\<lambda>c. 32 \<le> c \<and> c \<le> 126) line"

lemma shell_step_visible:
  assumes vis: "shell_visible (line, con)" and ok: "line_ok line"
    and fit: "text_row_fits con 133 (unat (CursorY con) + 6)"
    and step: "shell_step c (line, con) = (line', con')"
  shows "shell_visible (line', con') \<and> line_ok line' \<and> Framebuffer con' = Framebuffer con \<and>
    unat (CursorY con') \<le> unat (CursorY con) + 6"
proof -
  have len: "length line \<le> 127" and chars: "list_all (\<lambda>c. 32 \<le> c \<and> c \<le> 126) line"
    using ok by (simp_all add: line_ok_def)
  have fit_n: "text_row_fits con n (unat (CursorY con))" if "n \<le> 133" for n
    using fit that by (rule text_row_fits_mono) simp
  consider "c = 10" | "c = 8" "line \<noteq> []" | "c \<noteq> 10" "c \<noteq> 8" "32 \<le> c \<and> c \<le> 126" "length line < 127"
    | "(line', con') = (line, con)"
    using step by (auto simp: shell_step_def split: if_splits)
  then show ?thesis
  proof cases
    case 1
    have "text_row_fits con 6 (unat (CursorY con) + 6)" using fit by (rule text_row_fits_mono) simp_all
    from shell_visible_enter [OF chars this] show ?thesis
      using step 1 by (auto simp: shell_step_def line_ok_def)
  next
    case 2
    have "text_row_fits con (6 + length line) (unat (CursorY con))" using len by (intro fit_n) simp
    from shell_visible_erase [OF vis 2(2) this] show ?thesis
      using step 2 ok by (auto simp: shell_step_def line_ok_def list_all_iff dest: in_set_butlastD)
  next
    case 3
    have "text_row_fits con (7 + length line) (unat (CursorY con))" using 3 by (intro fit_n) simp
    from shell_visible_type [OF vis _ _ this] show ?thesis
      using step 3 ok by (auto simp: shell_step_def line_ok_def eX_PrintChar_cursor)
  next
    case 4
    then show ?thesis using vis ok by simp
  qed
qed

lemma shell_steps_visible:
  assumes "shell_visible s" and "line_ok (fst s)"
    and "text_row_fits (snd s) 133 (unat (CursorY (snd s)) + 6 * length cs)"
  shows "shell_visible (fold shell_step cs s)"
  using assms
proof (induction cs arbitrary: s)
  case (Cons c cs)
  obtain line con line' con' where s: "s = (line, con)" and step: "shell_step c (line, con) = (line', con')"
    by (metis surj_pair)
  have "text_row_fits con 133 (unat (CursorY con) + 6)"
    using Cons.prems(3) unfolding s snd_conv by (rule text_row_fits_mono) simp_all
  note next_ok = shell_step_visible [OF Cons.prems(1,2) [unfolded s fst_conv] this step]
  have "text_row_fits con' 133 (unat (CursorY con) + 6 * length (c # cs))"
    using Cons.prems(3) text_row_fits_cong [of con' con] next_ok unfolding s by simp
  then have "text_row_fits con' 133 (unat (CursorY con') + 6 * length cs)"
    by (rule text_row_fits_mono) (use next_ok in simp_all)
  then show ?case using Cons.IH [of "(line', con')"] next_ok by (simp add: s step)
qed simp

lemma shell_inv_line_ok: "shell_inv sh \<Longrightarrow> line_ok (shell_line sh)"
  by (auto simp: shell_inv_def line_ok_def shell_line_def)

lemma eX_Shell_Init_eq:
  "eX_Shell_Init (sh, con) = Some (sh\<lparr>ShellLength := 0\<rparr>, fold eX_PrintChar shell_prompt con)"
  by (simp add: eX_Shell_Init_def eX_Shell_Prompt_eq)

section \<open>Properties\<close>

text \<open>
  C12: \<^verbatim>\<open>eX_Shell_Update\<close> always returns with the keyboard drained, never writes outside of its
  buffer, and does to the line and the screen exactly what the line editor does for the pending
  characters in order: a printable character is appended and echoed unless 127 are entered, backspace
  removes the last one, a line break runs the command and starts an empty line after a new prompt.
\<close>

theorem shell_update_refines_editor:
  assumes "kb_inv k" and "shell_inv sh"
  shows "\<exists>k' sh' con'. eX_Shell_Update k (sh, con) = Some (k', sh', con') \<and>
    kb_inv k' \<and> kb_pending k' = [] \<and> shell_inv sh' \<and>
    (shell_line sh', con') = fold shell_step (kb_pending k) (shell_line sh, con)"
  using eX_Shell_Update_refines [OF assms(1), of "(sh, con)"] assms(2)
  by (auto simp: shell_good_def shell_abs_def)

definition shell_example :: shell where
  "shell_example = \<lparr>ShellBuffer = replicate 128 0, ShellLength = 0\<rparr>"

lemma shell_example_inv: "shell_inv shell_example" and shell_example_line: "shell_line shell_example = []"
  by (simp_all add: shell_example_def shell_inv_def shell_line_def)

theorem shell_update_refines_editor_witness:
  "kb_pending kb_example = [65] \<and>
   (\<exists>k' sh' con'. eX_Shell_Update kb_example (shell_example, sample_console) = Some (k', sh', con') \<and>
     kb_pending k' = [] \<and> shell_line sh' = [65] \<and> con' = eX_PrintChar 65 sample_console)"
  using shell_update_refines_editor [OF kb_example_inv shell_example_inv, of sample_console]
  by (auto simp: kb_example_pending shell_example_line shell_step_def)

text \<open>
  While the screen has room, its bottom row always shows the prompt followed by the line being
  edited, with the cursor right behind them: initialising the shell at the start of a row
  establishes this and every update keeps it, so that backspace never erases the prompt. The row
  must hold 133 characters and an update moves down at most six rows per character.
\<close>

theorem shell_screen_shows_line:
  assumes "kb_inv k" and "shell_inv sh"
    and "text_row_fits con 133 (unat (CursorY con) + 6 * length (kb_pending k))"
  shows "(CursorX con = 0 \<longrightarrow> (\<exists>sh' con'. eX_Shell_Init (sh, con) = Some (sh', con') \<and>
      shell_inv sh' \<and> shell_visible (shell_line sh', con'))) \<and>
    (shell_visible (shell_line sh, con) \<longrightarrow> (\<exists>k' sh' con'. eX_Shell_Update k (sh, con) = Some (k', sh', con') \<and>
      shell_visible (shell_line sh', con')))"
proof (intro conjI impI)
  assume "CursorX con = 0"
  moreover have "text_row_fits con 6 (unat (CursorY con))"
    using assms(3) by (rule text_row_fits_mono) simp_all
  ultimately have "shell_visible ([], fold eX_PrintChar shell_prompt con)" by (rule prompt_visible)
  then show "\<exists>sh' con'. eX_Shell_Init (sh, con) = Some (sh', con') \<and> shell_inv sh' \<and>
      shell_visible (shell_line sh', con')"
    using assms(2) by (simp add: eX_Shell_Init_eq shell_inv_def shell_line_def)
next
  assume "shell_visible (shell_line sh, con)"
  then have "shell_visible (fold shell_step (kb_pending k) (shell_line sh, con))"
    using assms(3) shell_inv_line_ok [OF assms(2)] by (intro shell_steps_visible) simp_all
  then show "\<exists>k' sh' con'. eX_Shell_Update k (sh, con) = Some (k', sh', con') \<and>
      shell_visible (shell_line sh', con')"
    using eX_Shell_Update_refines [OF assms(1), of "(sh, con)"] assms(2)
    by (auto simp: shell_good_def shell_abs_def)
qed

text \<open>A screen of 1280 columns and 720 rows of pixels.\<close>

definition wide_console :: console where
  "wide_console = sample_console\<lparr>Framebuffer := (Framebuffer sample_console)\<lparr>fb_width := 1280, fb_height := 720, fb_pitch := 5120\<rparr>\<rparr>"

lemma wide_console_facts:
  "CursorX wide_console = 0" "CursorY wide_console = 0" "stride wide_console = 1280"
  by (simp_all add: wide_console_def sample_console_def rgb_framebuffer_def stride_def)

theorem shell_screen_shows_line_witness:
  "\<exists>sh con. eX_Shell_Init (shell_example, wide_console) = Some (sh, con) \<and> shell_visible (shell_line sh, con)"
proof -
  have "text_row_fits wide_console 133 (unat (CursorY wide_console) + 6 * length (kb_pending kb_example))"
    by (simp add: text_row_fits_def wide_console_facts kb_example_pending)
  from shell_screen_shows_line [OF kb_example_inv shell_example_inv this] show ?thesis
    by (auto simp: wide_console_facts)
qed

text \<open>
  \<^verbatim>\<open>eX_Shell_StringEquals\<close> decides equality of terminated strings and reads nothing behind their
  terminators: whatever the memory holds there, it returns whether the strings are equal.
\<close>

theorem shell_string_equals_correct:
  assumes "0 \<notin> set a" and "0 \<notin> set b"
  shows "eX_Shell_StringEquals (a @ 0 # x) (b @ 0 # y) = Some (a = b)"
  using assms by (rule eX_Shell_StringEquals_iff)

theorem shell_string_equals_correct_witness:
  "eX_Shell_StringEquals (bytes_of ''help'' @ 0 # [1, 2]) (bytes_of ''helper'' @ 0 # []) = Some False"
  using shell_string_equals_correct [of "bytes_of ''help''" "bytes_of ''helper''" "[1, 2]" "[]"] by simp

text \<open>
  The line break runs the command that was typed: after moving to a new row, \<^verbatim>\<open>help\<close> prints the
  list of commands, \<^verbatim>\<open>clear\<close> clears the screen, \<^verbatim>\<open>version\<close> prints the version, an empty line prints
  nothing, and any other line is reported verbatim as unknown, percent signs included; then the
  prompt follows and the line is empty.
\<close>

theorem shell_enter_runs_command:
  assumes "shell_inv sh"
  shows "\<exists>sh'. shell_inv sh' \<and> shell_line sh' = [] \<and>
    eX_Shell_Enter (sh, con) = Some (sh', fold eX_PrintChar shell_prompt
      (let con1 = eX_PrintChar 10 con; line = shell_line sh
       in if line = bytes_of ''clear'' then eX_Clear con1
          else if line = bytes_of ''help'' then fold eX_PrintChar shell_help con1
          else if line = bytes_of ''version'' then fold eX_PrintChar (bytes_of ''eyaX kernel beta 0.1'' @ [10]) con1
          else if line = [] then con1
          else fold eX_PrintChar (bytes_of ''Unknown command: '' @ line @ [10]) con1))"
proof -
  have "run_command line con1 =
      (if line = bytes_of ''clear'' then eX_Clear con1
       else if line = bytes_of ''help'' then fold eX_PrintChar shell_help con1
       else if line = bytes_of ''version'' then fold eX_PrintChar (bytes_of ''eyaX kernel beta 0.1'' @ [10]) con1
       else if line = [] then con1
       else fold eX_PrintChar (bytes_of ''Unknown command: '' @ line @ [10]) con1)" for line con1
    by (auto simp: run_command_def reply_def)
  then show ?thesis using eX_Shell_Enter_eq [OF assms, of con] by (auto simp: Let_def)
qed

definition shell_holding :: "u8 list \<Rightarrow> shell" where
  "shell_holding line = \<lparr>ShellBuffer = line @ replicate (128 - length line) 0, ShellLength = of_nat (length line)\<rparr>"

lemma shell_holding_ok:
  assumes "line_ok line"
  shows "shell_inv (shell_holding line)" and "shell_line (shell_holding line) = line"
proof -
  have "unat (of_nat (length line) :: u64) = length line"
    using assms by (simp add: line_ok_def unat_of_nat64)
  then show "shell_line (shell_holding line) = line" "shell_inv (shell_holding line)"
    using assms by (simp_all add: shell_holding_def shell_line_def shell_inv_def line_ok_def)
qed

theorem shell_enter_runs_command_witness:
  "\<exists>sh'. eX_Shell_Enter (shell_holding (bytes_of ''%s''), sample_console) = Some (sh', fold eX_PrintChar shell_prompt
     (fold eX_PrintChar (bytes_of ''Unknown command: '' @ bytes_of ''%s'' @ [10]) (eX_PrintChar 10 sample_console)))"
proof -
  have "line_ok (bytes_of ''%s'')" by (simp add: line_ok_def bytes_of_def)
  from shell_enter_runs_command [OF shell_holding_ok(1) [OF this], of sample_console] show ?thesis
    by (auto simp: Let_def shell_holding_ok(2) [OF \<open>line_ok (bytes_of ''%s'')\<close>])
qed

text \<open>
  The help text advertises an \<^verbatim>\<open>echo\<close> command that does not exist: every line that starts with
  \<^verbatim>\<open>echo\<close> is answered as an unknown command.
\<close>

theorem shell_echo_is_unknown:
  assumes "shell_inv sh" and "shell_line sh = bytes_of ''echo'' @ args"
  shows "sublist (bytes_of ''  echo'') shell_help \<and>
    (\<exists>sh'. eX_Shell_Enter (sh, con) = Some (sh', fold eX_PrintChar shell_prompt
      (fold eX_PrintChar (bytes_of ''Unknown command: echo'' @ args @ [10]) (eX_PrintChar 10 con))))"
proof -
  have "shell_help = concat (map (\<lambda>s. bytes_of s @ [10]) [''Available commands:'', ''  help'', ''  clear'']) @
      bytes_of ''  echo'' @ [10] @ bytes_of ''  version'' @ [10]"
    by (simp add: shell_help_def)
  then have sub: "sublist (bytes_of ''  echo'') shell_help" unfolding sublist_def by metis
  have "run_command (bytes_of ''echo'' @ args) con1 =
      fold eX_PrintChar (bytes_of ''Unknown command: echo'' @ args @ [10]) con1" for con1
    by (simp add: run_command_def reply_def bytes_of_def)
  then show ?thesis using eX_Shell_Enter_eq [OF assms(1), of con] assms(2) sub by auto
qed

theorem shell_echo_is_unknown_witness:
  "\<exists>sh'. eX_Shell_Enter (shell_holding (bytes_of ''echo hi''), sample_console) = Some (sh', fold eX_PrintChar shell_prompt
     (fold eX_PrintChar (bytes_of ''Unknown command: echo'' @ bytes_of '' hi'' @ [10]) (eX_PrintChar 10 sample_console)))"
proof -
  have ok: "line_ok (bytes_of ''echo hi'')" by (simp add: line_ok_def bytes_of_def)
  have "bytes_of ''echo hi'' = bytes_of ''echo'' @ bytes_of '' hi''" by (simp add: bytes_of_def)
  then show ?thesis
    using shell_echo_is_unknown [OF shell_holding_ok(1) [OF ok], of "bytes_of '' hi''" sample_console] shell_holding_ok(2) [OF ok]
    by auto
qed

end
