(* ===== verification/Eyax_Bitmap.thy ===== *)
theory Eyax_Bitmap
  imports Eyax_Limine
begin

text \<open>
  Bitmaps of page frames as the two page allocators use them, \<^verbatim>\<open>src/pmm.c\<close> and \<^verbatim>\<open>src/main.c\<close>: one bit per
  frame in an array of bytes. The locale states what an allocator relies on, reading back what was
  set and cleared, and holds the loops over ranges of frames.
\<close>

section \<open>Bits of bytes\<close>

type_synonym bytes = "u64 \<Rightarrow> u8"

text \<open>\<^verbatim>\<open>(uint8_t)(1u << (index % 8))\<close>, shifted as a 32-bit value and cut to a byte.\<close>

definition bit_mask :: "u64 \<Rightarrow> u8" where
  "bit_mask index = ucast (push_bit (unat (index mod 8)) 1 :: u32)"

text \<open>\<^verbatim>\<open>(uint8_t)~(1u << (index % 8))\<close>.\<close>

definition bit_unmask :: "u64 \<Rightarrow> u8" where
  "bit_unmask index = ucast (NOT (push_bit (unat (index mod 8)) 1 :: u32))"

definition page_bit :: "bytes \<Rightarrow> u64 \<Rightarrow> bool" where
  "page_bit m index \<longleftrightarrow> bit (m (index div 8)) (unat (index mod 8))"

lemma unat_mod_8: "unat (index mod 8) = unat index mod 8" for index :: u64
  by (simp add: unat_mod)

lemma bit_bit_mask: "bit (bit_mask index) n \<longleftrightarrow> n = unat (index mod 8)"
  by (auto simp: bit_mask_def bit_ucast_iff bit_exp_iff unat_mod_8)

lemma bit_bit_unmask: "bit (bit_unmask index) n \<longleftrightarrow> n < 8 \<and> n \<noteq> unat (index mod 8)"
  by (auto simp: bit_unmask_def bit_ucast_iff bit_not_iff bit_exp_iff)

lemma and_bit_mask: "b AND bit_mask index \<noteq> 0 \<longleftrightarrow> bit b (unat (index mod 8))"
proof -
  have "bit_mask index = 2 ^ unat (index mod 8)"
    by (rule bit_word_eqI) (auto simp: bit_bit_mask bit_exp_iff)
  then show ?thesis by (simp add: and_exp_eq_0_iff_not_bit)
qed

lemma page_index_eq: "index div 8 = index' div 8 \<Longrightarrow> index mod 8 = index' mod 8 \<Longrightarrow> index = index'"
  for index index' :: u64
  by (metis div_mult_mod_eq)

lemma page_bit_or:
  "page_bit (m(j div 8 := m (j div 8) OR bit_mask j)) i \<longleftrightarrow> i = j \<or> page_bit m i"
  using page_index_eq [of i j]
  by (auto simp: page_bit_def bit_or_iff bit_bit_mask word_unat_eq_iff [of "i mod 8"])

lemma page_bit_and:
  "page_bit (m(j div 8 := m (j div 8) AND bit_unmask j)) i \<longleftrightarrow> i \<noteq> j \<and> page_bit m i"
  using page_index_eq [of i j]
  by (auto simp: page_bit_def bit_and_iff bit_bit_unmask unat_mod_8 word_unat_eq_iff [of "i mod 8"])

lemma page_bit_const: "page_bit m i = page_bit m' i" if "m (i div 8) = m' (i div 8)"
  using that by (simp add: page_bit_def)

lemma page_bit_0xFF: "m (i div 8) = 0xFF \<Longrightarrow> page_bit m i"
proof -
  have "bit (0xFF :: u8) n" if "n < 8" for n
    using that bit_mask_iff [of 8 n, where 'a = u8] by (simp add: mask_eq_exp_minus_1)
  from this [of "unat (i mod 8)"] show "m (i div 8) = 0xFF \<Longrightarrow> page_bit m i"
    by (simp add: page_bit_def unat_mod_8)
qed

lemma page_bit_0: "m (i div 8) = 0 \<Longrightarrow> \<not> page_bit m i"
  by (simp add: page_bit_def)

section \<open>Rounding to pages\<close>

lemma round_up_le_iff: "(b + 4095) div 4096 \<le> p \<longleftrightarrow> b \<le> 4096 * p" for b p :: nat
  by linarith

lemma less_round_down_iff: "p < e div 4096 \<longleftrightarrow> 4096 * (p + 1) \<le> e" for e p :: nat
  using less_eq_div_iff_mult_less_eq [of 4096 "Suc p" e] by (simp add: Suc_le_eq mult.commute)

lemma less_round_up_iff: "p < (e + 4095) div 4096 \<longleftrightarrow> 4096 * p < e" for e p :: nat
  by linarith

lemma round_down_le_iff: "b div 4096 \<le> p \<longleftrightarrow> b < 4096 * (p + 1)" for b p :: nat
  using less_round_down_iff [of p b] by linarith

section \<open>What an allocator relies on\<close>

text \<open>
  The operations may fail outside of the bitmap; on valid frames they read, set and clear one bit.
  The abstraction is the set of frames whose bit is set.
\<close>

locale frame_bitmap =
  fixes getb :: "'m \<Rightarrow> u64 \<Rightarrow> bool option"
    and setb :: "'m \<Rightarrow> u64 \<Rightarrow> 'm option"
    and clearb :: "'m \<Rightarrow> u64 \<Rightarrow> 'm option"
    and valid :: "u64 \<Rightarrow> bool"
    and bits :: "'m \<Rightarrow> u64 set"
  assumes getb_bits: "valid i \<Longrightarrow> getb m i = Some (i \<in> bits m)"
    and setb_bits: "valid i \<Longrightarrow> \<exists>m'. setb m i = Some m' \<and> bits m' = insert i (bits m)"
    and clearb_bits: "valid i \<Longrightarrow> \<exists>m'. clearb m i = Some m' \<and> bits m' = bits m - {i}"
begin

lemma set_then_get:
  assumes "valid i" and "valid j"
  shows "Option.bind (setb m j) (\<lambda>m'. getb m' i) = Some (i = j \<or> i \<in> bits m)"
proof -
  obtain m' where "setb m j = Some m'" "bits m' = insert j (bits m)" using setb_bits [OF assms(2)] by blast
  then show ?thesis using getb_bits [OF assms(1), of m'] by simp
qed

lemma clear_then_get:
  assumes "valid i" and "valid j"
  shows "Option.bind (clearb m j) (\<lambda>m'. getb m' i) = Some (i \<noteq> j \<and> i \<in> bits m)"
proof -
  obtain m' where "clearb m j = Some m'" "bits m' = bits m - {j}" using clearb_bits [OF assms(2)] by blast
  then show ?thesis using getb_bits [OF assms(1), of m'] by auto
qed

text \<open>
  A loop over a range of frames that sets, or clears, the bit of each in a component of its state
  and otherwise only counts.
\<close>

lemma set_range:
  assumes "\<And>j s. a \<le> j \<Longrightarrow> j < b \<Longrightarrow> P s \<Longrightarrow> \<exists>m s'. setb (fld s) j = Some m \<and> body j s = Some s' \<and> fld s' = m \<and> P s'"
    and "\<And>j. a \<le> j \<Longrightarrow> j < b \<Longrightarrow> valid j" and "a \<le> b" and "P s"
  shows "\<exists>s'. for_range_opt a b body s = Some s' \<and> P s' \<and> bits (fld s') = bits (fld s) \<union> {a..<b}"
proof -
  have "\<exists>t. for_range_opt a b body s = Some t \<and> (P t \<and> bits (fld t) = bits (fld s) \<union> {a..<b})"
  proof (rule for_range_opt_inv [where P = "\<lambda>j t. P t \<and> bits (fld t) = bits (fld s) \<union> {a..<j}"])
    fix j t
    assume j: "a \<le> j" "j < b" and t: "P t \<and> bits (fld t) = bits (fld s) \<union> {a..<j}"
    obtain m t' where "setb (fld t) j = Some m" "body j t = Some t'" "fld t' = m" "P t'"
      using assms(1) [OF j] t by blast
    then show "\<exists>t'. body j t = Some t' \<and> (P t' \<and> bits (fld t') = bits (fld s) \<union> {a..<j + 1})"
      using setb_bits [OF assms(2) [OF j], of "fld t"] t by (auto simp: word_atLeastLessThan_Suc [OF j])
  qed (use assms in auto)
  then show ?thesis by blast
qed

end

end
