(* ===== verification/Eyax_Pmm.thy ===== *)
theory Eyax_Pmm
  imports Eyax_Bitmap
begin

text \<open>
  The physical memory manager, \<^verbatim>\<open>src/pmm.c\<close>: a bitmap of used frames and one of usable frames for the
  first 64 GiB, filled from the memory map of the boot loader. The lemmas show what
  initialisation, allocation and release do to the two bitmaps; the allocator tests the bit of used
  frames the wrong way round, and the theorems at the end say what follows.
\<close>

section \<open>State and bitmaps\<close>

definition PMM_PAGE_SIZE :: u64 where
  "PMM_PAGE_SIZE = 4096"

definition PMM_MAX_PHYS_ADDR :: u64 where
  "PMM_MAX_PHYS_ADDR = 64 * 1024 * 1024 * 1024"

definition PMM_MAX_PAGES :: u64 where
  "PMM_MAX_PAGES = PMM_MAX_PHYS_ADDR div PMM_PAGE_SIZE"

definition PMM_BITMAP_SIZE :: u64 where
  "PMM_BITMAP_SIZE = (PMM_MAX_PAGES + 7) div 8"

lemmas pmm_constants =
  PMM_PAGE_SIZE_def PMM_MAX_PHYS_ADDR_def PMM_MAX_PAGES_def PMM_BITMAP_SIZE_def

record pmm =
  pmm_bitmap :: bytes
  pmm_usable_bitmap :: bytes
  pmm_available_pages :: u64
  pmm_initialized :: bool

text \<open>An index outside of the arrays has no defined result.\<close>

definition bitmap_get :: "bytes \<Rightarrow> u64 \<Rightarrow> bool option" where
  "bitmap_get bitmap index =
     (if index div 8 < PMM_BITMAP_SIZE then Some (bitmap (index div 8) AND bit_mask index \<noteq> 0) else None)"

definition bitmap_set :: "bytes \<Rightarrow> u64 \<Rightarrow> bytes option" where
  "bitmap_set bitmap index =
     (if index div 8 < PMM_BITMAP_SIZE
      then Some (bitmap(index div 8 := bitmap (index div 8) OR bit_mask index)) else None)"

definition bitmap_clear :: "bytes \<Rightarrow> u64 \<Rightarrow> bytes option" where
  "bitmap_clear bitmap index =
     (if index div 8 < PMM_BITMAP_SIZE
      then Some (bitmap(index div 8 := bitmap (index div 8) AND bit_unmask index)) else None)"

section \<open>Initialisation\<close>

definition pmm_init_page :: "u64 \<Rightarrow> u64 \<Rightarrow> pmm \<Rightarrow> pmm option" where
  "pmm_init_page i page s = do {
     usable \<leftarrow> bitmap_set (pmm_usable_bitmap s) page;
     let s = s\<lparr>pmm_usable_bitmap := usable\<rparr>;
     if page = 0 then Some s
     else do {
       used \<leftarrow> bitmap_get (pmm_bitmap s) i;
       if \<not> used then do {
         bitmap \<leftarrow> bitmap_clear (pmm_bitmap s) page;
         Some (s\<lparr>pmm_bitmap := bitmap, pmm_available_pages := pmm_available_pages s + 1\<rparr>)
       } else Some s
     }
   }"

definition pmm_init_entry :: "u64 \<Rightarrow> limine_memmap_entry \<Rightarrow> pmm \<Rightarrow> pmm option" where
  "pmm_init_entry i entry s =
     (if me_type entry \<noteq> LIMINE_MEMMAP_USABLE then Some s
      else if me_base entry \<ge> PMM_MAX_PHYS_ADDR then Some s
      else
        let end_addr = (if me_length entry > PMM_MAX_PHYS_ADDR - me_base entry then PMM_MAX_PHYS_ADDR
                        else me_base entry + me_length entry);
            first_page = (me_base entry + PMM_PAGE_SIZE - 1) div PMM_PAGE_SIZE;
            last_page = end_addr div PMM_PAGE_SIZE
        in if first_page \<ge> PMM_MAX_PAGES then Some s
           else let last_page = (if last_page > PMM_MAX_PAGES then PMM_MAX_PAGES else last_page)
             in for_range_opt first_page last_page (pmm_init_page i) s)"

definition pmm_init :: "limine_memmap_response option \<Rightarrow> pmm \<Rightarrow> (bool \<times> pmm) option" where
  "pmm_init request_response s =
     (case request_response of
        None \<Rightarrow> Some (False, s)
      | Some response \<Rightarrow>
          if entries response = None then Some (False, s)
          else do {
            let s = for_range 0 PMM_BITMAP_SIZE (\<lambda>i s.
                s\<lparr>pmm_bitmap := (pmm_bitmap s)(i := 0xFF),
                  pmm_usable_bitmap := (pmm_usable_bitmap s)(i := 0)\<rparr>) s;
            let s = s\<lparr>pmm_available_pages := 0, pmm_initialized := False\<rparr>;
            s \<leftarrow> for_range_opt 0 (entry_count response) (\<lambda>i s. do {
                entry \<leftarrow> memmap_entry response i;
                pmm_init_entry i entry s
              }) s;
            Some (True, s\<lparr>pmm_initialized := True\<rparr>)
          })"

section \<open>Allocation and release\<close>

function pmm_alloc_loop :: "u64 \<Rightarrow> pmm \<Rightarrow> (u64 \<times> pmm) option" where
  "pmm_alloc_loop i s =
     (if i < PMM_MAX_PAGES then do {
        usable \<leftarrow> bitmap_get (pmm_usable_bitmap s) i;
        if \<not> usable then pmm_alloc_loop (i + 1) s
        else do {
          used \<leftarrow> bitmap_get (pmm_bitmap s) i;
          if used then do {
            bitmap \<leftarrow> bitmap_set (pmm_bitmap s) i;
            Some (i * PMM_PAGE_SIZE,
                  s\<lparr>pmm_bitmap := bitmap, pmm_available_pages := pmm_available_pages s - 1\<rparr>)
          } else pmm_alloc_loop (i + 1) s
        }
      } else Some (0, s))"
  by pat_completeness auto

termination
  by (relation "measure (\<lambda>(i, s). unat PMM_MAX_PAGES - unat i)") (auto simp: unat_Suc_less word_less_nat_alt)

declare pmm_alloc_loop.simps [simp del]

definition pmm_alloc_page :: "pmm \<Rightarrow> (u64 \<times> pmm) option" where
  "pmm_alloc_page s = (if \<not> pmm_initialized s then Some (0, s) else pmm_alloc_loop 1 s)"

definition pmm_free_page :: "u64 \<Rightarrow> pmm \<Rightarrow> (bool \<times> pmm) option" where
  "pmm_free_page address s =
     (if \<not> pmm_initialized s \<or> address = 0 then Some (False, s)
      else if address mod PMM_PAGE_SIZE \<noteq> 0 then Some (False, s)
      else let page = address div PMM_PAGE_SIZE in
        if page \<ge> PMM_MAX_PAGES then Some (False, s)
        else do {
          usable \<leftarrow> bitmap_get (pmm_usable_bitmap s) page;
          if \<not> usable then Some (False, s)
          else do {
            used \<leftarrow> bitmap_get (pmm_bitmap s) page;
            if \<not> used then Some (False, s)
            else do {
              bitmap \<leftarrow> bitmap_clear (pmm_bitmap s) page;
              Some (True, s\<lparr>pmm_bitmap := bitmap, pmm_available_pages := pmm_available_pages s + 1\<rparr>)
            }
          }
        })"

definition pmm_free_pages :: "pmm \<Rightarrow> u64" where
  "pmm_free_pages s = (if \<not> pmm_initialized s then 0 else pmm_available_pages s)"

section \<open>The bitmaps\<close>

definition frame_ok :: "u64 \<Rightarrow> bool" where
  "frame_ok page \<longleftrightarrow> page < PMM_MAX_PAGES"

definition frames :: "bytes \<Rightarrow> u64 set" where
  "frames m = {page. page_bit m page}"

lemma frame_ok_index: "frame_ok page \<Longrightarrow> page div 8 < PMM_BITMAP_SIZE"
  by (simp add: frame_ok_def pmm_constants word_less_nat_alt unat_div less_mult_imp_div_less)

interpretation pb: frame_bitmap bitmap_get bitmap_set bitmap_clear frame_ok frames
proof (unfold_locales, goal_cases)
  case (1 i m)
  then show ?case by (simp add: bitmap_get_def frame_ok_index and_bit_mask frames_def page_bit_def)
next
  case (2 i m)
  then show ?case by (auto simp: bitmap_set_def frame_ok_index frames_def page_bit_or)
next
  case (3 i m)
  then show ?case by (auto simp: bitmap_clear_def frame_ok_index frames_def page_bit_and)
qed

definition usable_frames :: "pmm \<Rightarrow> u64 set" where
  "usable_frames s = {page. frame_ok page \<and> page \<in> frames (pmm_usable_bitmap s)}"

definition used_frames :: "pmm \<Rightarrow> u64 set" where
  "used_frames s = {page. frame_ok page \<and> page \<in> frames (pmm_bitmap s)}"

lemma unat_PMM_MAX_PAGES [simp]: "unat PMM_MAX_PAGES = 2 ^ 24"
  by (simp add: pmm_constants)

lemma unat_PMM_MAX_PHYS_ADDR: "unat PMM_MAX_PHYS_ADDR = 2 ^ 36"
  by (simp add: pmm_constants)

lemma frame_ok_iff: "frame_ok page \<longleftrightarrow> unat page < 2 ^ 24"
  by (simp add: frame_ok_def word_less_nat_alt)

section \<open>Initialisation marks the usable frames\<close>

text \<open>The whole frames below 64 GiB that lie inside of a usable entry of the memory map.\<close>

definition entry_frames :: "limine_memmap_entry \<Rightarrow> u64 set" where
  "entry_frames e = {page. me_type e = LIMINE_MEMMAP_USABLE \<and> frame_ok page \<and>
     unat (me_base e) \<le> 4096 * unat page \<and> 4096 * (unat page + 1) \<le> unat (me_base e) + unat (me_length e)}"

text \<open>
  The page loop asks for the bit of the index of the entry instead of the one of the page, whenever the page
  is not page zero. From the entry with the index of the last bit on, this reads outside of the bitmap.
\<close>

definition entry_reads :: "limine_memmap_entry \<Rightarrow> bool" where
  "entry_reads e \<longleftrightarrow> (\<exists>page \<in> entry_frames e. page \<noteq> 0)"

lemma entry_reads_nat: "entry_reads e \<longleftrightarrow> me_type e = LIMINE_MEMMAP_USABLE \<and> (\<exists>page. 1 \<le> page \<and> page < 2 ^ 24 \<and>
    unat (me_base e) \<le> 4096 * page \<and> 4096 * (page + 1) \<le> unat (me_base e) + unat (me_length e))"
  (is "_ \<longleftrightarrow> ?usable \<and> (\<exists>page. ?frame page)")
proof
  assume "entry_reads e"
  then obtain page where "page \<in> entry_frames e" "page \<noteq> 0" by (auto simp: entry_reads_def)
  then have "?usable" "?frame (unat page)"
    using unat_gt_0 [of page] by (simp_all add: entry_frames_def frame_ok_iff Suc_le_eq)
  then show "?usable \<and> (\<exists>page. ?frame page)" by blast
next
  assume "?usable \<and> (\<exists>page. ?frame page)"
  then obtain page where page: "?usable" "?frame page" by blast
  then have u: "unat (word_of_nat page :: u64) = page" by (intro unat_of_nat64) simp
  then have "word_of_nat page \<noteq> (0 :: u64)" using page(2) by (auto simp: word_unat_eq_iff)
  moreover have "word_of_nat page \<in> entry_frames e" using page u by (simp add: entry_frames_def frame_ok_iff)
  ultimately show "entry_reads e" by (auto simp: entry_reads_def)
qed

text \<open>As long as every frame is marked used, the page loop only marks frames as usable.\<close>

definition all_used :: "pmm \<Rightarrow> bool" where
  "all_used s \<longleftrightarrow> used_frames s = {page. frame_ok page} \<and> pmm_available_pages s = 0 \<and> \<not> pmm_initialized s"

lemma pmm_init_page_step:
  assumes "frame_ok i \<or> page = 0" and "frame_ok page" and "all_used s"
  shows "\<exists>m s'. bitmap_set (pmm_usable_bitmap s) page = Some m \<and> pmm_init_page i page s = Some s' \<and>
    pmm_usable_bitmap s' = m \<and> all_used s'"
proof -
  obtain m where m: "bitmap_set (pmm_usable_bitmap s) page = Some m" using pb.setb_bits [OF assms(2)] by blast
  have "bitmap_get (pmm_bitmap s) i = Some True" if "frame_ok i"
    using pb.getb_bits [OF that] that assms(3) by (auto simp: all_used_def used_frames_def)
  then show ?thesis using m assms(1,3) by (auto simp: pmm_init_page_def Let_def all_used_def used_frames_def)
qed

lemma pmm_init_page_outside:
  assumes "\<not> frame_ok i" and "page \<noteq> 0"
  shows "pmm_init_page i page s = None"
proof -
  have "\<not> i div 8 < PMM_BITMAP_SIZE"
    using assms(1) by (simp add: frame_ok_iff pmm_constants word_less_nat_alt unat_div)
  then show ?thesis using assms(2) by (simp add: pmm_init_page_def bitmap_get_def Let_def bind_eq_None_conv)
qed

text \<open>The end of an entry, cut at 64 GiB, and the range of pages of the page loop.\<close>

definition entry_end :: "limine_memmap_entry \<Rightarrow> u64" where
  "entry_end e = (if me_length e > PMM_MAX_PHYS_ADDR - me_base e then PMM_MAX_PHYS_ADDR else me_base e + me_length e)"

definition entry_first :: "limine_memmap_entry \<Rightarrow> u64" where
  "entry_first e = (me_base e + PMM_PAGE_SIZE - 1) div PMM_PAGE_SIZE"

definition entry_last :: "limine_memmap_entry \<Rightarrow> u64" where
  "entry_last e = (if entry_end e div PMM_PAGE_SIZE > PMM_MAX_PAGES then PMM_MAX_PAGES else entry_end e div PMM_PAGE_SIZE)"

lemma entry_page_range:
  assumes "me_type e = LIMINE_MEMMAP_USABLE" and "me_base e < PMM_MAX_PHYS_ADDR"
  shows "{entry_first e..<entry_last e} = entry_frames e"
proof -
  let ?b = "unat (me_base e)" and ?l = "unat (me_length e)"
  have b: "?b < 2 ^ 36" using assms(2) by (simp add: word_less_nat_alt unat_PMM_MAX_PHYS_ADDR)
  have "unat (PMM_MAX_PHYS_ADDR - me_base e) = 2 ^ 36 - ?b"
    using b unat_sub [of "me_base e" PMM_MAX_PHYS_ADDR] by (simp add: word_le_nat_alt unat_PMM_MAX_PHYS_ADDR)
  then have end_addr: "unat (entry_end e) = min (2 ^ 36) (?b + ?l)"
    using b by (auto simp: entry_end_def word_less_nat_alt unat_PMM_MAX_PHYS_ADDR unat_add_no_wrap not_less min_def)
  then have lst: "unat (entry_last e) = min (2 ^ 36) (?b + ?l) div 4096"
    by (auto simp: entry_last_def word_less_nat_alt PMM_PAGE_SIZE_def unat_div)
  have "unat (me_base e + PMM_PAGE_SIZE - 1) = ?b + 4095"
    using b by (simp add: PMM_PAGE_SIZE_def unat_add_no_wrap)
  then have first: "unat (entry_first e) = (?b + 4095) div 4096" by (simp add: entry_first_def PMM_PAGE_SIZE_def unat_div)
  show ?thesis
    using assms(1) by (auto simp: entry_frames_def frame_ok_iff word_le_nat_alt word_less_nat_alt first lst
        round_up_le_iff less_round_down_iff)
qed

lemma pmm_init_entry_pages:
  assumes i: "frame_ok i \<or> {first..<lst} \<subseteq> {0}" and used: "all_used s" and le: "first < lst" and bound: "lst \<le> PMM_MAX_PAGES"
  shows "\<exists>s'. for_range_opt first lst (pmm_init_page i) s = Some s' \<and> all_used s' \<and>
    frames (pmm_usable_bitmap s') = frames (pmm_usable_bitmap s) \<union> {first..<lst}"
proof (rule pb.set_range)
  show "frame_ok j" if "j < lst" for j using that bound by (simp add: frame_ok_def)
  then show "\<exists>m s'. bitmap_set (pmm_usable_bitmap t) j = Some m \<and> pmm_init_page i j t = Some s' \<and>
      pmm_usable_bitmap s' = m \<and> all_used s'" if "first \<le> j" "j < lst" "all_used t" for j t
    using that i by (intro pmm_init_page_step) auto
qed (use le used in simp_all)

lemma pmm_init_entry_eq:
  assumes "me_type e = LIMINE_MEMMAP_USABLE" and "me_base e < PMM_MAX_PHYS_ADDR"
  shows "pmm_init_entry i e s =
    (if entry_first e \<ge> PMM_MAX_PAGES then Some s else for_range_opt (entry_first e) (entry_last e) (pmm_init_page i) s)"
  using assms by (simp add: pmm_init_entry_def Let_def entry_first_def entry_last_def entry_end_def not_le [symmetric])

lemma entry_frames_range:
  assumes "page \<in> entry_frames e"
  shows "me_type e = LIMINE_MEMMAP_USABLE" and "me_base e < PMM_MAX_PHYS_ADDR"
  using assms by (simp_all add: entry_frames_def frame_ok_iff word_less_nat_alt unat_PMM_MAX_PHYS_ADDR)

lemma pmm_init_entry_step:
  assumes i: "frame_ok i \<or> \<not> entry_reads e" and used: "all_used s"
  shows "\<exists>s'. pmm_init_entry i e s = Some s' \<and> all_used s' \<and>
    frames (pmm_usable_bitmap s') = frames (pmm_usable_bitmap s) \<union> entry_frames e"
proof (cases "me_type e = LIMINE_MEMMAP_USABLE \<and> me_base e < PMM_MAX_PHYS_ADDR")
  case False
  then have "entry_frames e = {}" using entry_frames_range by blast
  then show ?thesis using False used by (auto simp: pmm_init_entry_def not_le)
next
  case True
  let ?first = "entry_first e" and ?last = "entry_last e"
  note eq = pmm_init_entry_eq [OF True [THEN conjunct1] True [THEN conjunct2]]
  have range: "{?first..<?last} = entry_frames e" using True by (intro entry_page_range) simp_all
  have bound: "?last \<le> PMM_MAX_PAGES" by (simp add: entry_last_def not_less)
  show ?thesis
  proof (cases "?first < ?last")
    case True
    then have "?first < PMM_MAX_PAGES" using bound by (rule less_le_trans)
    moreover have "frame_ok i \<or> {?first..<?last} \<subseteq> {0}" using i unfolding range entry_reads_def by blast
    ultimately show ?thesis using pmm_init_entry_pages [OF _ used True bound] by (simp add: eq range not_le [symmetric])
  next
    case False
    then have "entry_frames e = {}" using range by simp
    then show ?thesis using False used bound by (simp add: eq)
  qed
qed

lemma pmm_init_entry_outside:
  assumes i: "\<not> frame_ok i" and reads: "entry_reads e"
  shows "pmm_init_entry i e s = None"
proof -
  obtain page where page: "page \<in> entry_frames e" "page \<noteq> 0" using reads by (auto simp: entry_reads_def)
  note usable = entry_frames_range [OF page(1)]
  have range: "entry_first e \<le> page" "page < entry_last e" using page(1) entry_page_range [OF usable] by auto
  have "page < PMM_MAX_PAGES" using page(1) by (simp add: entry_frames_def frame_ok_def)
  with range(1) have "entry_first e < PMM_MAX_PAGES" by (rule le_less_trans)
  moreover have "for_range_opt (entry_first e) (entry_last e) (pmm_init_page i) s = None"
    using range pmm_init_page_outside [OF i page(2)] by (rule for_range_opt_none)
  ultimately show ?thesis by (simp add: pmm_init_entry_eq [OF usable])
qed

lemma fill_step:
  fixes j n :: u64
  assumes "j < n"
  shows "(\<lambda>i. if i < j then v else f i)(j := v) = (\<lambda>i. if i < j + 1 then v else f i)"
proof -
  have "i < j + 1 \<longleftrightarrow> i = j \<or> i < j" for i
    using unat_Suc_less [OF assms] by (auto simp: word_less_nat_alt word_unat_eq_iff)
  then show ?thesis by (simp add: fun_eq_iff)
qed

lemma pmm_fill_eq:
  "for_range 0 PMM_BITMAP_SIZE (\<lambda>i s. s\<lparr>pmm_bitmap := (pmm_bitmap s)(i := 0xFF),
       pmm_usable_bitmap := (pmm_usable_bitmap s)(i := 0)\<rparr>) s =
   s\<lparr>pmm_bitmap := (\<lambda>i. if i < PMM_BITMAP_SIZE then 0xFF else pmm_bitmap s i),
     pmm_usable_bitmap := (\<lambda>i. if i < PMM_BITMAP_SIZE then 0 else pmm_usable_bitmap s i)\<rparr>"
proof (rule for_range_inv [where P = "\<lambda>j t. t = s\<lparr>pmm_bitmap := (\<lambda>i. if i < j then 0xFF else pmm_bitmap s i),
     pmm_usable_bitmap := (\<lambda>i. if i < j then 0 else pmm_usable_bitmap s i)\<rparr>"])
  fix j t
  assume j: "0 \<le> j" "j < PMM_BITMAP_SIZE"
    and t: "t = s\<lparr>pmm_bitmap := (\<lambda>i. if i < j then 0xFF else pmm_bitmap s i),
      pmm_usable_bitmap := (\<lambda>i. if i < j then 0 else pmm_usable_bitmap s i)\<rparr>"
  show "t\<lparr>pmm_bitmap := (pmm_bitmap t)(j := 0xFF), pmm_usable_bitmap := (pmm_usable_bitmap t)(j := 0)\<rparr> =
      s\<lparr>pmm_bitmap := (\<lambda>i. if i < j + 1 then 0xFF else pmm_bitmap s i),
        pmm_usable_bitmap := (\<lambda>i. if i < j + 1 then 0 else pmm_usable_bitmap s i)\<rparr>"
    unfolding t by (simp add: fill_step [OF j(2)])
qed simp_all

text \<open>The frames of a memory map.\<close>

definition map_frames :: "limine_memmap_entry list \<Rightarrow> u64 set" where
  "map_frames es = \<Union> (entry_frames ` set es)"

lemma entry_frames_ok: "entry_frames e \<subseteq> {page. frame_ok page}"
  by (auto simp: entry_frames_def)

text \<open>The entries of a memory map for which the bit of the index is read inside of the bitmap.\<close>

definition reads_inside :: "limine_memmap_entry list \<Rightarrow> bool" where
  "reads_inside es \<longleftrightarrow> (\<forall>i < length es. 2 ^ 24 \<le> i \<longrightarrow> \<not> entry_reads (es ! i))"

lemma reads_inside_short: "length es \<le> 2 ^ 24 \<Longrightarrow> reads_inside es"
  by (simp add: reads_inside_def)

lemma pmm_init_entries:
  assumes ok: "memmap_ok response es" and len: "reads_inside es" and used: "all_used s"
  shows "\<exists>s'. for_range_opt 0 (entry_count response) (\<lambda>i s. do {
        entry \<leftarrow> memmap_entry response i;
        pmm_init_entry i entry s
      }) s = Some s' \<and> all_used s' \<and>
    frames (pmm_usable_bitmap s') = frames (pmm_usable_bitmap s) \<union> map_frames es"
proof -
  have count: "unat (entry_count response) = length es" using ok by (simp add: memmap_ok_def)
  let ?P = "\<lambda>j t. all_used t \<and>
    frames (pmm_usable_bitmap t) = frames (pmm_usable_bitmap s) \<union> map_frames (take (unat j) es)"
  have "\<exists>t. for_range_opt 0 (entry_count response) (\<lambda>i s. do {
        entry \<leftarrow> memmap_entry response i;
        pmm_init_entry i entry s
      }) s = Some t \<and> ?P (entry_count response) t"
  proof (rule for_range_opt_inv)
    show "?P 0 s" using used by (simp add: map_frames_def)
  next
    fix j t
    assume j: "0 \<le> j" "j < entry_count response" and t: "?P j t"
    have jn: "unat j < length es" using j count by (simp add: word_less_nat_alt)
    then have "frame_ok j \<or> \<not> entry_reads (es ! unat j)" using len by (auto simp: frame_ok_iff reads_inside_def not_less)
    from pmm_init_entry_step [OF this, of t] t obtain t' where
      t': "pmm_init_entry j (es ! unat j) t = Some t'" "all_used t'"
        "frames (pmm_usable_bitmap t') = frames (pmm_usable_bitmap t) \<union> entry_frames (es ! unat j)"
      by blast
    have "unat (j + 1) = Suc (unat j)" using j(2) by (rule unat_Suc_less)
    then have "map_frames (take (unat (j + 1)) es) = map_frames (take (unat j) es) \<union> entry_frames (es ! unat j)"
      using jn by (simp add: map_frames_def take_Suc_conv_app_nth Un_commute)
    then show "\<exists>t'. Option.bind (memmap_entry response j) (\<lambda>entry. pmm_init_entry j entry t) = Some t' \<and> ?P (j + 1) t'"
      using t t' memmap_ok_entry [OF ok j(2)] by auto
  qed simp
  then show ?thesis using count by simp
qed

lemma pmm_init_inside:
  assumes ok: "memmap_ok response es" and len: "reads_inside es"
  shows "\<exists>s'. pmm_init (Some response) s = Some (True, s') \<and> pmm_initialized s' \<and>
    usable_frames s' = map_frames es \<and> used_frames s' = {page. frame_ok page} \<and> pmm_available_pages s' = 0"
proof -
  let ?s0 = "s\<lparr>pmm_bitmap := (\<lambda>i. if i < PMM_BITMAP_SIZE then 0xFF else pmm_bitmap s i),
     pmm_usable_bitmap := (\<lambda>i. if i < PMM_BITMAP_SIZE then 0 else pmm_usable_bitmap s i),
     pmm_available_pages := 0, pmm_initialized := False\<rparr>"
  have "used_frames ?s0 = {page. frame_ok page}"
    by (auto simp: used_frames_def frames_def frame_ok_index intro!: page_bit_0xFF)
  then have used: "all_used ?s0" by (simp add: all_used_def)
  have none: "usable_frames ?s0 = {}"
    by (auto simp: usable_frames_def frames_def page_bit_def frame_ok_index)
  obtain s' where s': "for_range_opt 0 (entry_count response) (\<lambda>i s. do {
        entry \<leftarrow> memmap_entry response i;
        pmm_init_entry i entry s
      }) ?s0 = Some s'" "all_used s'"
    "frames (pmm_usable_bitmap s') = frames (pmm_usable_bitmap ?s0) \<union> map_frames es"
    using pmm_init_entries [OF ok len used] by blast
  have "entries response \<noteq> None" using ok by (simp add: memmap_ok_def)
  then have "pmm_init (Some response) s = Some (True, s'\<lparr>pmm_initialized := True\<rparr>)"
    using s'(1) by (simp add: pmm_init_def pmm_fill_eq Let_def)
  moreover have "map_frames es \<subseteq> {page. frame_ok page}"
    using entry_frames_ok by (auto simp: map_frames_def)
  then have "usable_frames s' = map_frames es"
    using s'(3) none by (auto simp: usable_frames_def)
  ultimately show ?thesis
    using s'(2) by (simp add: all_used_def used_frames_def usable_frames_def)
qed

lemmas pmm_init_eq = pmm_init_inside [OF _ reads_inside_short]

text \<open>Otherwise there is no defined result.\<close>

lemma pmm_init_outside:
  assumes ok: "memmap_ok response es" and "\<not> reads_inside es"
  shows "pmm_init (Some response) s = None"
proof -
  obtain i where i: "i < length es" "2 ^ 24 \<le> i" "entry_reads (es ! i)" using assms(2) by (auto simp: reads_inside_def)
  let ?i = "word_of_nat i :: u64"
  have count: "unat (entry_count response) = length es" using ok by (simp add: memmap_ok_def)
  then have "i < 2 ^ 64" using i(1) unat_lt64 [of "entry_count response"] by (simp del: unat_lt64)
  then have u: "unat ?i = i" by (rule unat_of_nat64)
  then have lt: "?i < entry_count response" and no: "\<not> frame_ok ?i"
    using i(1,2) count by (simp_all add: word_less_nat_alt frame_ok_iff)
  have "for_range_opt 0 (entry_count response) (\<lambda>i s. do {
        entry \<leftarrow> memmap_entry response i;
        pmm_init_entry i entry s
      }) t = None" for t
    by (rule for_range_opt_none [OF _ lt])
      (simp_all add: memmap_ok_entry [OF ok lt] u pmm_init_entry_outside [OF no i(3)])
  moreover have "entries response \<noteq> None" using ok by (simp add: memmap_ok_def)
  ultimately show ?thesis by (simp add: pmm_init_def Let_def)
qed

lemma pmm_init_result:
  assumes "memmap_ok response es" and "pmm_init (Some response) s = Some (ok, s')"
  shows "ok \<and> pmm_initialized s' \<and> usable_frames s' = map_frames es \<and> used_frames s' = {page. frame_ok page} \<and>
    pmm_available_pages s' = 0"
  using pmm_init_inside [OF assms(1), of s] pmm_init_outside [OF assms(1), of s] assms(2) by (cases "reads_inside es") auto

section \<open>Allocation and release on the bitmaps\<close>

text \<open>The frames among which \<^verbatim>\<open>pmm_alloc_page\<close> chooses: usable ones whose used bit is set.\<close>

definition alloc_candidates :: "pmm \<Rightarrow> u64 set" where
  "alloc_candidates s = usable_frames s \<inter> used_frames s"

lemma bitmap_set_again:
  assumes "frame_ok i" and "i \<in> frames m"
  shows "bitmap_set m i = Some m"
proof -
  have "m (i div 8) OR bit_mask i = m (i div 8)"
    using assms(2) by (intro bit_word_eqI) (auto simp: bit_or_iff bit_bit_mask frames_def page_bit_def)
  then show ?thesis using assms(1) by (simp add: bitmap_set_def frame_ok_index fun_upd_idem)
qed

lemma pmm_alloc_loop_cases:
  assumes "i < PMM_MAX_PAGES"
  shows "pmm_alloc_loop i s = (if i \<in> alloc_candidates s
    then Some (i * PMM_PAGE_SIZE, s\<lparr>pmm_available_pages := pmm_available_pages s - 1\<rparr>)
    else pmm_alloc_loop (i + 1) s)"
proof -
  have i: "frame_ok i" using assms by (simp add: frame_ok_def)
  have cand: "i \<in> alloc_candidates s \<longleftrightarrow> i \<in> frames (pmm_usable_bitmap s) \<and> i \<in> frames (pmm_bitmap s)"
    using i by (simp add: alloc_candidates_def usable_frames_def used_frames_def)
  show ?thesis
    using assms by (subst pmm_alloc_loop.simps) (simp add: pb.getb_bits [OF i] bitmap_set_again [OF i] cand)
qed

lemma pmm_alloc_loop_eq:
  assumes "i \<le> PMM_MAX_PAGES"
  shows "(\<forall>p \<in> alloc_candidates s. p < i) \<and> pmm_alloc_loop i s = Some (0, s) \<or>
    (\<exists>p \<in> alloc_candidates s. i \<le> p \<and> (\<forall>q \<in> alloc_candidates s. i \<le> q \<longrightarrow> p \<le> q) \<and>
      pmm_alloc_loop i s = Some (p * PMM_PAGE_SIZE, s\<lparr>pmm_available_pages := pmm_available_pages s - 1\<rparr>))"
  using assms
proof (induction i s rule: pmm_alloc_loop.induct)
  case (1 i s)
  have cand: "p < PMM_MAX_PAGES" if "p \<in> alloc_candidates s" for p
    using that by (simp add: alloc_candidates_def usable_frames_def frame_ok_def)
  show ?case
  proof (cases "i < PMM_MAX_PAGES")
    case False
    then have "i = PMM_MAX_PAGES" using "1.prems" by simp
    then show ?thesis using cand by (subst (1) pmm_alloc_loop.simps) simp
  next
    case True
    note step = pmm_alloc_loop_cases [OF True, of s]
    have le: "i + 1 \<le> q \<longleftrightarrow> i \<le> q \<and> q \<noteq> i" for q
      using unat_Suc_less [OF True] by (auto simp: word_le_nat_alt word_unat_eq_iff)
    show ?thesis
    proof (cases "i \<in> alloc_candidates s")
      case cand: True
      then show ?thesis by (intro disjI2 bexI [of _ i]) (simp_all add: step)
    next
      case no: False
      have i: "frame_ok i" using True by (simp add: frame_ok_def)
      have IH: "(\<forall>p \<in> alloc_candidates s. p < i + 1) \<and> pmm_alloc_loop (i + 1) s = Some (0, s) \<or>
        (\<exists>p \<in> alloc_candidates s. i + 1 \<le> p \<and> (\<forall>q \<in> alloc_candidates s. i + 1 \<le> q \<longrightarrow> p \<le> q) \<and>
          pmm_alloc_loop (i + 1) s = Some (p * PMM_PAGE_SIZE, s\<lparr>pmm_available_pages := pmm_available_pages s - 1\<rparr>))"
      proof (cases "i \<in> frames (pmm_usable_bitmap s)")
        case True
        then have "bitmap_get (pmm_bitmap s) i = Some False"
          using no i by (simp add: pb.getb_bits alloc_candidates_def usable_frames_def used_frames_def)
        then show ?thesis
          using "1.IH"(2) [OF \<open>i < PMM_MAX_PAGES\<close>] True i pb.getb_bits [OF i] word_Suc_le_of_less [OF \<open>i < PMM_MAX_PAGES\<close>]
          by simp
      next
        case False
        then show ?thesis
          using "1.IH"(1) [OF \<open>i < PMM_MAX_PAGES\<close>] i pb.getb_bits [OF i] word_Suc_le_of_less [OF \<open>i < PMM_MAX_PAGES\<close>]
          by simp
      qed
      have lt: "q < i + 1 \<longleftrightarrow> q < i \<or> q = i" for q using le [of q] by (auto simp: not_le [symmetric])
      show ?thesis using IH no unfolding step by (auto simp: le lt)
    qed
  qed
qed

lemma unat_frame_address: "frame_ok p \<Longrightarrow> unat (p * PMM_PAGE_SIZE) = 4096 * unat p"
  by (simp add: frame_ok_iff PMM_PAGE_SIZE_def unat_mult_no_wrap)

lemma frame_address_inject:
  "frame_ok p \<Longrightarrow> frame_ok q \<Longrightarrow> p * PMM_PAGE_SIZE = q * PMM_PAGE_SIZE \<longleftrightarrow> p = q"
  by (auto simp: word_unat_eq_iff unat_frame_address)

lemma alloc_candidates_ok: "p \<in> alloc_candidates s \<Longrightarrow> frame_ok p"
  by (simp add: alloc_candidates_def usable_frames_def)

lemma pmm_alloc_page_eq:
  assumes "pmm_initialized s"
  shows "alloc_candidates s \<subseteq> {0} \<and> pmm_alloc_page s = Some (0, s) \<or>
    (\<exists>p \<in> alloc_candidates s. p \<noteq> 0 \<and> (\<forall>q \<in> alloc_candidates s. q \<noteq> 0 \<longrightarrow> p \<le> q) \<and>
      pmm_alloc_page s = Some (p * PMM_PAGE_SIZE, s\<lparr>pmm_available_pages := pmm_available_pages s - 1\<rparr>))"
proof -
  have "1 \<le> PMM_MAX_PAGES" by (simp add: pmm_constants)
  moreover have "1 \<le> p \<longleftrightarrow> p \<noteq> 0" "p < 1 \<longleftrightarrow> p = 0" for p :: u64
    by (auto simp: word_le_nat_alt word_less_nat_alt word_unat_eq_iff)
  ultimately show ?thesis
    using pmm_alloc_loop_eq [of 1 s] assms by (auto simp: pmm_alloc_page_def)
qed

text \<open>An address is releasable when it is that of a usable frame whose used bit is set.\<close>

definition releasable :: "pmm \<Rightarrow> u64 \<Rightarrow> bool" where
  "releasable s address \<longleftrightarrow> pmm_initialized s \<and> address \<noteq> 0 \<and>
     (\<exists>p \<in> alloc_candidates s. address = p * PMM_PAGE_SIZE)"

lemma frame_address_div:
  assumes "frame_ok p"
  shows "(p * PMM_PAGE_SIZE) mod PMM_PAGE_SIZE = 0" and "(p * PMM_PAGE_SIZE) div PMM_PAGE_SIZE = p"
  using unat_frame_address [OF assms]
  by (simp_all add: word_unat_eq_iff unat_mod unat_div PMM_PAGE_SIZE_def)

lemma frame_address_of_div:
  assumes "address mod PMM_PAGE_SIZE = 0"
  shows "address = address div PMM_PAGE_SIZE * PMM_PAGE_SIZE"
  using assms div_mult_mod_eq [of address PMM_PAGE_SIZE] by simp

lemma pmm_free_page_eq:
  "if releasable s address then \<exists>s'. pmm_free_page address s = Some (True, s') \<and>
      pmm_initialized s' \<and> usable_frames s' = usable_frames s \<and>
      used_frames s' = used_frames s - {address div PMM_PAGE_SIZE} \<and>
      pmm_available_pages s' = pmm_available_pages s + 1
   else pmm_free_page address s = Some (False, s)"
proof (cases "pmm_initialized s \<and> address \<noteq> 0 \<and> address mod PMM_PAGE_SIZE = 0 \<and>
    address div PMM_PAGE_SIZE < PMM_MAX_PAGES")
  case False
  then have "\<not> releasable s address"
    using frame_address_div by (auto simp: releasable_def dest!: alloc_candidates_ok simp: frame_ok_def)
  then show ?thesis using False by (auto simp: pmm_free_page_def not_less)
next
  case True
  let ?p = "address div PMM_PAGE_SIZE"
  have p: "frame_ok ?p" using True by (simp add: frame_ok_def)
  have addr: "address = ?p * PMM_PAGE_SIZE" using True by (intro frame_address_of_div) simp
  have rel: "releasable s address \<longleftrightarrow> ?p \<in> alloc_candidates s"
    using True addr frame_address_div(2) [OF alloc_candidates_ok] by (auto simp: releasable_def)
  obtain m where m: "bitmap_clear (pmm_bitmap s) ?p = Some m" "frames m = frames (pmm_bitmap s) - {?p}"
    using pb.clearb_bits [OF p] by blast
  have cand: "?p \<in> alloc_candidates s \<longleftrightarrow> ?p \<in> frames (pmm_usable_bitmap s) \<and> ?p \<in> frames (pmm_bitmap s)"
    using p by (simp add: alloc_candidates_def usable_frames_def used_frames_def)
  have free: "pmm_free_page address s = (if ?p \<in> alloc_candidates s
      then Some (True, s\<lparr>pmm_bitmap := m, pmm_available_pages := pmm_available_pages s + 1\<rparr>)
      else Some (False, s))"
    using True m(1) by (simp add: pmm_free_page_def Let_def pb.getb_bits [OF p] cand not_le [symmetric])
  show ?thesis
    using True by (auto simp: rel free usable_frames_def used_frames_def m(2))
qed

section \<open>Sequences of allocations and releases\<close>

inductive pmm_steps :: "pmm \<Rightarrow> pmm \<Rightarrow> bool" for s where
  start: "pmm_steps s s"
| alloc: "pmm_steps s t \<Longrightarrow> pmm_alloc_page t = Some (address, t') \<Longrightarrow> pmm_steps s t'"
| release: "pmm_steps s t \<Longrightarrow> pmm_free_page address t = Some (done, t') \<Longrightarrow> pmm_steps s t'"

lemma pmm_alloc_page_frame:
  assumes "pmm_initialized s" and "pmm_alloc_page s = Some (address, s')"
  shows "usable_frames s' = usable_frames s" and "used_frames s' = used_frames s" and "pmm_initialized s'"
  using pmm_alloc_page_eq [OF assms(1)] assms by (auto simp: usable_frames_def used_frames_def)

lemma pmm_free_page_frame:
  assumes "pmm_initialized s" and "pmm_free_page address s = Some (ok, s')"
  shows "usable_frames s' = usable_frames s" and "used_frames s' \<subseteq> used_frames s" and "pmm_initialized s'"
  using pmm_free_page_eq [of s address] assms by (auto split: if_splits)

lemma pmm_steps_frame:
  assumes "pmm_steps s t" and "pmm_initialized s"
  shows "pmm_initialized t \<and> usable_frames t = usable_frames s \<and> used_frames t \<subseteq> used_frames s"
  using assms
proof (induction rule: pmm_steps.induct)
  case (alloc t address t')
  then show ?case using pmm_alloc_page_frame [of t address t'] by blast
next
  case (release t address ok t')
  then show ?case using pmm_free_page_frame [of t address ok t'] by blast
qed simp

section \<open>Properties\<close>

text \<open>
  C20: \<^verbatim>\<open>pmm_init\<close> reports failure and changes nothing when the boot loader gave no memory map. Otherwise it
  returns with exactly those frames marked usable that lie as a whole inside of a usable entry and
  below 64 GiB, every frame marked as used and no free page, unless it reads outside of its bitmap: it asks for
  the bit of the index of the entry instead of the one of the page, and so its result is undefined exactly when an
  entry behind the first 16777216 ones is usable and holds such a frame other than frame zero.
\<close>

theorem pmm_init_correct:
  assumes "memmap_ok response es"
  shows "pmm_init None s = Some (False, s) \<and>
    pmm_init (Some (response\<lparr>entries := None\<rparr>)) s = Some (False, s) \<and>
    (if \<exists>i < length es. 2 ^ 24 \<le> i \<and> me_type (es ! i) = LIMINE_MEMMAP_USABLE \<and>
         (\<exists>page. 1 \<le> page \<and> page < 2 ^ 24 \<and> unat (me_base (es ! i)) \<le> 4096 * page \<and>
           4096 * (page + 1) \<le> unat (me_base (es ! i)) + unat (me_length (es ! i)))
     then pmm_init (Some response) s = None
     else \<exists>s'. pmm_init (Some response) s = Some (True, s') \<and> pmm_initialized s' \<and>
      usable_frames s' = {page. \<exists>e \<in> set es. me_type e = LIMINE_MEMMAP_USABLE \<and>
        unat page < 2 ^ 24 \<and> unat (me_base e) \<le> 4096 * unat page \<and>
        4096 * (unat page + 1) \<le> unat (me_base e) + unat (me_length e)} \<and>
      used_frames s' = {page. unat page < 2 ^ 24} \<and> pmm_free_pages s' = 0)"
proof -
  have "map_frames es = {page. \<exists>e \<in> set es. me_type e = LIMINE_MEMMAP_USABLE \<and>
      unat page < 2 ^ 24 \<and> unat (me_base e) \<le> 4096 * unat page \<and>
      4096 * (unat page + 1) \<le> unat (me_base e) + unat (me_length e)}"
    unfolding map_frames_def entry_frames_def frame_ok_iff by blast
  moreover have "pmm_init None s = Some (False, s)" "pmm_init (Some (response\<lparr>entries := None\<rparr>)) s = Some (False, s)"
    by (simp_all add: pmm_init_def)
  moreover have "(\<exists>i < length es. 2 ^ 24 \<le> i \<and> me_type (es ! i) = LIMINE_MEMMAP_USABLE \<and>
      (\<exists>page. 1 \<le> page \<and> page < 2 ^ 24 \<and> unat (me_base (es ! i)) \<le> 4096 * page \<and>
        4096 * (page + 1) \<le> unat (me_base (es ! i)) + unat (me_length (es ! i)))) \<longleftrightarrow> \<not> reads_inside es"
    by (auto simp: reads_inside_def entry_reads_nat)
  ultimately show ?thesis
    using pmm_init_inside [OF assms, of s] pmm_init_outside [OF assms, of s] by (auto simp: pmm_free_pages_def frame_ok_iff)
qed

text \<open>The sample memory maps.\<close>

definition sample_entry :: limine_memmap_entry where
  "sample_entry = \<lparr>me_base = 0x1000, me_length = 0x3800, me_type = 0\<rparr>"

definition sample_memmap :: limine_memmap_response where
  "sample_memmap = \<lparr>memmap_revision = 0, entry_count = 1, entries = Some [sample_entry]\<rparr>"

definition pmm_bss :: pmm where
  "pmm_bss = \<lparr>pmm_bitmap = (\<lambda>_. 0), pmm_usable_bitmap = (\<lambda>_. 0), pmm_available_pages = 0, pmm_initialized = False\<rparr>"

lemma sample_memmap_ok: "memmap_ok sample_memmap [sample_entry]"
  by (simp add: memmap_ok_def sample_memmap_def)

lemma sample_first_page:
  "\<exists>s address s1. pmm_init (Some sample_memmap) pmm_bss = Some (True, s) \<and>
     pmm_alloc_page s = Some (address, s1) \<and> address \<noteq> 0"
proof -
  have len: "length [sample_entry] \<le> 2 ^ 24" by simp
  obtain s where s: "pmm_init (Some sample_memmap) pmm_bss = Some (True, s)" "pmm_initialized s"
      "usable_frames s = map_frames [sample_entry]" "used_frames s = {page. frame_ok page}"
    using pmm_init_eq [OF sample_memmap_ok len] by blast
  have "1 \<in> alloc_candidates s"
    using s(3,4) by (simp add: alloc_candidates_def map_frames_def entry_frames_def sample_entry_def
        LIMINE_MEMMAP_USABLE_def frame_ok_iff)
  then obtain p s1 where p: "p \<in> alloc_candidates s" "p \<noteq> 0" "pmm_alloc_page s = Some (p * PMM_PAGE_SIZE, s1)"
    using pmm_alloc_page_eq [OF s(2)] by auto
  have "unat (p * PMM_PAGE_SIZE) = 4096 * unat p"
    using p(1) by (intro unat_frame_address alloc_candidates_ok)
  then have "p * PMM_PAGE_SIZE \<noteq> 0" using p(2) by (metis mult_eq_0_iff unat_eq_zero zero_neq_numeral)
  then show ?thesis using s(1) p(3) by blast
qed

theorem pmm_init_correct_witness:
  "(\<exists>s'. pmm_init (Some sample_memmap) pmm_bss = Some (True, s') \<and> pmm_free_pages s' = 0 \<and>
      2 \<in> usable_frames s' \<and> 4 \<notin> usable_frames s') \<and>
   (\<exists>response. pmm_init (Some response) pmm_bss = None)"
proof
  have "\<not> (\<exists>i < length [sample_entry]. 2 ^ 24 \<le> i \<and> P i)" for P by simp
  then show "\<exists>s'. pmm_init (Some sample_memmap) pmm_bss = Some (True, s') \<and> pmm_free_pages s' = 0 \<and>
      2 \<in> usable_frames s' \<and> 4 \<notin> usable_frames s'"
    using pmm_init_correct [OF sample_memmap_ok, of pmm_bss] by (auto simp: sample_entry_def LIMINE_MEMMAP_USABLE_def)
  obtain n :: nat where n: "n = 2 ^ 24" by blast
  let ?es = "replicate n (sample_entry\<lparr>me_type := 1\<rparr>) @ [sample_entry]"
  let ?response = "\<lparr>memmap_revision = 0, entry_count = word_of_nat (length ?es), entries = Some ?es\<rparr>"
  have "unat (word_of_nat (Suc n) :: u64) = Suc n" by (rule unat_of_nat64) (simp add: n)
  then have ok: "memmap_ok ?response ?es" by (simp add: memmap_ok_def del: of_nat_Suc)
  have "n < length ?es \<and> 2 ^ 24 \<le> n \<and> me_type (?es ! n) = LIMINE_MEMMAP_USABLE \<and>
      (1 :: nat) \<le> 2 \<and> (2 :: nat) < 2 ^ 24 \<and> unat (me_base (?es ! n)) \<le> 4096 * 2 \<and>
      4096 * (2 + 1) \<le> unat (me_base (?es ! n)) + unat (me_length (?es ! n))"
    by (simp add: nth_append sample_entry_def LIMINE_MEMMAP_USABLE_def n [symmetric]) (simp add: n)
  then have "\<exists>i < length ?es. 2 ^ 24 \<le> i \<and> me_type (?es ! i) = LIMINE_MEMMAP_USABLE \<and>
      (\<exists>page. 1 \<le> page \<and> page < 2 ^ 24 \<and> unat (me_base (?es ! i)) \<le> 4096 * page \<and>
        4096 * (page + 1) \<le> unat (me_base (?es ! i)) + unat (me_length (?es ! i)))" by blast
  then have "pmm_init (Some ?response) pmm_bss = None"
    using pmm_init_correct [OF ok, of pmm_bss] by argo
  then show "\<exists>response. pmm_init (Some response) pmm_bss = None" by blast
qed

text \<open>
  C22: \<^verbatim>\<open>pmm_alloc_page\<close> always returns. Once the manager is initialised it yields the address of the
  lowest usable frame other than frame zero whose used bit is set, and zero when there is no such
  frame; apart from the counter of available pages, which it decrements, the state is unchanged.
\<close>

theorem pmm_alloc_page_correct:
  "(\<not> pmm_initialized s \<longrightarrow> pmm_alloc_page s = Some (0, s)) \<and>
   (pmm_initialized s \<longrightarrow>
     (let C = {p \<in> usable_frames s \<inter> used_frames s. p \<noteq> 0} in
      if C = {} then pmm_alloc_page s = Some (0, s)
      else \<exists>p \<in> C. (\<forall>q \<in> C. p \<le> q) \<and> pmm_alloc_page s =
        Some (p * PMM_PAGE_SIZE, s\<lparr>pmm_available_pages := pmm_available_pages s - 1\<rparr>)))"
proof (intro conjI impI)
  assume init: "pmm_initialized s"
  show "let C = {p \<in> usable_frames s \<inter> used_frames s. p \<noteq> 0} in
      if C = {} then pmm_alloc_page s = Some (0, s)
      else \<exists>p \<in> C. (\<forall>q \<in> C. p \<le> q) \<and> pmm_alloc_page s =
        Some (p * PMM_PAGE_SIZE, s\<lparr>pmm_available_pages := pmm_available_pages s - 1\<rparr>)"
    using pmm_alloc_page_eq [OF init] unfolding Let_def alloc_candidates_def by auto
qed (simp add: pmm_alloc_page_def)

text \<open>A manager that was initialised from the sample memory map.\<close>

definition pmm_sample :: pmm where
  "pmm_sample = pmm_bss\<lparr>pmm_bitmap := (\<lambda>_. 0xFF), pmm_usable_bitmap := (\<lambda>_. 0)(0 := 0x0E), pmm_initialized := True\<rparr>"

lemma pmm_sample_frames:
  "pmm_initialized pmm_sample" "1 \<in> usable_frames pmm_sample" "1 \<in> used_frames pmm_sample"
  "2 \<in> usable_frames pmm_sample" "2 \<in> used_frames pmm_sample"
  by (simp_all add: pmm_sample_def usable_frames_def used_frames_def frames_def page_bit_def frame_ok_iff)

theorem pmm_alloc_page_correct_witness:
  "pmm_alloc_page pmm_bss = Some (0, pmm_bss) \<and>
   (\<exists>s'. pmm_alloc_page pmm_sample = Some (0x1000, s'))"
proof -
  let ?C = "{p \<in> usable_frames pmm_sample \<inter> used_frames pmm_sample. p \<noteq> 0}"
  have one: "1 \<in> ?C" using pmm_sample_frames by simp
  then obtain p where p: "p \<in> ?C" "\<forall>q \<in> ?C. p \<le> q" "\<exists>s'. pmm_alloc_page pmm_sample = Some (p * PMM_PAGE_SIZE, s')"
    using pmm_alloc_page_correct [of pmm_sample] pmm_sample_frames(1) unfolding Let_def by (auto split: if_splits)
  then have "p \<le> 1" "p \<noteq> 0" using one by auto
  then have "p = 1" by (auto simp: word_le_nat_alt word_unat_eq_iff)
  moreover have "\<not> pmm_initialized pmm_bss" by (simp add: pmm_bss_def)
  ultimately show ?thesis
    using p(3) pmm_alloc_page_correct [of pmm_bss] by (simp add: PMM_PAGE_SIZE_def)
qed

text \<open>
  \<^verbatim>\<open>pmm_free_page\<close> always returns. It accepts an address exactly when the manager is initialised
  and the address is the one of a usable frame, other than frame zero, that is marked used; then it
  clears that mark and no other and counts the page. Any other address, a misaligned one, one above
  64 GiB, one of reserved memory or one that is already free, is rejected and changes nothing.
\<close>

theorem pmm_free_page_correct:
  "if pmm_initialized s \<and> address \<noteq> 0 \<and>
      (\<exists>p \<in> usable_frames s \<inter> used_frames s. address = p * PMM_PAGE_SIZE)
   then \<exists>s'. pmm_free_page address s = Some (True, s') \<and> pmm_initialized s' \<and>
     usable_frames s' = usable_frames s \<and>
     used_frames s' = used_frames s - {address div PMM_PAGE_SIZE} \<and>
     pmm_available_pages s' = pmm_available_pages s + 1 \<and>
     pmm_free_page address s' = Some (False, s')
   else pmm_free_page address s = Some (False, s)"
proof -
  have again: "pmm_free_page address s' = Some (False, s')" if "address div PMM_PAGE_SIZE \<notin> used_frames s'" for s'
  proof -
    have "\<not> releasable s' address"
      using that frame_address_div(2) [OF alloc_candidates_ok] by (auto simp: releasable_def alloc_candidates_def)
    then show ?thesis using pmm_free_page_eq [of s' address] by simp
  qed
  show ?thesis
  proof (cases "releasable s address")
    case True
    then obtain s' where "pmm_free_page address s = Some (True, s')" "pmm_initialized s'"
        "usable_frames s' = usable_frames s" "used_frames s' = used_frames s - {address div PMM_PAGE_SIZE}"
        "pmm_available_pages s' = pmm_available_pages s + 1"
      using pmm_free_page_eq [of s address] by auto
    then show ?thesis using True again [of s'] by (simp add: releasable_def alloc_candidates_def)
  next
    case False
    then have "pmm_free_page address s = Some (False, s)" using pmm_free_page_eq [of s address] by simp
    then show ?thesis using False unfolding releasable_def alloc_candidates_def by simp
  qed
qed

text \<open>
  C19: an allocated page is safe memory: after initialisation and any sequence of allocations and
  releases, a non-zero address that \<^verbatim>\<open>pmm_alloc_page\<close> yields is a multiple of the page size and its
  whole page lies below 64 GiB and inside of a usable entry of the memory map.
\<close>

theorem pmm_alloc_page_safe:
  assumes "memmap_ok response es" and "pmm_init (Some response) s0 = Some (ok, s)"
    and "pmm_steps s t" and "pmm_alloc_page t = Some (address, t')" and "address \<noteq> 0"
  shows "unat address mod 4096 = 0 \<and> unat address + 4096 \<le> 2 ^ 36 \<and>
    (\<exists>e \<in> set es. me_type e = LIMINE_MEMMAP_USABLE \<and> unat (me_base e) \<le> unat address \<and>
      unat address + 4096 \<le> unat (me_base e) + unat (me_length e))"
proof -
  have s: "pmm_initialized s" "usable_frames s = map_frames es"
    using pmm_init_result [OF assms(1,2)] by simp_all
  have t: "pmm_initialized t" "usable_frames t = map_frames es"
    using pmm_steps_frame [OF assms(3) s(1)] s(2) by auto
  obtain p where p: "p \<in> alloc_candidates t" "address = p * PMM_PAGE_SIZE"
    using pmm_alloc_page_eq [OF t(1)] assms(4,5) by auto
  have ok: "frame_ok p" using p(1) by (rule alloc_candidates_ok)
  obtain e where e: "e \<in> set es" "p \<in> entry_frames e"
    using p(1) t(2) by (auto simp: alloc_candidates_def map_frames_def)
  have "unat address = 4096 * unat p" using unat_frame_address [OF ok] p(2) by simp
  then show ?thesis using e ok by (auto simp: entry_frames_def frame_ok_iff)
qed

theorem pmm_alloc_page_safe_witness:
  "\<exists>s address t'. pmm_init (Some sample_memmap) pmm_bss = Some (True, s) \<and>
     pmm_alloc_page s = Some (address, t') \<and> 0x1000 \<le> unat address \<and> unat address + 4096 \<le> 0x4800"
proof -
  obtain s address s1 where s: "pmm_init (Some sample_memmap) pmm_bss = Some (True, s)"
      "pmm_alloc_page s = Some (address, s1)" "address \<noteq> 0"
    using sample_first_page by blast
  from pmm_alloc_page_safe [OF sample_memmap_ok s(1) pmm_steps.start s(2,3)] show ?thesis
    using s by (auto simp: sample_entry_def)
qed

text \<open>
  C36: the allocator hands out the same page again and again. The test of the used bit in
  \<^verbatim>\<open>pmm_alloc_page\<close> is inverted: it takes a page that is marked used and leaves it marked used, so
  that in every state in which an allocation yields a page the next allocation yields the same one, and each of
  them takes one off the count of free pages. After initialisation that count is zero, and the first allocation
  wraps it around.
\<close>

theorem pmm_alloc_page_repeats:
  assumes "pmm_alloc_page s = Some (address, s1)" and "address \<noteq> 0"
  shows "pmm_free_pages s1 = pmm_free_pages s - 1 \<and>
    (\<exists>s2. pmm_alloc_page s1 = Some (address, s2) \<and> pmm_free_pages s2 = pmm_free_pages s - 2) \<and>
    (memmap_ok response es \<and> pmm_init (Some response) s0 = Some (ok, s) \<longrightarrow> unat (pmm_free_pages s1) = 2 ^ 64 - 1)"
proof -
  have s: "pmm_initialized s" using assms by (simp add: pmm_alloc_page_def split: if_splits)
  obtain p where p: "p \<in> alloc_candidates s" "p \<noteq> 0" "\<forall>q \<in> alloc_candidates s. q \<noteq> 0 \<longrightarrow> p \<le> q"
      "address = p * PMM_PAGE_SIZE" "s1 = s\<lparr>pmm_available_pages := pmm_available_pages s - 1\<rparr>"
    using pmm_alloc_page_eq [OF s] assms by auto
  have s1: "alloc_candidates s1 = alloc_candidates s" "pmm_initialized s1"
    using s p(5) by (simp_all add: alloc_candidates_def usable_frames_def used_frames_def)
  obtain q where q: "q \<in> alloc_candidates s" "q \<noteq> 0" "\<forall>r \<in> alloc_candidates s. r \<noteq> 0 \<longrightarrow> q \<le> r"
      "pmm_alloc_page s1 = Some (q * PMM_PAGE_SIZE, s1\<lparr>pmm_available_pages := pmm_available_pages s1 - 1\<rparr>)"
    using pmm_alloc_page_eq [OF s1(2)] p(1,2) unfolding s1(1) by auto
  have "q = p" using p q by (meson order_antisym)
  moreover have "pmm_free_pages s1 = 2 ^ 64 - 1" if "memmap_ok response es" "pmm_init (Some response) s0 = Some (ok, s)"
    using pmm_init_result [OF that] s p(5) by (simp add: pmm_free_pages_def)
  ultimately show ?thesis using q(4) p(4,5) s s1(2) by (auto simp: pmm_free_pages_def)
qed

theorem pmm_alloc_page_repeats_witness:
  "\<exists>s address s1 s2. pmm_init (Some sample_memmap) pmm_bss = Some (True, s) \<and> address \<noteq> 0 \<and>
     pmm_alloc_page s = Some (address, s1) \<and> unat (pmm_free_pages s1) = 2 ^ 64 - 1 \<and> pmm_alloc_page s1 = Some (address, s2)"
proof -
  obtain s address s1 where s: "pmm_init (Some sample_memmap) pmm_bss = Some (True, s)"
      "pmm_alloc_page s = Some (address, s1)" "address \<noteq> 0"
    using sample_first_page by blast
  from pmm_alloc_page_repeats [OF s(2,3)] show ?thesis using s sample_memmap_ok by blast
qed

text \<open>
  C37: a released page is lost: after \<^verbatim>\<open>pmm_free_page\<close> has accepted an address, no allocation yields
  it again, whatever other allocations and releases come between.
\<close>

theorem pmm_released_page_is_lost:
  assumes "pmm_free_page address s = Some (True, s1)" and "pmm_steps s1 s2"
    and "pmm_alloc_page s2 = Some (address', s3)"
  shows "address' \<noteq> address"
proof (cases "address' = 0")
  case False
  have rel: "releasable s address" and s1: "pmm_initialized s1"
      "used_frames s1 = used_frames s - {address div PMM_PAGE_SIZE}"
    using pmm_free_page_eq [of s address] assms(1) by (auto split: if_splits)
  have s2: "pmm_initialized s2" "used_frames s2 \<subseteq> used_frames s1"
    using pmm_steps_frame [OF assms(2) s1(1)] by auto
  obtain p where p: "p \<in> alloc_candidates s2" "address' = p * PMM_PAGE_SIZE"
    using pmm_alloc_page_eq [OF s2(1)] assms(3) False by auto
  then have "p \<noteq> address div PMM_PAGE_SIZE" using s1(2) s2(2) by (auto simp: alloc_candidates_def)
  then show ?thesis using p frame_address_div(2) [OF alloc_candidates_ok] by auto
next
  case True
  then show ?thesis
    using pmm_free_page_eq [of s address] assms(1) by (auto simp: releasable_def split: if_splits)
qed

theorem pmm_released_page_is_lost_witness:
  "\<exists>s1 address s2. pmm_free_page 0x1000 pmm_sample = Some (True, s1) \<and>
     pmm_alloc_page s1 = Some (address, s2) \<and> address \<noteq> 0x1000"
proof -
  have "releasable pmm_sample 0x1000"
    using pmm_sample_frames unfolding releasable_def alloc_candidates_def
    by (intro conjI bexI [of _ 1]) (simp_all add: PMM_PAGE_SIZE_def)
  then obtain s1 where s1: "pmm_free_page 0x1000 pmm_sample = Some (True, s1)" "pmm_initialized s1"
    using pmm_free_page_eq [of pmm_sample "0x1000"] by auto
  obtain address s2 where a: "pmm_alloc_page s1 = Some (address, s2)"
    using pmm_alloc_page_eq [OF s1(2)] by blast
  from pmm_released_page_is_lost [OF s1(1) pmm_steps.start a] show ?thesis using s1(1) a by blast
qed

end
