(* ===== verification/Eyax_Memory.thy ===== *)
theory Eyax_Memory
  imports Eyax_Prelude
begin

text \<open>
  The four memory functions that the compiler may call, \<^verbatim>\<open>memcpy\<close>, \<^verbatim>\<open>memset\<close>, \<^verbatim>\<open>memmove\<close> and
  \<^verbatim>\<open>memcmp\<close> of \<^verbatim>\<open>src/main.c\<close>, on a memory of bytes with 64-bit addresses. The lemmas show that they are
  what the C standard asks for, \<^verbatim>\<open>memmove\<close> for overlapping objects too.
\<close>

type_synonym memory = "u64 \<Rightarrow> u8"

section \<open>The functions\<close>

definition memcpy :: "u64 \<Rightarrow> u64 \<Rightarrow> u64 \<Rightarrow> memory \<Rightarrow> u64 \<times> memory" where
  "memcpy dest src n m = (dest, for_range 0 n (\<lambda>i m. m(dest + i := m (src + i))) m)"

definition memset :: "u64 \<Rightarrow> u32 \<Rightarrow> u64 \<Rightarrow> memory \<Rightarrow> u64 \<times> memory" where
  "memset s c n m = (s, for_range 0 n (\<lambda>i m. m(s + i := ucast c)) m)"

function memmove_down :: "u64 \<Rightarrow> u64 \<Rightarrow> u64 \<Rightarrow> memory \<Rightarrow> memory" where
  "memmove_down dest src i m =
     (if i > 0 then memmove_down dest src (i - 1) (m(dest + (i - 1) := m (src + (i - 1)))) else m)"
  by pat_completeness auto

termination
  by (relation "measure (\<lambda>(dest, src, i, m). unat i)") (auto simp: measure_unat word_greater_zero_iff)

declare memmove_down.simps [simp del]

definition memmove :: "u64 \<Rightarrow> u64 \<Rightarrow> u64 \<Rightarrow> memory \<Rightarrow> u64 \<times> memory" where
  "memmove dest src n m =
     (dest,
      if src > dest then for_range 0 n (\<lambda>i m. m(dest + i := m (src + i))) m
      else if src < dest then memmove_down dest src n m
      else m)"

function memcmp_loop :: "u64 \<Rightarrow> u64 \<Rightarrow> u64 \<Rightarrow> u64 \<Rightarrow> memory \<Rightarrow> int" where
  "memcmp_loop i n s1 s2 m =
     (if i < n then
        if m (s1 + i) \<noteq> m (s2 + i) then (if m (s1 + i) < m (s2 + i) then - 1 else 1)
        else memcmp_loop (i + 1) n s1 s2 m
      else 0)"
  by pat_completeness auto

termination
  by (relation "measure (\<lambda>(i, n, s1, s2, m). unat n - unat i)") (auto simp: unat_Suc_less word_less_nat_alt)

declare memcmp_loop.simps [simp del]

definition memcmp :: "u64 \<Rightarrow> u64 \<Rightarrow> u64 \<Rightarrow> memory \<Rightarrow> int" where
  "memcmp s1 s2 n m = memcmp_loop 0 n s1 s2 m"

section \<open>Objects in memory\<close>

text \<open>The bytes of an object, and the objects that do not wrap around the address space.\<close>

definition object :: "memory \<Rightarrow> u64 \<Rightarrow> nat \<Rightarrow> u8 list" where
  "object m a n = map (\<lambda>i. m (a + of_nat i)) [0..<n]"

definition object_ok :: "u64 \<Rightarrow> nat \<Rightarrow> bool" where
  "object_ok a n \<longleftrightarrow> unat a + n \<le> 2 ^ 64"

definition in_object :: "u64 \<Rightarrow> nat \<Rightarrow> u64 \<Rightarrow> bool" where
  "in_object a n x \<longleftrightarrow> unat a \<le> unat x \<and> unat x < unat a + n"

lemma unat_object_byte: "object_ok a n \<Longrightarrow> i < n \<Longrightarrow> unat (a + of_nat i) = unat a + i"
  by (simp add: object_ok_def unat_add_no_wrap unat_of_nat64)

lemma in_object_iff:
  assumes "object_ok a n"
  shows "in_object a n x \<longleftrightarrow> (\<exists>i < n. x = a + of_nat i)"
proof
  assume x: "in_object a n x"
  then have "x = a + of_nat (unat x - unat a)"
    using assms by (intro word_eq_unatI) (simp add: in_object_def unat_object_byte [of a n])
  then show "\<exists>i < n. x = a + of_nat i" using x by (auto simp: in_object_def intro!: exI [of _ "unat x - unat a"])
next
  assume "\<exists>i < n. x = a + of_nat i"
  then show "in_object a n x" using assms by (auto simp: in_object_def unat_object_byte)
qed

lemma in_object_index:
  assumes "object_ok a (unat n)" and "x - a < n"
  shows "in_object a (unat n) x"
proof -
  have "x = a + of_nat (unat (x - a))" by simp
  moreover have "unat (x - a) < unat n" using assms(2) by (simp add: word_less_nat_alt)
  ultimately show ?thesis using in_object_iff [OF assms(1)] by blast
qed

section \<open>Copying\<close>

text \<open>The memory in which the bytes with the indices in a set have been copied.\<close>

definition copied :: "u64 \<Rightarrow> u64 \<Rightarrow> memory \<Rightarrow> u64 set \<Rightarrow> memory" where
  "copied dest src m A = (\<lambda>x. if x - dest \<in> A then m (src + (x - dest)) else m x)"

lemma copied_step:
  assumes "src + j - dest \<notin> A"
  shows "(copied dest src m A)(dest + j := copied dest src m A (src + j)) = copied dest src m (insert j A)"
  using assms by (auto simp: copied_def fun_eq_iff)

lemma copied_object:
  assumes "object_ok dest (unat n)"
  shows "object (copied dest src m {0..<n}) dest (unat n) = object m src (unat n)"
    and "\<not> in_object dest (unat n) x \<Longrightarrow> copied dest src m {0..<n} x = m x"
proof -
  have "of_nat i < n" if "i < unat n" for i
    using that by (simp add: word_less_nat_alt unat_of_nat64 less_trans [OF that unat_lt64])
  then show "object (copied dest src m {0..<n}) dest (unat n) = object m src (unat n)"
    by (simp add: object_def copied_def)
  show "\<not> in_object dest (unat n) x \<Longrightarrow> copied dest src m {0..<n} x = m x"
    using in_object_index [OF assms] by (auto simp: copied_def)
qed

lemma forward_copy:
  assumes "\<And>j. j < n \<Longrightarrow> src + j - dest \<notin> {0..<j}"
  shows "for_range 0 n (\<lambda>i m. m(dest + i := m (src + i))) m = copied dest src m {0..<n}"
proof (rule for_range_inv [where P = "\<lambda>j t. t = copied dest src m {0..<j}"])
  fix j t
  assume j: "0 \<le> j" "j < n" and t: "t = copied dest src m {0..<j}"
  show "t(dest + j := t (src + j)) = copied dest src m {0..<j + 1}"
    unfolding t copied_step [OF assms [OF j(2)]] word_atLeastLessThan_Suc [OF j] ..
qed (auto simp: copied_def)

lemma backward_copy:
  assumes "i \<le> n" and "\<And>j. j < n \<Longrightarrow> src + j - dest \<notin> {j + 1..<n}"
  shows "memmove_down dest src i (copied dest src m {i..<n}) = copied dest src m {0..<n}"
  using assms(1)
proof (induction "unat i" arbitrary: i)
  case 0
  then have "i = 0" by (simp add: unat_eq_zero)
  then show ?case by (subst memmove_down.simps) simp
next
  case (Suc k)
  then have nz: "i \<noteq> 0" by auto
  have k: "unat (i - 1) = k" using Suc.hyps(2) nz by (simp add: unat_minus_one)
  have lt: "i - 1 < i" "i - 1 < n"
    using k Suc.hyps(2) Suc.prems by (simp_all add: word_less_nat_alt word_le_nat_alt)
  have set: "insert (i - 1) {i..<n} = {i - 1..<n}"
    using k Suc.hyps(2) lt by (auto simp: word_le_nat_alt word_less_nat_alt word_unat_eq_iff)
  have "src + (i - 1) - dest \<notin> {i..<n}" using assms(2) [OF lt(2)] by simp
  note step = copied_step [OF this, of m, unfolded set]
  show ?case
    using Suc.hyps(1) [of "i - 1"] k lt nz step
    by (subst memmove_down.simps) (simp add: word_greater_zero_iff)
qed

lemma src_above_dest:
  assumes "object_ok src (unat n)" and "dest < src" and "j < n"
  shows "src + j - dest \<notin> {0..<j}"
proof -
  have "unat (src + j) = unat src + unat j"
    using assms(1,3) by (simp add: object_ok_def word_less_nat_alt unat_add_no_wrap)
  moreover from this have "unat (src + j - dest) = unat (src + j) - unat dest"
    using assms(2) by (intro unat_sub) (simp add: word_le_nat_alt word_less_nat_alt)
  ultimately show ?thesis using assms(2) by (simp add: word_less_nat_alt)
qed

lemma src_below_dest:
  assumes "object_ok dest (unat n)" and "src < dest" and "j < n"
  shows "src + j - dest \<notin> {j + 1..<n}"
proof
  define d where "d = src + j - dest"
  assume "src + j - dest \<in> {j + 1..<n}"
  then have d: "j < d" "d < n" using assms(3) by (auto simp: d_def unat_Suc_less word_less_nat_alt word_le_nat_alt)
  have "unat (dest + d) = unat dest + unat d"
    using assms(1) d(2) by (simp add: object_ok_def word_less_nat_alt unat_add_no_wrap)
  moreover have "dest + d = src + j" by (simp add: d_def)
  moreover have "unat (src + j) \<le> unat src + unat j" by (simp add: unat_word_ariths mod_less_eq_dividend)
  ultimately show False using d(1) assms(2) by (simp add: word_less_nat_alt)
qed

text \<open>Filling, with the same view of the indices that were written.\<close>

definition filled :: "u64 \<Rightarrow> u8 \<Rightarrow> memory \<Rightarrow> u64 set \<Rightarrow> memory" where
  "filled dest v m A = (\<lambda>x. if x - dest \<in> A then v else m x)"

lemma forward_fill:
  "for_range 0 n (\<lambda>i m. m(dest + i := v)) m = filled dest v m {0..<n}"
proof (rule for_range_inv [where P = "\<lambda>j t. t = filled dest v m {0..<j}"])
  fix j t
  assume j: "0 \<le> j" "j < n" and t: "t = filled dest v m {0..<j}"
  show "t(dest + j := v) = filled dest v m {0..<j + 1}"
    unfolding t word_atLeastLessThan_Suc [OF j] by (auto simp: filled_def fun_eq_iff)
qed (auto simp: filled_def)

lemma filled_object:
  assumes "object_ok dest (unat n)"
  shows "object (filled dest v m {0..<n}) dest (unat n) = replicate (unat n) v"
    and "\<not> in_object dest (unat n) x \<Longrightarrow> filled dest v m {0..<n} x = m x"
proof -
  have "of_nat i < n" if "i < unat n" for i
    using that by (simp add: word_less_nat_alt unat_of_nat64 less_trans [OF that unat_lt64])
  then show "object (filled dest v m {0..<n}) dest (unat n) = replicate (unat n) v"
    by (simp add: object_def filled_def map_replicate_const list_eq_iff_nth_eq)
  show "\<not> in_object dest (unat n) x \<Longrightarrow> filled dest v m {0..<n} x = m x"
    using in_object_index [OF assms] by (auto simp: filled_def)
qed

section \<open>Comparing\<close>

lemma memcmp_loop_eq:
  assumes "i \<le> n"
  shows "memcmp_loop i n s1 s2 m =
    (let xs = drop (unat i) (object m s1 (unat n)); ys = drop (unat i) (object m s2 (unat n))
     in if xs = ys then 0 else if (xs, ys) \<in> lexord {(x, y). x < y} then - 1 else 1)"
  using assms
proof (induction i n s1 s2 m rule: memcmp_loop.induct)
  case (1 i n s1 s2 m)
  show ?case
  proof (cases "i < n")
    case True
    have i: "unat i < unat n" using True by (simp add: word_less_nat_alt)
    have "drop (unat i) (object m s (unat n)) = m (s + i) # drop (unat (i + 1)) (object m s (unat n))" for s
      unfolding object_def drop_map drop_upt unat_Suc_less [OF True] using upt_conv_Cons [OF i] by simp
    then show ?thesis
      using True "1.IH" word_Suc_le_of_less [OF True] by (subst memcmp_loop.simps) (auto simp: Let_def)
  next
    case False
    then have "i = n" using "1.prems" by simp
    then show ?thesis by (subst memcmp_loop.simps) (simp add: object_def)
  qed
qed

section \<open>Properties\<close>

text \<open>
  C16: \<^verbatim>\<open>memmove\<close> copies an object of any size correctly, also when source and destination overlap
  in either direction: the destination holds the former bytes of the source, and no other byte of
  memory changes.
\<close>

theorem memmove_correct:
  assumes "object_ok dest (unat n)" and "object_ok src (unat n)"
    and "memmove dest src n m = (r, m')"
  shows "r = dest \<and> object m' dest (unat n) = object m src (unat n) \<and>
    (\<forall>x. \<not> in_object dest (unat n) x \<longrightarrow> m' x = m x)"
proof -
  have "m' = copied dest src m {0..<n}"
  proof (cases "src = dest")
    case True
    then show ?thesis using assms(3) by (auto simp: memmove_def copied_def fun_eq_iff)
  next
    case False
    then consider "dest < src" | "src < dest" by fastforce
    then show ?thesis
    proof cases
      case 1
      then show ?thesis
        using assms(3) 1 forward_copy [of n src dest, OF src_above_dest [OF assms(2) 1]] by (auto simp: memmove_def)
    next
      case 2
      have "copied dest src m {n..<n} = m" by (simp add: copied_def)
      then show ?thesis
        using assms(3) backward_copy [OF order_refl src_below_dest [OF assms(1) 2], of m] 2
        by (auto simp: memmove_def)
    qed
  qed
  then show ?thesis using copied_object [OF assms(1)] assms(3) by (auto simp: memmove_def)
qed

theorem memmove_correct_witness:
  "\<exists>r m'. memmove 0x1001 0x1000 3 (\<lambda>a. ucast a) = (r, m') \<and> object m' 0x1001 3 = [0, 1, 2]"
proof -
  obtain r m' where r: "memmove 0x1001 0x1000 3 (\<lambda>a. ucast a) = (r, m')" by fastforce
  have "object_ok 0x1001 (unat (3 :: u64))" "object_ok 0x1000 (unat (3 :: u64))" by (simp_all add: object_ok_def)
  from memmove_correct [OF this r] have "object m' 0x1001 3 = object (\<lambda>a. ucast a) 0x1000 3" by simp
  also have "\<dots> = [0, 1, 2]" by (simp add: object_def upt_rec)
  finally show ?thesis using r by blast
qed

text \<open>
  \<^verbatim>\<open>memcpy\<close> copies the source over a destination that does not overlap it, and \<^verbatim>\<open>memset\<close> fills
  an object with the low byte of its argument; neither changes any other byte of memory.
\<close>

theorem memcpy_memset_correct:
  assumes "object_ok dest (unat n)"
    and "\<forall>x. \<not> (in_object dest (unat n) x \<and> in_object src (unat n) x)" and "object_ok src (unat n)"
  shows "fst (memcpy dest src n m) = dest \<and>
    object (snd (memcpy dest src n m)) dest (unat n) = object m src (unat n) \<and>
    (\<forall>x. \<not> in_object dest (unat n) x \<longrightarrow> snd (memcpy dest src n m) x = m x) \<and>
    fst (memset dest c n m) = dest \<and>
    object (snd (memset dest c n m)) dest (unat n) = replicate (unat n) (ucast c) \<and>
    (\<forall>x. \<not> in_object dest (unat n) x \<longrightarrow> snd (memset dest c n m) x = m x)"
proof -
  have disj: "src + j - dest \<notin> {0..<j}" if "j < n" for j
  proof
    assume "src + j - dest \<in> {0..<j}"
    then have k: "unat (src + j - dest) < unat n" using that by (simp add: word_less_nat_alt)
    have "in_object src (unat n) (src + j)"
      using in_object_iff [OF assms(3)] that by (auto simp: word_less_nat_alt intro!: exI [of _ "unat j"])
    moreover have "in_object dest (unat n) (src + j)"
      using in_object_iff [OF assms(1)] k by (auto intro!: exI [of _ "unat (src + j - dest)"])
    ultimately show False using assms(2) by blast
  qed
  have "for_range 0 n (\<lambda>i m. m(dest + i := m (src + i))) m = copied dest src m {0..<n}"
    using disj by (rule forward_copy)
  moreover have "for_range 0 n (\<lambda>i m. m(dest + i := ucast c)) m = filled dest (ucast c) m {0..<n}"
    by (rule forward_fill)
  ultimately show ?thesis
    using copied_object [OF assms(1)] filled_object [OF assms(1)]
    by (simp add: memcpy_def memset_def)
qed

theorem memcpy_memset_correct_witness:
  "object (snd (memcpy 0x2000 0x1000 3 (\<lambda>a. ucast a))) 0x2000 3 = [0, 1, 2] \<and>
   object (snd (memset 0x2000 0x107 3 (\<lambda>a. ucast a))) 0x2000 3 = [7, 7, 7]"
proof -
  have "object_ok 0x2000 (unat (3 :: u64))" "object_ok 0x1000 (unat (3 :: u64))"
    "\<forall>x. \<not> (in_object 0x2000 (unat (3 :: u64)) x \<and> in_object 0x1000 (unat (3 :: u64)) x)"
    by (auto simp: object_ok_def in_object_def)
  note ok = memcpy_memset_correct [OF this(1,3,2), of "\<lambda>a. ucast a" "0x107"]
  have "object (\<lambda>a. ucast a) 0x1000 3 = [0, 1, 2]" by (simp add: object_def upt_rec)
  moreover have "replicate 3 (0x107 :: u8) = [7, 7, 7]" by (simp add: numeral_3_eq_3)
  ultimately show ?thesis using ok by simp
qed

text \<open>
  C35: \<^verbatim>\<open>memcmp\<close> orders objects of equal size lexicographically by unsigned bytes: it is zero when
  they are equal, minus one when the first comes before the second, and one otherwise.
\<close>

theorem memcmp_correct:
  "memcmp s1 s2 n m =
     (let xs = object m s1 (unat n); ys = object m s2 (unat n)
      in if xs = ys then 0 else if (xs, ys) \<in> lexord {(x, y). x < y} then - 1 else 1)"
  using memcmp_loop_eq [of 0 n s1 s2 m] by (simp add: memcmp_def)

end
