(* ===== verification/Eyax_Cpu.thy ===== *)
theory Eyax_Cpu
  imports Eyax_Print Eyax_Ports
begin

text \<open>
  The processor and interrupt set-up of \<^verbatim>\<open>src/main.c\<close>: descriptor tables, interrupt gates, interrupt
  controller and timer, the interrupt handlers and the stop screen. Registers are fields of a
  record; the addresses that the linker assigns are a parameter. The lemmas show that the tables
  send exactly three vectors to their handlers through the code segment that is loaded.
\<close>

section \<open>Descriptor tables\<close>

definition eX_IDT_ENTRIES :: u64 where [simp]: "eX_IDT_ENTRIES = 256"

record eX_IDTEntry =
  offset_low :: u16
  selector :: u16
  ist :: u8
  type_attr :: u8
  offset_mid :: u16
  offset_high :: u32
  zero_field :: u32

record eX_GDTEntry =
  limit_low :: u16
  base_low :: u16
  base_mid :: u8
  access :: u8
  granularity :: u8
  base_high :: u8

text \<open>\<^verbatim>\<open>struct eX_IDTPointer\<close> and \<^verbatim>\<open>struct eX_GDTPointer\<close>, which have the same fields.\<close>

record table_pointer =
  ptr_limit :: u16
  ptr_base :: u64

text \<open>The registers that the code reads or loads.\<close>

record cpu =
  reg_cs :: u16
  reg_ds :: u16
  reg_es :: u16
  reg_ss :: u16
  reg_gdtr :: table_pointer
  reg_idtr :: table_pointer
  reg_cr2 :: u64
  reg_if :: bool

record tables =
  eX_IDT :: "eX_IDTEntry list"
  eX_IDTPointer :: table_pointer
  eX_GDT :: "eX_GDTEntry list"
  eX_GDTPointer :: table_pointer

text \<open>The addresses of objects and functions, assigned by the linker.\<close>

record symbols =
  addr_IDT :: u64
  addr_GDT :: u64
  addr_InvalidOpcodeHandler :: u64
  addr_TimerHandler :: u64
  addr_PageFaultHandler :: u64

definition zero_IDTEntry :: eX_IDTEntry where
  "zero_IDTEntry = \<lparr>offset_low = 0, selector = 0, ist = 0, type_attr = 0, offset_mid = 0, offset_high = 0, zero_field = 0\<rparr>"

definition zero_GDTEntry :: eX_GDTEntry where
  "zero_GDTEntry = \<lparr>limit_low = 0, base_low = 0, base_mid = 0, access = 0, granularity = 0, base_high = 0\<rparr>"

definition eX_IDT_SetGate :: "u8 \<Rightarrow> u64 \<Rightarrow> tables \<Rightarrow> tables" where
  "eX_IDT_SetGate vector handler t =
     t\<lparr>eX_IDT := (eX_IDT t)[unat vector :=
         \<lparr>offset_low = ucast (handler AND 0xFFFF),
          selector = 0x08,
          ist = 0,
          type_attr = 0x8E,
          offset_mid = ucast (drop_bit 16 handler AND 0xFFFF),
          offset_high = ucast (drop_bit 32 handler AND 0xFFFFFFFF),
          zero_field = 0\<rparr>]\<rparr>"

definition eX_IDT_Load :: "tables \<times> cpu \<Rightarrow> tables \<times> cpu" where
  "eX_IDT_Load = (\<lambda>(t, c). (t, c\<lparr>reg_idtr := eX_IDTPointer t\<rparr>))"

definition eX_IDT_Init :: "symbols \<Rightarrow> tables \<times> cpu \<Rightarrow> tables \<times> cpu" where
  "eX_IDT_Init syms = (\<lambda>(t, c).
     let t = for_range 0 eX_IDT_ENTRIES (\<lambda>i t. t\<lparr>eX_IDT := (eX_IDT t)[unat i := zero_IDTEntry]\<rparr>) t;
         t = t\<lparr>eX_IDTPointer := \<lparr>ptr_limit = 256 * 16 - 1, ptr_base = addr_IDT syms\<rparr>\<rparr>;
         t = eX_IDT_SetGate 0x06 (addr_InvalidOpcodeHandler syms) t;
         t = eX_IDT_SetGate 0x20 (addr_TimerHandler syms) t;
         t = eX_IDT_SetGate 0x0E (addr_PageFaultHandler syms) t
     in eX_IDT_Load (t, c))"

definition eX_ReadCS :: "cpu \<Rightarrow> u16" where
  "eX_ReadCS c = reg_cs c"

text \<open>After \<^verbatim>\<open>lgdt\<close>, a far return loads the code segment and moves load the data segments.\<close>

definition eX_GDT_Load :: "tables \<times> cpu \<Rightarrow> tables \<times> cpu" where
  "eX_GDT_Load = (\<lambda>(t, c).
     (t, c\<lparr>reg_gdtr := eX_GDTPointer t, reg_cs := 0x08, reg_ds := 0x10, reg_es := 0x10, reg_ss := 0x10\<rparr>))"

definition eX_GDT_Init :: "symbols \<Rightarrow> tables \<times> cpu \<Rightarrow> tables \<times> cpu" where
  "eX_GDT_Init syms = (\<lambda>(t, c).
     let t = t\<lparr>eX_GDT := (eX_GDT t)[0 := zero_GDTEntry]\<rparr>;
         t = t\<lparr>eX_GDT := (eX_GDT t)[1 :=
           \<lparr>limit_low = 0xFFFF, base_low = 0, base_mid = 0, access = 0x9A, granularity = 0xAF, base_high = 0\<rparr>]\<rparr>;
         t = t\<lparr>eX_GDT := (eX_GDT t)[2 :=
           \<lparr>limit_low = 0xFFFF, base_low = 0, base_mid = 0, access = 0x92, granularity = 0xCF, base_high = 0\<rparr>]\<rparr>;
         t = t\<lparr>eX_GDTPointer := \<lparr>ptr_limit = 3 * 8 - 1, ptr_base = addr_GDT syms\<rparr>\<rparr>
     in eX_GDT_Load (t, c))"

section \<open>Interrupt controller and timer\<close>

definition eX_PIC_Init :: "'w devices \<Rightarrow> 'w \<Rightarrow> 'w" where
  "eX_PIC_Init dev w =
     (let w = eX_Outb dev 0x20 0x11 w;
          w = eX_Outb dev 0xA0 0x11 w;
          w = eX_Outb dev 0x21 0x20 w;
          w = eX_Outb dev 0xA1 0x28 w;
          w = eX_Outb dev 0x21 0x04 w;
          w = eX_Outb dev 0xA1 0x02 w;
          w = eX_Outb dev 0x21 0x01 w;
          w = eX_Outb dev 0xA1 0x01 w;
          w = eX_Outb dev 0x21 0xFC w
      in eX_Outb dev 0xA1 0xFF w)"

definition eX_PIT_FREQUENCY :: u64 where
  "eX_PIT_FREQUENCY = 100"

definition eX_PIT_Init :: "'w devices \<Rightarrow> 'w \<Rightarrow> 'w" where
  "eX_PIT_Init dev w =
     (let divisor = (ucast ((1193182 :: u32) div ucast eX_PIT_FREQUENCY) :: u16);
          w = eX_Outb dev 0x43 0x36 w;
          w = eX_Outb dev 0x40 (ucast (divisor AND 0xFF)) w
      in eX_Outb dev 0x40 (ucast (drop_bit 8 divisor)) w)"

definition eX_PIC_ReadIRR :: "'w devices \<Rightarrow> 'w \<Rightarrow> u8 \<times> 'w" where
  "eX_PIC_ReadIRR dev w = eX_Inb dev 0x20 (eX_Outb dev 0x20 0x0A w)"

text \<open>\<^verbatim>\<open>mask &= (uint8_t)~(1 << irq)\<close>, on promoted operands.\<close>

definition clear_irq_bit :: "u8 \<Rightarrow> u8 \<Rightarrow> u8" where
  "clear_irq_bit irq m = m AND ucast (NOT (push_bit (unat irq) 1 :: u32))"

definition eX_PIC_UnmaskIRQ :: "'w devices \<Rightarrow> u8 \<Rightarrow> 'w \<Rightarrow> 'w" where
  "eX_PIC_UnmaskIRQ dev irq w =
     (if irq < 8 then
        let (m, w) = eX_Inb dev 0x21 w
        in eX_Outb dev 0x21 (clear_irq_bit irq m) w
      else if irq < 16 then
        let (m, w) = eX_Inb dev 0xA1 w
        in eX_Outb dev 0xA1 (clear_irq_bit (irq - 8) m) w
      else w)"

section \<open>Halting, the stop screen and the handlers\<close>

text \<open>\<^verbatim>\<open>hcf\<close> never returns: code either goes on or has halted with its last state.\<close>

datatype 's outcome = Running 's | Halted 's

definition hcf :: "'s \<Rightarrow> 's outcome" where
  "hcf s = Halted s"

definition bugcheck_notice :: string where
  "bugcheck_notice = ''A problem has occurred and the eyaX kernel halted '' @ ''to protect the computer and the CPU.''"

definition bugcheck_advice_1 :: string where
  "bugcheck_advice_1 =
     ''Either your computer has ran out of memory, dosen'' @ [CHR 0x27] @ ''t have a drive, or this OS is corrupted.''"

definition bugcheck_advice_2 :: string where
  "bugcheck_advice_2 = '' Take some steps to ensure if your computer is safely configured to run eyaX.''"

definition bugcheck_end :: string where
  "bugcheck_end = ''System halted. to reinstate the system please reboot the computer.''"

definition eX_BugCheck :: "u8 list \<Rightarrow> u64 \<Rightarrow> u64 \<Rightarrow> console \<Rightarrow> console outcome option" where
  "eX_BugCheck exception vector address con = do {
     let con = eX_Clear con;
     con \<leftarrow> eX_Print (bytes_of bugcheck_notice @ [10, 10, 0]) [] con;
     con \<leftarrow> eX_Print (bytes_of ''%s'' @ [10, 10, 0]) [ArgStr (Some exception)] con;
     con \<leftarrow> eX_Print (bytes_of bugcheck_advice_1 @ [10] @ bytes_of bugcheck_advice_2 @ [10, 10, 0]) [] con;
     con \<leftarrow> eX_Print (bytes_of ''VECTOR 0x'' @ bytes_of ''%X'' @ [10, 0]) [ArgInt vector] con;
     con \<leftarrow> eX_Print (bytes_of ''STOP 0x'' @ bytes_of ''%X'' @ [10, 0]) [ArgInt address] con;
     con \<leftarrow> eX_Print ([10] @ bytes_of bugcheck_end @ [10, 0]) [] con;
     Some (hcf con)
   }"

definition eX_PageFaultHandler :: "cpu \<Rightarrow> console \<Rightarrow> console outcome option" where
  "eX_PageFaultHandler c con = eX_BugCheck (cstr ''Page Fault'') 0x0E (reg_cr2 c) con"

definition eX_InvalidOpcodeHandler :: "console \<Rightarrow> console outcome option" where
  "eX_InvalidOpcodeHandler con = eX_BugCheck (cstr ''Invalid Opcode'') 6 0 con"

record 'w timer =
  eX_TimerTicks :: u64
  timer_console :: console
  timer_world :: 'w

definition eX_TimerHandler :: "'w devices \<Rightarrow> 'w timer \<Rightarrow> 'w timer option" where
  "eX_TimerHandler dev t = do {
     let t = t\<lparr>eX_TimerTicks := eX_TimerTicks t + 1\<rparr>;
     t \<leftarrow> (if eX_TimerTicks t = 1 then do {
         con \<leftarrow> eX_Print (bytes_of ''IRQ0 FIRED!'' @ [10, 0]) [] (timer_console t);
         Some (t\<lparr>timer_console := con\<rparr>)
       } else Some t);
     Some (t\<lparr>timer_world := eX_Outb dev 0x20 0x20 (timer_world t)\<rparr>)
   }"

text \<open>
  Waiting: the processor halts until an interrupt has been handled; what happens meanwhile is the
  argument of the model.
\<close>

partial_function (option) sleep_until :: "('w timer \<Rightarrow> 'w timer option) \<Rightarrow> u64 \<Rightarrow> 'w timer \<Rightarrow> 'w timer option" where
  "sleep_until hlt target t =
     (if eX_TimerTicks t < target then Option.bind (hlt t) (sleep_until hlt target) else Some t)"

definition eX_Sleep :: "('w timer \<Rightarrow> 'w timer option) \<Rightarrow> u64 \<Rightarrow> 'w timer \<Rightarrow> 'w timer option" where
  "eX_Sleep hlt seconds t = sleep_until hlt (eX_TimerTicks t + seconds * eX_PIT_FREQUENCY) t"

section \<open>Where the gates lead\<close>

text \<open>
  What the processor makes of a gate and of a descriptor: the address a present gate leads to, and
  the fields of the access and granularity bytes.
\<close>

definition gate_offset :: "eX_IDTEntry \<Rightarrow> u64" where
  "gate_offset e = ucast (offset_low e) OR push_bit 16 (ucast (offset_mid e)) OR push_bit 32 (ucast (offset_high e))"

definition gate_target :: "tables \<Rightarrow> u8 \<Rightarrow> (u16 \<times> u64) option" where
  "gate_target t vector =
     (let e = eX_IDT t ! unat vector
      in if bit (type_attr e) 7 then Some (selector e, gate_offset e) else None)"

text \<open>
  Where an interrupt ends up. A vector without a gate raises a fault, a general protection fault
  (0x0D) or, for a gate that is not present, 0x0B; a fault without a gate raises a double fault
  (0x08). When that has no gate either the processor shuts down, \<open>None\<close>.
\<close>

definition interrupt_delivery :: "tables \<Rightarrow> u8 \<Rightarrow> u8 \<Rightarrow> (u16 \<times> u64) option" where
  "interrupt_delivery t fault vector =
     (case gate_target t vector of
        Some g \<Rightarrow> Some g
      | None \<Rightarrow> (case gate_target t fault of Some g \<Rightarrow> Some g | None \<Rightarrow> gate_target t 0x08))"

lemma split_offset:
  fixes h :: u64
  shows "ucast (ucast (h AND 0xFFFF) :: u16) OR push_bit 16 (ucast (ucast (drop_bit 16 h AND 0xFFFF) :: u16)) OR
    push_bit 32 (ucast (ucast (drop_bit 32 h AND 0xFFFFFFFF) :: u32)) = h"
proof -
  have m: "(0xFFFF :: u64) = mask 16" "(0xFFFFFFFF :: u64) = mask 32" by (simp_all add: mask_eq_exp_minus_1)
  show ?thesis
    unfolding m
  proof (rule bit_word_eqI)
    fix n
    assume "n < LENGTH(64)"
    then consider "n < 16" | "16 \<le> n" "n < 32" | "32 \<le> n" "n < 64" by fastforce
    then show "bit (ucast (ucast (h AND mask 16) :: u16) OR push_bit 16 (ucast (ucast (drop_bit 16 h AND mask 16) :: u16)) OR
        push_bit 32 (ucast (ucast (drop_bit 32 h AND mask 32) :: u32)) :: u64) n = bit h n"
      by cases (auto simp: bit_or_iff bit_ucast_iff bit_and_iff bit_mask_iff bit_push_bit_iff bit_drop_bit_eq)
  qed
qed

lemma gate_target_SetGate:
  assumes "length (eX_IDT t) = 256"
  shows "gate_target (eX_IDT_SetGate vector handler t) v =
    (if v = vector then Some (0x08, handler) else gate_target t v)"
proof -
  have "unat vector < 256" by (rule order_less_le_trans [OF unat_lt8]) simp
  then show ?thesis
    using assms split_offset [of handler]
    by (auto simp: gate_target_def eX_IDT_SetGate_def gate_offset_def nth_list_update word_unat_eq_iff [symmetric])
qed

lemma length_eX_IDT_SetGate [simp]: "length (eX_IDT (eX_IDT_SetGate vector handler t)) = length (eX_IDT t)"
  by (simp add: eX_IDT_SetGate_def)

lemma idt_clear_loop:
  fixes t :: tables
  assumes "length (eX_IDT t) = 256"
  shows "for_range 0 (256 :: u64) (\<lambda>i t. t\<lparr>eX_IDT := (eX_IDT t)[unat i := zero_IDTEntry]\<rparr>) t =
    t\<lparr>eX_IDT := replicate 256 zero_IDTEntry\<rparr>"
proof -
  let ?P = "\<lambda>(j :: u64) s. s = t\<lparr>eX_IDT := replicate (unat j) zero_IDTEntry @ drop (unat j) (eX_IDT t)\<rparr>"
  have "?P 256 (for_range 0 (256 :: u64) (\<lambda>i t. t\<lparr>eX_IDT := (eX_IDT t)[unat i := zero_IDTEntry]\<rparr>) t)"
  proof (rule for_range_inv [where P = ?P])
    fix j :: u64 and s
    assume j: "0 \<le> j" "j < 256" and s: "?P j s"
    have jn: "unat j < length (eX_IDT t)" using j(2) assms by (simp add: word_less_nat_alt)
    have "unat (j + 1) = Suc (unat j)" using j(2) by (rule unat_Suc_less)
    then show "?P (j + 1) (s\<lparr>eX_IDT := (eX_IDT s)[unat j := zero_IDTEntry]\<rparr>)"
      using Cons_nth_drop_Suc [OF jn, symmetric]
      by (simp add: s list_update_append replicate_append_same [symmetric] del: replicate_append_same)
  qed simp_all
  then show ?thesis using assms by simp
qed

lemma eX_IDT_Init_gates:
  assumes "length (eX_IDT t) = 256" and "eX_IDT_Init syms (t, c) = (t', c')"
  shows "gate_target t' v =
     (if v = 0x06 then Some (0x08, addr_InvalidOpcodeHandler syms)
      else if v = 0x0E then Some (0x08, addr_PageFaultHandler syms)
      else if v = 0x20 then Some (0x08, addr_TimerHandler syms) else None)"
    and "length (eX_IDT t') = 256" and "eX_GDT t' = eX_GDT t"
    and "c' = c\<lparr>reg_idtr := \<lparr>ptr_limit = 4095, ptr_base = addr_IDT syms\<rparr>\<rparr>"
proof -
  let ?t0 = "t\<lparr>eX_IDT := replicate 256 zero_IDTEntry,
    eX_IDTPointer := \<lparr>ptr_limit = 256 * 16 - 1, ptr_base = addr_IDT syms\<rparr>\<rparr>"
  have none: "gate_target ?t0 v = None"
  proof -
    have "unat v < 256" by (rule order_less_le_trans [OF unat_lt8]) simp
    then show ?thesis by (simp add: gate_target_def zero_IDTEntry_def)
  qed
  have t': "t' = eX_IDT_SetGate 0x0E (addr_PageFaultHandler syms) (eX_IDT_SetGate 0x20 (addr_TimerHandler syms)
      (eX_IDT_SetGate 0x06 (addr_InvalidOpcodeHandler syms) ?t0))"
    and c': "c' = c\<lparr>reg_idtr := eX_IDTPointer t'\<rparr>"
    using assms(2) by (auto simp: eX_IDT_Init_def eX_IDT_Load_def Let_def idt_clear_loop [OF assms(1)])
  show "gate_target t' v =
     (if v = 0x06 then Some (0x08, addr_InvalidOpcodeHandler syms)
      else if v = 0x0E then Some (0x08, addr_PageFaultHandler syms)
      else if v = 0x20 then Some (0x08, addr_TimerHandler syms) else None)"
    unfolding t' by (simp add: gate_target_SetGate none [simplified])
  show "length (eX_IDT t') = 256" "eX_GDT t' = eX_GDT t" by (simp_all add: t' eX_IDT_SetGate_def)
  show "c' = c\<lparr>reg_idtr := \<lparr>ptr_limit = 4095, ptr_base = addr_IDT syms\<rparr>\<rparr>"
    unfolding c' t' by (simp add: eX_IDT_SetGate_def)
qed

section \<open>The stop screen and the timer\<close>

text \<open>The lines of the stop screen; vector and address appear with their low 32 bits.\<close>

definition bugcheck_text :: "u8 list \<Rightarrow> u64 \<Rightarrow> u64 \<Rightarrow> u8 list" where
  "bugcheck_text exception vector address =
     bytes_of bugcheck_notice @ [10, 10] @ exception @ [10, 10] @
     bytes_of bugcheck_advice_1 @ [10] @ bytes_of bugcheck_advice_2 @ [10, 10] @
     bytes_of ''VECTOR 0x'' @ number_text True 16 (unat (ucast vector :: u32)) @ [10] @
     bytes_of ''STOP 0x'' @ number_text True 16 (unat (ucast address :: u32)) @ [10] @
     [10] @ bytes_of bugcheck_end @ [10]"

lemma bugcheck_literals:
  "c \<in> {CHR 0x00, CHR ''%''} \<Longrightarrow> s \<in> {bugcheck_notice, bugcheck_advice_1, bugcheck_advice_2, bugcheck_end} \<Longrightarrow> c \<notin> set s"
  by (auto simp: bugcheck_notice_def bugcheck_advice_1_def bugcheck_advice_2_def bugcheck_end_def)

lemma eX_BugCheck_eq:
  assumes "0 \<notin> set exception"
  shows "eX_BugCheck (exception @ 0 # rest) vector address con =
    Some (Halted (fold eX_PrintChar (bugcheck_text exception vector address) (eX_Clear con)))"
  by (simp add: eX_BugCheck_def eX_Print_bytes bugcheck_literals eX_Print_numbers eX_Print_string [OF assms]
      bugcheck_text_def hcf_def)

lemma eX_TimerHandler_eq:
  "eX_TimerHandler dev t = Some (t\<lparr>eX_TimerTicks := eX_TimerTicks t + 1,
     timer_console := (if eX_TimerTicks t = 0 then fold eX_PrintChar (bytes_of ''IRQ0 FIRED!'' @ [10]) (timer_console t)
       else timer_console t),
     timer_world := dev_outb dev 0x20 0x20 (timer_world t)\<rparr>)"
  by (simp add: eX_TimerHandler_def Let_def eX_Outb_def eX_Print_bytes)

lemma sleep_until_ticks:
  assumes hlt: "\<And>t. \<exists>t'. hlt t = Some t' \<and> eX_TimerTicks t' = eX_TimerTicks t + 1"
    and "eX_TimerTicks t \<le> target"
  shows "\<exists>t'. sleep_until hlt target t = Some t' \<and> eX_TimerTicks t' = target"
  using assms(2)
proof (induction "unat target - unat (eX_TimerTicks t)" arbitrary: t)
  case 0
  then have "eX_TimerTicks t = target" by (simp add: word_le_nat_alt word_unat_eq_iff)
  then show ?case by (subst sleep_until.simps) simp
next
  case (Suc n)
  then have lt: "eX_TimerTicks t < target" by (simp add: word_less_nat_alt)
  obtain t' where t': "hlt t = Some t'" "eX_TimerTicks t' = eX_TimerTicks t + 1" using hlt by blast
  have "n = unat target - unat (eX_TimerTicks t')"
    using Suc.hyps(2) t'(2) unat_Suc_less [OF lt] by simp
  moreover have "eX_TimerTicks t' \<le> target" using t'(2) word_Suc_le_of_less [OF lt] by simp
  ultimately show ?case using Suc.hyps(1) t' lt by (subst sleep_until.simps) simp
qed

section \<open>The interrupt controllers\<close>

text \<open>
  What the data sheet of the 8259 documents of its initialisation: a command with bit 4 set starts
  it and clears the mask, three data bytes follow, the first of which sets the vector of the first
  line, and after them a data byte sets the mask.
\<close>

record pic8259 =
  pic_awaits :: nat
  pic_offset :: u8
  pic_mask :: u8

definition pic_command :: "u8 \<Rightarrow> pic8259 \<Rightarrow> pic8259" where
  "pic_command v p = (if bit v 4 then p\<lparr>pic_awaits := 3, pic_mask := 0\<rparr> else p)"

definition pic_data :: "u8 \<Rightarrow> pic8259 \<Rightarrow> pic8259" where
  "pic_data v p =
     (if pic_awaits p = 3 then p\<lparr>pic_awaits := 2, pic_offset := v AND 0xF8\<rparr>
      else if pic_awaits p > 0 then p\<lparr>pic_awaits := pic_awaits p - 1\<rparr>
      else p\<lparr>pic_mask := v\<rparr>)"

definition pic_write :: "u16 \<times> u8 \<Rightarrow> pic8259 \<times> pic8259 \<Rightarrow> pic8259 \<times> pic8259" where
  "pic_write = (\<lambda>(port, v) (master, slave).
     if port = 0x20 then (pic_command v master, slave)
     else if port = 0x21 then (pic_data v master, slave)
     else if port = 0xA0 then (master, pic_command v slave)
     else if port = 0xA1 then (master, pic_data v slave)
     else (master, slave))"

lemma writes_eX_Outb [simp]:
  "writes (eX_Outb trace_devices port v w) = writes w @ [(port, v)]"
  "inputs (eX_Outb trace_devices port v w) = inputs w"
  by (simp_all add: eX_Outb_def trace_devices_def)

lemma eX_PIC_Init_writes:
  "writes (eX_PIC_Init trace_devices w) = writes w @
     [(0x20, 0x11), (0xA0, 0x11), (0x21, 0x20), (0xA1, 0x28), (0x21, 0x04), (0xA1, 0x02), (0x21, 0x01), (0xA1, 0x01),
      (0x21, 0xFC), (0xA1, 0xFF)]"
  by (simp add: eX_PIC_Init_def Let_def)

lemma eX_PIC_Init_programs:
  assumes "writes w = []"
  shows "fold pic_write (writes (eX_PIC_Init trace_devices w)) (master, slave) =
    (master\<lparr>pic_awaits := 0, pic_offset := 0x20, pic_mask := 0xFC\<rparr>,
     slave\<lparr>pic_awaits := 0, pic_offset := 0x28, pic_mask := 0xFF\<rparr>)"
  by (simp add: eX_PIC_Init_writes assms pic_write_def pic_command_def pic_data_def)

lemma bit_clear_irq_bit: "irq < 8 \<Longrightarrow> bit (clear_irq_bit irq m) n \<longleftrightarrow> bit m n \<and> n \<noteq> unat irq"
  by (auto simp: clear_irq_bit_def bit_and_iff bit_ucast_iff bit_not_iff bit_exp_iff dest: bit_imp_le_length)

section \<open>Properties\<close>

text \<open>
  C17: after the descriptor tables have been set up, exactly the vectors of the invalid opcode, the
  page fault and the timer have a gate, and each leads to the full 64-bit address of its handler
  through the selector that the code segment register holds. That selector names a present ring 0
  code segment in 64-bit mode inside of the table, and the data segments a present data segment.
\<close>

theorem interrupt_gates_exact:
  assumes "length (eX_IDT t) = 256" and "length (eX_GDT t) = 3"
    and "eX_GDT_Init syms (t, c) = (t1, c1)" and "eX_IDT_Init syms (t1, c1) = (t2, c2)"
  shows "(\<forall>v. gate_target t2 v =
      (if v = 0x06 then Some (reg_cs c2, addr_InvalidOpcodeHandler syms)
       else if v = 0x0E then Some (reg_cs c2, addr_PageFaultHandler syms)
       else if v = 0x20 then Some (reg_cs c2, addr_TimerHandler syms) else None)) \<and>
    reg_idtr c2 = \<lparr>ptr_limit = 16 * 256 - 1, ptr_base = addr_IDT syms\<rparr> \<and>
    reg_gdtr c2 = \<lparr>ptr_limit = 8 * 3 - 1, ptr_base = addr_GDT syms\<rparr> \<and>
    unat (reg_cs c2) div 8 < length (eX_GDT t2) \<and>
    access (eX_GDT t2 ! (unat (reg_cs c2) div 8)) = 0x9A \<and>
    bit (granularity (eX_GDT t2 ! (unat (reg_cs c2) div 8))) 5 \<and>
    reg_ds c2 = reg_ss c2 \<and> access (eX_GDT t2 ! (unat (reg_ss c2) div 8)) = 0x92"
proof -
  have t1: "length (eX_IDT t1) = 256" "length (eX_GDT t1) = 3" "access (eX_GDT t1 ! 1) = 0x9A"
      "granularity (eX_GDT t1 ! 1) = 0xAF" "access (eX_GDT t1 ! 2) = 0x92"
    and c1: "reg_cs c1 = 0x08" "reg_ds c1 = 0x10" "reg_ss c1 = 0x10"
      "reg_gdtr c1 = \<lparr>ptr_limit = 23, ptr_base = addr_GDT syms\<rparr>"
    using assms(1-3) by (auto simp: eX_GDT_Init_def eX_GDT_Load_def Let_def nth_list_update)
  note idt = eX_IDT_Init_gates [OF t1(1) assms(4)]
  show ?thesis
    using c1 t1 by (simp add: idt)
qed

definition tables_bss :: tables where
  "tables_bss = \<lparr>eX_IDT = replicate 256 zero_IDTEntry, eX_IDTPointer = \<lparr>ptr_limit = 0, ptr_base = 0\<rparr>,
     eX_GDT = replicate 3 zero_GDTEntry, eX_GDTPointer = \<lparr>ptr_limit = 0, ptr_base = 0\<rparr>\<rparr>"

definition sample_symbols :: symbols where
  "sample_symbols = \<lparr>addr_IDT = 0xFFFFFFFF80010000, addr_GDT = 0xFFFFFFFF80011000,
     addr_InvalidOpcodeHandler = 0xFFFFFFFF80001234, addr_TimerHandler = 0xFFFFFFFF80002345,
     addr_PageFaultHandler = 0xFFFFFFFF80003456\<rparr>"

definition sample_cpu :: cpu where
  "sample_cpu = \<lparr>reg_cs = 0x28, reg_ds = 0x30, reg_es = 0x30, reg_ss = 0x30,
     reg_gdtr = \<lparr>ptr_limit = 0, ptr_base = 0\<rparr>, reg_idtr = \<lparr>ptr_limit = 0, ptr_base = 0\<rparr>,
     reg_cr2 = 0, reg_if = False\<rparr>"

theorem interrupt_gates_exact_witness:
  "\<exists>t c. eX_IDT_Init sample_symbols (eX_GDT_Init sample_symbols (tables_bss, sample_cpu)) = (t, c) \<and>
     gate_target t 0x20 = Some (0x08, 0xFFFFFFFF80002345) \<and> gate_target t 0x21 = None"
proof -
  obtain t1 c1 where 1: "eX_GDT_Init sample_symbols (tables_bss, sample_cpu) = (t1, c1)" by fastforce
  obtain t2 c2 where 2: "eX_IDT_Init sample_symbols (t1, c1) = (t2, c2)" by fastforce
  have "length (eX_IDT tables_bss) = 256" "length (eX_GDT tables_bss) = 3" by (simp_all add: tables_bss_def)
  note gates = interrupt_gates_exact [OF this 1 2]
  have "reg_cs c2 = 0x08"
    using 1 2 by (auto simp: eX_GDT_Init_def eX_GDT_Load_def eX_IDT_Init_def eX_IDT_Load_def Let_def)
  then show ?thesis using gates 1 2 by (simp add: sample_symbols_def)
qed

text \<open>
  C27: every exception stops the machine: \<^verbatim>\<open>eX_BugCheck\<close> always reaches the final halt, with a
  cleared screen that shows the notice, the name of the exception, and vector and address in
  hexadecimal. The address is printed as a 32-bit argument: of the address of a page fault, the
  screen shows the low 32 bits only.
\<close>

theorem bugcheck_halts_with_message:
  assumes "0 \<notin> set exception"
  shows "eX_BugCheck (exception @ [0]) vector address con =
      Some (Halted (fold eX_PrintChar (bugcheck_text exception vector address) (eX_Clear con))) \<and>
    eX_PageFaultHandler c con = Some (Halted (fold eX_PrintChar
      (bugcheck_text (bytes_of ''Page Fault'') 0x0E (ucast (ucast (reg_cr2 c) :: u32))) (eX_Clear con))) \<and>
    eX_InvalidOpcodeHandler con = Some (Halted (fold eX_PrintChar
      (bugcheck_text (bytes_of ''Invalid Opcode'') 0x06 0) (eX_Clear con)))"
proof -
  have "(ucast (ucast (ucast x :: u32) :: u64) :: u32) = ucast x" for x :: u64
    by (rule bit_word_eqI) (simp add: bit_ucast_iff)
  then have low: "bugcheck_text e v (ucast (ucast x :: u32)) = bugcheck_text e v x" for e v x
    by (simp add: bugcheck_text_def)
  have "eX_BugCheck (cstr s) v a con =
      Some (Halted (fold eX_PrintChar (bugcheck_text (bytes_of s) v a) (eX_Clear con)))"
    if "CHR 0x00 \<notin> set s" for s v a
    using eX_BugCheck_eq [of "bytes_of s" "[]" v a con] that by (simp add: cstr_def)
  then show ?thesis
    using eX_BugCheck_eq [OF assms, of "[]"] by (simp add: low eX_PageFaultHandler_def eX_InvalidOpcodeHandler_def)
qed

theorem bugcheck_halts_with_message_witness:
  "eX_PageFaultHandler (sample_cpu\<lparr>reg_cr2 := 0xFFFFFFFF80000010\<rparr>) sample_console = Some (Halted (fold eX_PrintChar
     (bugcheck_text (bytes_of ''Page Fault'') 0x0E 0x80000010) (eX_Clear sample_console)))"
  using bugcheck_halts_with_message [of "[65]" 0 0 sample_console "sample_cpu\<lparr>reg_cr2 := 0xFFFFFFFF80000010\<rparr>"] by simp

text \<open>
  C24: when every halt of the processor ends with one timer interrupt, \<^verbatim>\<open>eX_Sleep\<close> returns after
  exactly one hundred ticks per second, provided that the target does not exceed 64 bits.
\<close>

theorem sleep_returns_on_time:
  assumes "unat (eX_TimerTicks t) + unat seconds * 100 < 2 ^ 64"
  shows "\<exists>t'. eX_Sleep (eX_TimerHandler dev) seconds t = Some t' \<and>
    unat (eX_TimerTicks t') = unat (eX_TimerTicks t) + unat seconds * 100"
proof -
  have "unat (seconds * eX_PIT_FREQUENCY) = unat seconds * 100"
    using assms by (simp add: eX_PIT_FREQUENCY_def unat_mult_no_wrap)
  then have target: "unat (eX_TimerTicks t + seconds * eX_PIT_FREQUENCY) = unat (eX_TimerTicks t) + unat seconds * 100"
    using assms by (simp add: unat_add_no_wrap)
  then have "eX_TimerTicks t \<le> eX_TimerTicks t + seconds * eX_PIT_FREQUENCY" by (simp add: word_le_nat_alt)
  then have "\<exists>t'. sleep_until (eX_TimerHandler dev) (eX_TimerTicks t + seconds * eX_PIT_FREQUENCY) t = Some t' \<and>
      eX_TimerTicks t' = eX_TimerTicks t + seconds * eX_PIT_FREQUENCY"
    by (intro sleep_until_ticks) (simp_all add: eX_TimerHandler_eq)
  then show ?thesis using target by (auto simp: eX_Sleep_def)
qed

theorem sleep_returns_on_time_witness:
  "\<exists>t'. eX_Sleep (eX_TimerHandler trace_devices) 2
     \<lparr>eX_TimerTicks = 7, timer_console = sample_console, timer_world = \<lparr>inputs = (\<lambda>_. []), writes = []\<rparr>\<rparr> = Some t' \<and>
     unat (eX_TimerTicks t') = 207"
  using sleep_returns_on_time [of "\<lparr>eX_TimerTicks = 7, timer_console = sample_console,
    timer_world = \<lparr>inputs = (\<lambda>_. []), writes = []\<rparr>\<rparr>" 2 trace_devices] by simp

text \<open>
  The interrupt controllers are programmed so that lines 0 and 1, timer and keyboard, are the
  only ones enabled, on vectors 0x20 and 0x21, but the keyboard vector has no gate, and neither has
  any fault that a missing gate raises: a keyboard interrupt that reaches the processor shuts it down,
  while one of the timer arrives at its handler.
\<close>

theorem keyboard_interrupt_has_no_gate:
  assumes "writes w = []" and "length (eX_IDT t) = 256" and "eX_IDT_Init syms (t, c) = (t', c')"
    and "fold pic_write (writes (eX_PIC_Init trace_devices w)) (master, slave) = (master', slave')"
    and "fault \<in> {0x0B, 0x0D}"
  shows "(\<forall>line < 8. \<not> bit (pic_mask master') line \<longleftrightarrow> line \<in> {0, 1}) \<and>
    (\<forall>line < 8. bit (pic_mask slave') line) \<and>
    interrupt_delivery t' fault (pic_offset master' + 0) = Some (0x08, addr_TimerHandler syms) \<and>
    interrupt_delivery t' fault (pic_offset master' + 1) = None"
proof -
  have pics: "pic_mask master' = 0xFC" "pic_offset master' = 0x20" "pic_mask slave' = 0xFF"
    using assms(4) unfolding eX_PIC_Init_programs [OF assms(1)] by auto
  have "\<forall>line < 8. \<not> bit (0xFC :: u8) line \<longleftrightarrow> line \<in> {0, 1}" "\<forall>line < 8. bit (0xFF :: u8) line"
    by code_simp+
  then show ?thesis
    using assms(5) by (auto simp: pics interrupt_delivery_def eX_IDT_Init_gates [OF assms(2,3)])
qed

theorem keyboard_interrupt_has_no_gate_witness:
  "\<exists>t' c'. eX_IDT_Init sample_symbols (tables_bss, sample_cpu) = (t', c') \<and> interrupt_delivery t' 0x0D 0x21 = None"
proof -
  let ?w = "\<lparr>inputs = (\<lambda>_. []), writes = []\<rparr>" and ?p = "\<lparr>pic_awaits = 0, pic_offset = 8, pic_mask = 0\<rparr>"
  obtain t' c' where t': "eX_IDT_Init sample_symbols (tables_bss, sample_cpu) = (t', c')" by fastforce
  have w: "writes ?w = []" and len: "length (eX_IDT tables_bss) = 256" by (simp_all add: tables_bss_def)
  have "interrupt_delivery t' 0x0D (0x20 + 1) = None"
    using keyboard_interrupt_has_no_gate [OF w len t' eX_PIC_Init_programs [OF w, of ?p ?p], of "0x0D"] by simp
  then show ?thesis using t' by simp
qed

text \<open>
  \<^verbatim>\<open>eX_PIC_UnmaskIRQ\<close> reads the mask of the controller that a line belongs to and writes it back
  with the bit of that line cleared and every other bit kept; a number above 15 does nothing.
\<close>

theorem unmask_irq_clears_one_bit:
  "\<exists>m'. eX_PIC_UnmaskIRQ dev irq w =
     (if irq < 8 then dev_outb dev 0x21 m' (snd (dev_inb dev 0x21 w))
      else if irq < 16 then dev_outb dev 0xA1 m' (snd (dev_inb dev 0xA1 w)) else w) \<and>
   (\<forall>n. bit m' n \<longleftrightarrow> bit (fst (dev_inb dev (if irq < 8 then 0x21 else 0xA1) w)) n \<and> n \<noteq> unat irq mod 8)"
proof -
  define b where "b = (if irq < 8 then irq else if irq < 16 then irq - 8 else irq mod 8)"
  have b8: "b < 8"
    by (auto simp: b_def word_less_nat_alt unat_sub word_le_nat_alt unat_mod)
  have ub: "unat b = unat irq mod 8"
    by (auto simp: b_def word_less_nat_alt unat_sub word_le_nat_alt unat_mod mod_if)
  let ?m = "clear_irq_bit b (fst (dev_inb dev (if irq < 8 then 0x21 else 0xA1) w))"
  have "eX_PIC_UnmaskIRQ dev irq w =
     (if irq < 8 then dev_outb dev 0x21 ?m (snd (dev_inb dev 0x21 w))
      else if irq < 16 then dev_outb dev 0xA1 ?m (snd (dev_inb dev 0xA1 w)) else w)"
    by (simp add: eX_PIC_UnmaskIRQ_def eX_Inb_def eX_Outb_def b_def split: prod.split)
  then show ?thesis using bit_clear_irq_bit [OF b8] ub by (intro exI [of _ ?m]) simp
qed

end
