(* ===== verification/Eyax_Ppa.thy ===== *)
theory Eyax_Ppa
  imports Eyax_Bitmap Eyax_Memory Eyax_Cpu
begin

text \<open>
  The page allocator inside of \<^verbatim>\<open>src/main.c\<close>: a bitmap of used pages that is placed into the first
  usable memory range that can hold it. The pointer to the bitmap is its address, zero for the null
  pointer, and the bitmap is part of the memory of bytes.
\<close>

section \<open>State and bitmap\<close>

definition eX_PAGE_SIZE :: u64 where
  "eX_PAGE_SIZE = 4096"

record ppa =
  eX_PageBitmap :: u64
  eX_PageCount :: u64
  eX_FreePageCount :: u64
  ppa_memory :: memory

definition eX_PageSet :: "u64 \<Rightarrow> ppa \<Rightarrow> ppa" where
  "eX_PageSet page s = s\<lparr>ppa_memory := (ppa_memory s)(eX_PageBitmap s + page div 8 :=
     ppa_memory s (eX_PageBitmap s + page div 8) OR bit_mask page)\<rparr>"

definition eX_PageClear :: "u64 \<Rightarrow> ppa \<Rightarrow> ppa" where
  "eX_PageClear page s = s\<lparr>ppa_memory := (ppa_memory s)(eX_PageBitmap s + page div 8 :=
     ppa_memory s (eX_PageBitmap s + page div 8) AND bit_unmask page)\<rparr>"

definition eX_PageIsUsed :: "u64 \<Rightarrow> ppa \<Rightarrow> bool" where
  "eX_PageIsUsed page s \<longleftrightarrow> ppa_memory s (eX_PageBitmap s + page div 8) AND bit_mask page \<noteq> 0"

definition eX_PageBitmapSize :: "ppa \<Rightarrow> u64" where
  "eX_PageBitmapSize s = (eX_PageCount s + 7) div 8"

section \<open>Initialisation\<close>

definition ppa_highest :: "limine_memmap_response \<Rightarrow> u64 option" where
  "ppa_highest response = for_range_opt 0 (entry_count response) (\<lambda>i highest_address. do {
     entry \<leftarrow> memmap_entry response i;
     let end_addr = me_base entry + me_length entry;
     Some (if end_addr > highest_address then end_addr else highest_address)
   }) 0"

text \<open>The loop that looks for a place and leaves by \<^verbatim>\<open>break\<close>; zero when there is none.\<close>

function ppa_place :: "u64 \<Rightarrow> limine_memmap_response \<Rightarrow> u64 \<Rightarrow> u64 option" where
  "ppa_place i response bitmap_size =
     (if i < entry_count response then do {
        entry \<leftarrow> memmap_entry response i;
        if me_type entry \<noteq> LIMINE_MEMMAP_USABLE then ppa_place (i + 1) response bitmap_size
        else if me_length entry \<ge> bitmap_size then Some (me_base entry)
        else ppa_place (i + 1) response bitmap_size
      } else Some 0)"
  by pat_completeness auto

termination
  by (relation "measure (\<lambda>(i, response, n). unat (entry_count response) - unat i)")
    (auto simp: unat_Suc_less word_less_nat_alt)

declare ppa_place.simps [simp del]

definition ppa_release_entry :: "limine_memmap_entry \<Rightarrow> ppa \<Rightarrow> ppa" where
  "ppa_release_entry entry s =
     (if me_type entry \<noteq> LIMINE_MEMMAP_USABLE then s
      else
        let first_page = (me_base entry + eX_PAGE_SIZE - 1) div eX_PAGE_SIZE;
            last_page = (me_base entry + me_length entry) div eX_PAGE_SIZE
        in for_range first_page last_page (\<lambda>page s.
             let s = eX_PageClear page s
             in s\<lparr>eX_FreePageCount := eX_FreePageCount s + 1\<rparr>) s)"

definition ppa_reserve_page :: "u64 \<Rightarrow> ppa \<Rightarrow> ppa" where
  "ppa_reserve_page page s =
     (if \<not> eX_PageIsUsed page s then
        let s = eX_PageSet page s
        in s\<lparr>eX_FreePageCount := eX_FreePageCount s - 1\<rparr>
      else s)"

definition eX_PPA_Init :: "limine_memmap_response \<Rightarrow> ppa \<times> console \<Rightarrow> (ppa \<times> console) outcome option" where
  "eX_PPA_Init response = (\<lambda>(s, con). do {
     highest_address \<leftarrow> ppa_highest response;
     let s = s\<lparr>eX_PageCount := (highest_address + eX_PAGE_SIZE - 1) div eX_PAGE_SIZE\<rparr>;
     let bitmap_size = (eX_PageCount s + 7) div 8;
     bitmap \<leftarrow> ppa_place 0 response bitmap_size;
     let s = s\<lparr>eX_PageBitmap := bitmap\<rparr>;
     if eX_PageBitmap s = 0 then do {
       con \<leftarrow> eX_Print (bytes_of ''PPA: Cannot place bitmap!'' @ [10, 0]) [] con;
       Some (hcf (s, con))
     } else do {
       let s = s\<lparr>ppa_memory := for_range 0 bitmap_size (\<lambda>i m. m(eX_PageBitmap s + i := 0xFF)) (ppa_memory s)\<rparr>;
       let s = s\<lparr>eX_FreePageCount := 0\<rparr>;
       s \<leftarrow> for_range_opt 0 (entry_count response) (\<lambda>i s. do {
           entry \<leftarrow> memmap_entry response i;
           Some (ppa_release_entry entry s)
         }) s;
       let bitmap_first_page = eX_PageBitmap s div eX_PAGE_SIZE;
       let bitmap_last_page = (eX_PageBitmap s + bitmap_size + eX_PAGE_SIZE - 1) div eX_PAGE_SIZE;
       Some (Running (for_range bitmap_first_page bitmap_last_page ppa_reserve_page s, con))
     }
   })"

section \<open>The bitmap in memory\<close>

text \<open>The bitmap as an array of bytes.\<close>

definition ppa_window :: "ppa \<Rightarrow> bytes" where
  "ppa_window s = (\<lambda>i. ppa_memory s (eX_PageBitmap s + i))"

definition ppa_used :: "ppa \<Rightarrow> u64 set" where
  "ppa_used s = {page. page_bit (ppa_window s) page}"

lemma ppa_window_ops:
  "ppa_window (eX_PageSet page s) = (ppa_window s)(page div 8 := ppa_window s (page div 8) OR bit_mask page)"
  "ppa_window (eX_PageClear page s) = (ppa_window s)(page div 8 := ppa_window s (page div 8) AND bit_unmask page)"
  by (auto simp: ppa_window_def eX_PageSet_def eX_PageClear_def fun_eq_iff)

lemma ppa_used_ops:
  "ppa_used (eX_PageSet page s) = insert page (ppa_used s)"
  "ppa_used (eX_PageClear page s) = ppa_used s - {page}"
  "eX_PageIsUsed page s \<longleftrightarrow> page \<in> ppa_used s"
proof -
  show "ppa_used (eX_PageSet page s) = insert page (ppa_used s)"
    unfolding ppa_used_def ppa_window_ops page_bit_or by auto
  show "ppa_used (eX_PageClear page s) = ppa_used s - {page}"
    unfolding ppa_used_def ppa_window_ops page_bit_and by auto
  show "eX_PageIsUsed page s \<longleftrightarrow> page \<in> ppa_used s"
    by (simp add: eX_PageIsUsed_def and_bit_mask ppa_used_def ppa_window_def page_bit_def)
qed

interpretation ppa: frame_bitmap "\<lambda>s page. Some (eX_PageIsUsed page s)" "\<lambda>s page. Some (eX_PageSet page s)"
    "\<lambda>s page. Some (eX_PageClear page s)" "\<lambda>page. True" ppa_used
  by unfold_locales (simp_all add: ppa_used_ops)

section \<open>What initialisation does to the bitmap\<close>

definition ppa_free :: "ppa \<Rightarrow> u64 set" where
  "ppa_free s = {page. page < eX_PageCount s \<and> page \<notin> ppa_used s}"

text \<open>
  The invariant of the loops, relative to the state before them: the counter is the number of free
  pages, and only bytes of the bitmap change.
\<close>

definition ppa_inv :: "ppa \<Rightarrow> ppa \<Rightarrow> bool" where
  "ppa_inv s0 s \<longleftrightarrow> eX_PageBitmap s = eX_PageBitmap s0 \<and> eX_PageCount s = eX_PageCount s0 \<and>
     eX_FreePageCount s = of_nat (card (ppa_free s)) \<and>
     (\<forall>x. x - eX_PageBitmap s0 \<notin> {0..<eX_PageBitmapSize s0} \<longrightarrow> ppa_memory s x = ppa_memory s0 x)"

lemma ppa_invD:
  assumes "ppa_inv s0 s"
  shows "eX_PageBitmap s = eX_PageBitmap s0" "eX_PageCount s = eX_PageCount s0"
    "eX_FreePageCount s = of_nat (card (ppa_free s))"
    "x - eX_PageBitmap s0 \<notin> {0..<eX_PageBitmapSize s0} \<Longrightarrow> ppa_memory s x = ppa_memory s0 x"
  using assms unfolding ppa_inv_def by blast+

lemma ppa_invI:
  assumes "eX_PageBitmap s = eX_PageBitmap s0" "eX_PageCount s = eX_PageCount s0"
    "eX_FreePageCount s = of_nat (card (ppa_free s))"
    "\<And>x. x - eX_PageBitmap s0 \<notin> {0..<eX_PageBitmapSize s0} \<Longrightarrow> ppa_memory s x = ppa_memory s0 x"
  shows "ppa_inv s0 s"
  using assms unfolding ppa_inv_def by blast

lemma ppa_used_counter [simp]: "ppa_used (s\<lparr>eX_FreePageCount := n\<rparr>) = ppa_used s"
  by (simp add: ppa_used_def ppa_window_def)

lemma ppa_op_fields [simp]:
  "eX_PageBitmap (eX_PageSet page s) = eX_PageBitmap s" "eX_PageCount (eX_PageSet page s) = eX_PageCount s"
  "eX_FreePageCount (eX_PageSet page s) = eX_FreePageCount s"
  "eX_PageBitmap (eX_PageClear page s) = eX_PageBitmap s" "eX_PageCount (eX_PageClear page s) = eX_PageCount s"
  "eX_FreePageCount (eX_PageClear page s) = eX_FreePageCount s"
  by (simp_all add: eX_PageSet_def eX_PageClear_def)

text \<open>Page counts are far below the size of the address space, so that the rounding does not wrap.\<close>

lemma page_byte_index:
  assumes "page < eX_PageCount s" and "unat (eX_PageCount s) \<le> 2 ^ 52"
  shows "page div 8 < eX_PageBitmapSize s"
proof -
  have "unat (eX_PageCount s + 7) = unat (eX_PageCount s) + 7" using assms(2) by (simp add: unat_add_no_wrap)
  moreover have "unat page div 8 < (unat (eX_PageCount s) + 7) div 8"
    using assms(1) by (simp add: word_less_nat_alt)
  ultimately show ?thesis by (simp add: eX_PageBitmapSize_def word_less_nat_alt unat_div)
qed

lemma ppa_inv_release:
  assumes inv: "ppa_inv s0 s" and page: "page < eX_PageCount s0" "page \<in> ppa_used s"
    and count: "unat (eX_PageCount s0) \<le> 2 ^ 52"
  defines "s' \<equiv> (eX_PageClear page s)\<lparr>eX_FreePageCount := eX_FreePageCount s + 1\<rparr>"
  shows "ppa_inv s0 s' \<and> ppa_used s' = ppa_used s - {page}"
proof (intro conjI ppa_invI)
  note fields = ppa_invD(1-3) [OF inv]
  show used: "ppa_used s' = ppa_used s - {page}" by (simp add: s'_def ppa_used_ops)
  show "eX_PageBitmap s' = eX_PageBitmap s0" "eX_PageCount s' = eX_PageCount s0"
    by (simp_all add: s'_def fields)
  have "ppa_free s' = insert page (ppa_free s)" "page \<notin> ppa_free s"
    using page fields(2) by (auto simp: ppa_free_def used) (simp add: s'_def)+
  then show "eX_FreePageCount s' = of_nat (card (ppa_free s'))"
    using fields(3) by (simp add: s'_def)
  show "ppa_memory s' x = ppa_memory s0 x" if x: "x - eX_PageBitmap s0 \<notin> {0..<eX_PageBitmapSize s0}" for x
  proof -
    have "x \<noteq> eX_PageBitmap s0 + page div 8" using x page_byte_index [OF page(1) count] by auto
    then show ?thesis using ppa_invD(4) [OF inv x] by (simp add: s'_def eX_PageClear_def fields(1))
  qed
qed

lemma ppa_inv_reserve:
  assumes inv: "ppa_inv s0 s" and page: "page < eX_PageCount s0"
    and count: "unat (eX_PageCount s0) \<le> 2 ^ 52"
  shows "ppa_inv s0 (ppa_reserve_page page s) \<and> ppa_used (ppa_reserve_page page s) = insert page (ppa_used s)"
proof (cases "page \<in> ppa_used s")
  case True
  then show ?thesis using inv by (auto simp: ppa_reserve_page_def ppa_used_ops)
next
  case False
  note fields = ppa_invD(1-3) [OF inv]
  define s' where "s' = (eX_PageSet page s)\<lparr>eX_FreePageCount := eX_FreePageCount s - 1\<rparr>"
  have s': "ppa_reserve_page page s = s'" using False by (simp add: ppa_reserve_page_def ppa_used_ops s'_def Let_def)
  have used: "ppa_used s' = insert page (ppa_used s)" by (simp add: s'_def ppa_used_ops)
  have mem: "page \<in> ppa_free s" using False page fields(2) by (simp add: ppa_free_def)
  have "ppa_free s' = ppa_free s - {page}"
    by (auto simp: ppa_free_def used) (simp_all add: s'_def)
  moreover have "card (ppa_free s) = Suc (card (ppa_free s - {page}))"
    using finite mem by (rule card.remove)
  ultimately have "eX_FreePageCount s' = of_nat (card (ppa_free s'))"
    using fields(3) by (simp add: s'_def)
  moreover have "ppa_memory s' x = ppa_memory s0 x" if x: "x - eX_PageBitmap s0 \<notin> {0..<eX_PageBitmapSize s0}" for x
  proof -
    have "x \<noteq> eX_PageBitmap s0 + page div 8" using x page_byte_index [OF page count] by auto
    then show ?thesis using ppa_invD(4) [OF inv x] by (simp add: s'_def eX_PageSet_def fields(1))
  qed
  ultimately show ?thesis unfolding s' used by (intro conjI ppa_invI refl) (simp_all add: s'_def fields)
qed

definition entry_pages :: "limine_memmap_entry \<Rightarrow> u64 set" where
  "entry_pages e = (if me_type e = LIMINE_MEMMAP_USABLE
     then {(me_base e + eX_PAGE_SIZE - 1) div eX_PAGE_SIZE..<(me_base e + me_length e) div eX_PAGE_SIZE} else {})"

lemma ppa_release_entry_pages:
  assumes inv: "ppa_inv s0 s" and used: "entry_pages e \<subseteq> ppa_used s"
    and bound: "entry_pages e \<subseteq> {page. page < eX_PageCount s0}" and count: "unat (eX_PageCount s0) \<le> 2 ^ 52"
  shows "ppa_inv s0 (ppa_release_entry e s) \<and> ppa_used (ppa_release_entry e s) = ppa_used s - entry_pages e"
proof (cases "me_type e = LIMINE_MEMMAP_USABLE")
  case False
  then show ?thesis using inv by (simp add: ppa_release_entry_def entry_pages_def)
next
  case True
  let ?first = "(me_base e + eX_PAGE_SIZE - 1) div eX_PAGE_SIZE" and ?last = "(me_base e + me_length e) div eX_PAGE_SIZE"
  let ?body = "\<lambda>page s. let s = eX_PageClear page s in s\<lparr>eX_FreePageCount := eX_FreePageCount s + 1\<rparr>"
  have pages: "entry_pages e = {?first..<?last}" using True by (simp add: entry_pages_def)
  have run: "ppa_release_entry e s = for_range ?first ?last ?body s" using True by (simp add: ppa_release_entry_def)
  show ?thesis
  proof (cases "?first \<le> ?last")
    case False
    then show ?thesis using inv by (simp add: run pages not_le)
  next
    case le: True
    have "ppa_inv s0 (for_range ?first ?last ?body s) \<and>
      ppa_used (for_range ?first ?last ?body s) = ppa_used s - {?first..<?last}"
    proof (rule for_range_inv [where P = "\<lambda>j t. ppa_inv s0 t \<and> ppa_used t = ppa_used s - {?first..<j}"])
      fix j t
      assume j: "?first \<le> j" "j < ?last" and t: "ppa_inv s0 t \<and> ppa_used t = ppa_used s - {?first..<j}"
      have "j < eX_PageCount s0" "j \<in> ppa_used t" using j t bound used unfolding pages by auto
      then show "ppa_inv s0 (?body j t) \<and> ppa_used (?body j t) = ppa_used s - {?first..<j + 1}"
        using ppa_inv_release [of s0 t j] t count
        by (auto simp: Let_def word_atLeastLessThan_Suc [OF j])
    qed (use inv le in auto)
    then show ?thesis by (simp add: run pages)
  qed
qed

lemma ppa_reserve_pages:
  fixes first last :: u64
  assumes inv: "ppa_inv s0 s" and le: "first \<le> last" and bound: "last \<le> eX_PageCount s0"
    and count: "unat (eX_PageCount s0) \<le> 2 ^ 52"
  shows "ppa_inv s0 (for_range first last ppa_reserve_page s) \<and>
    ppa_used (for_range first last ppa_reserve_page s) = ppa_used s \<union> {first..<last}"
proof (rule for_range_inv [where P = "\<lambda>j t. ppa_inv s0 t \<and> ppa_used t = ppa_used s \<union> {first..<j}"])
  fix j t
  assume j: "first \<le> j" "j < last" and t: "ppa_inv s0 t \<and> ppa_used t = ppa_used s \<union> {first..<j}"
  have "j < eX_PageCount s0" using j(2) bound by (rule less_le_trans)
  then show "ppa_inv s0 (ppa_reserve_page j t) \<and> ppa_used (ppa_reserve_page j t) = ppa_used s \<union> {first..<j + 1}"
    using ppa_inv_reserve [of s0 t j] t count by (auto simp: word_atLeastLessThan_Suc [OF j])
qed (use inv le in auto)

section \<open>The memory map\<close>

text \<open>
  What the allocator relies on of the memory map: no range reaches the last page of the address
  space, and the usable ranges are disjoint and do not start at address zero.
\<close>

definition sane_map :: "limine_memmap_entry list \<Rightarrow> bool" where
  "sane_map es \<longleftrightarrow>
     list_all (\<lambda>e. unat (me_base e) + unat (me_length e) \<le> 2 ^ 64 - 4096 \<and>
       (me_type e = LIMINE_MEMMAP_USABLE \<longrightarrow> me_base e \<noteq> 0)) es \<and>
     (\<forall>i j. i < j \<longrightarrow> j < length es \<longrightarrow> entry_pages (es ! i) \<inter> entry_pages (es ! j) = {})"

lemma sane_map_end:
  assumes "sane_map es" and "e \<in> set es"
  shows "unat (me_base e + me_length e) = unat (me_base e) + unat (me_length e)"
    and "unat (me_base e) + unat (me_length e) \<le> 2 ^ 64 - 4096"
proof -
  show "unat (me_base e) + unat (me_length e) \<le> 2 ^ 64 - 4096"
    using assms unfolding sane_map_def list_all_iff by blast
  then show "unat (me_base e + me_length e) = unat (me_base e) + unat (me_length e)"
    by (simp add: unat_add_no_wrap)
qed

lemma ppa_highest_eq:
  assumes ok: "memmap_ok response es"
  shows "\<exists>h. ppa_highest response = Some h \<and> (\<forall>e \<in> set es. me_base e + me_length e \<le> h) \<and>
    (h = 0 \<or> (\<exists>e \<in> set es. h = me_base e + me_length e))"
proof -
  have count: "unat (entry_count response) = length es" using ok by (simp add: memmap_ok_def)
  let ?P = "\<lambda>j h. (\<forall>e \<in> set (take (unat j) es). me_base e + me_length e \<le> h) \<and>
    (h = 0 \<or> (\<exists>e \<in> set es. h = me_base e + me_length e))"
  have "\<exists>h. ppa_highest response = Some h \<and> ?P (entry_count response) h"
    unfolding ppa_highest_def
  proof (rule for_range_opt_inv [where P = ?P])
    fix j h
    assume j: "0 \<le> j" "j < entry_count response" and h: "?P j h"
    have jn: "unat j < length es" using j(2) count by (simp add: word_less_nat_alt)
    let ?e = "es ! unat j"
    have "set (take (unat (j + 1)) es) = insert ?e (set (take (unat j) es))"
      using jn unat_Suc_less [OF j(2)] by (simp add: take_Suc_conv_app_nth)
    moreover have "?e \<in> set es" using jn by simp
    ultimately show "\<exists>h'. Option.bind (memmap_entry response j) (\<lambda>entry. Let (me_base entry + me_length entry)
          (\<lambda>end_addr. Some (if h < end_addr then end_addr else h))) = Some h' \<and> ?P (j + 1) h'"
      using h by (auto simp: memmap_ok_entry [OF ok j(2)] Let_def not_less intro: order_trans less_imp_le)
  qed simp_all
  then show ?thesis using count by simp
qed

lemma ppa_place_eq:
  assumes ok: "memmap_ok response es"
  shows "\<exists>b. ppa_place i response n = Some b \<and>
    (b = 0 \<and> (\<forall>e \<in> set (drop (unat i) es). me_type e = LIMINE_MEMMAP_USABLE \<longrightarrow> me_length e < n) \<or>
     (\<exists>e \<in> set es. me_type e = LIMINE_MEMMAP_USABLE \<and> n \<le> me_length e \<and> b = me_base e))"
  using ok
proof (induction i response n rule: ppa_place.induct)
  case (1 i response n)
  have count: "unat (entry_count response) = length es" using "1.prems" by (simp add: memmap_ok_def)
  show ?case
  proof (cases "i < entry_count response")
    case False
    then have "drop (unat i) es = []" using count by (simp add: word_less_nat_alt)
    then show ?thesis using False by (subst (1) ppa_place.simps) simp
  next
    case True
    let ?e = "es ! unat i"
    have e: "memmap_entry response i = Some ?e" using "1.prems" True by (rule memmap_ok_entry)
    have i: "unat i < length es" using True count by (simp add: word_less_nat_alt)
    then have drop: "drop (unat i) es = ?e # drop (unat (i + 1)) es"
      using Cons_nth_drop_Suc [OF i] unat_Suc_less [OF True] by simp
    show ?thesis
    proof (cases "me_type ?e = LIMINE_MEMMAP_USABLE \<and> n \<le> me_length ?e")
      case found: True
      then have "ppa_place i response n = Some (me_base ?e)"
        using True e by (subst ppa_place.simps) simp
      then show ?thesis using found i by auto
    next
      case skip: False
      then have "ppa_place i response n = ppa_place (i + 1) response n"
        using True e by (subst ppa_place.simps) auto
      moreover have "\<exists>b. ppa_place (i + 1) response n = Some b \<and>
          (b = 0 \<and> (\<forall>e \<in> set (drop (unat (i + 1)) es). me_type e = LIMINE_MEMMAP_USABLE \<longrightarrow> me_length e < n) \<or>
           (\<exists>e \<in> set es. me_type e = LIMINE_MEMMAP_USABLE \<and> n \<le> me_length e \<and> b = me_base e))"
        using "1.IH" [OF True e] skip "1.prems" by (cases "me_type ?e = LIMINE_MEMMAP_USABLE") auto
      ultimately show ?thesis using skip unfolding drop by (auto simp: not_le)
    qed
  qed
qed

lemma ppa_release_entries:
  assumes ok: "memmap_ok response es" and sane: "sane_map es"
    and inv: "ppa_inv s0 s" and used: "{page. page < eX_PageCount s0} \<subseteq> ppa_used s"
    and bound: "\<And>e. e \<in> set es \<Longrightarrow> entry_pages e \<subseteq> {page. page < eX_PageCount s0}"
    and count: "unat (eX_PageCount s0) \<le> 2 ^ 52"
  shows "\<exists>s'. for_range_opt 0 (entry_count response) (\<lambda>i s. do {
       entry \<leftarrow> memmap_entry response i;
       Some (ppa_release_entry entry s)
     }) s = Some s' \<and> ppa_inv s0 s' \<and> ppa_used s' = ppa_used s - \<Union> (entry_pages ` set es)"
proof -
  have n: "unat (entry_count response) = length es" using ok by (simp add: memmap_ok_def)
  let ?P = "\<lambda>j t. ppa_inv s0 t \<and> ppa_used t = ppa_used s - \<Union> (entry_pages ` set (take (unat j) es))"
  have "\<exists>t. for_range_opt 0 (entry_count response) (\<lambda>i s. do {
       entry \<leftarrow> memmap_entry response i;
       Some (ppa_release_entry entry s)
     }) s = Some t \<and> ?P (entry_count response) t"
  proof (rule for_range_opt_inv [where P = ?P])
    fix j t
    assume j: "0 \<le> j" "j < entry_count response" and t: "?P j t"
    have jn: "unat j < length es" using j(2) n by (simp add: word_less_nat_alt)
    let ?e = "es ! unat j"
    have mem: "?e \<in> set es" using jn by simp
    have take: "set (take (unat (j + 1)) es) = insert ?e (set (take (unat j) es))"
      using jn unat_Suc_less [OF j(2)] by (simp add: take_Suc_conv_app_nth)
    have "entry_pages e \<inter> entry_pages ?e = {}" if e: "e \<in> set (take (unat j) es)" for e
    proof -
      obtain i where "i < unat j" "e = es ! i" using e jn by (auto simp: in_set_conv_nth)
      then show ?thesis using sane jn unfolding sane_map_def by blast
    qed
    then have "entry_pages ?e \<subseteq> ppa_used t" using t used bound [OF mem] by blast
    from ppa_release_entry_pages [OF _ this bound [OF mem] count] t
    have "ppa_inv s0 (ppa_release_entry ?e t)" "ppa_used (ppa_release_entry ?e t) = ppa_used t - entry_pages ?e"
      by blast+
    then show "\<exists>t'. Option.bind (memmap_entry response j) (\<lambda>entry. Some (ppa_release_entry entry t)) = Some t' \<and> ?P (j + 1) t'"
      using t unfolding take by (auto simp: memmap_ok_entry [OF ok j(2)])
  qed (use inv in simp_all)
  then show ?thesis using n by simp
qed

lemma mem_entry_pages:
  assumes "sane_map es" and "e \<in> set es"
  shows "page \<in> entry_pages e \<longleftrightarrow> me_type e = LIMINE_MEMMAP_USABLE \<and>
    unat (me_base e) \<le> 4096 * unat page \<and> 4096 * (unat page + 1) \<le> unat (me_base e) + unat (me_length e)"
proof -
  note ends = sane_map_end [OF assms]
  have "unat (me_base e + eX_PAGE_SIZE - 1) = unat (me_base e) + 4095"
    using ends(2) by (simp add: eX_PAGE_SIZE_def unat_add_no_wrap)
  then show ?thesis
    by (simp add: entry_pages_def word_le_nat_alt word_less_nat_alt unat_div ends(1) eX_PAGE_SIZE_def
        round_up_le_iff less_round_down_iff)
qed

lemma ppa_fill:
  assumes "unat (eX_PageCount s) \<le> 2 ^ 52"
  defines "s' \<equiv> s\<lparr>ppa_memory := for_range 0 (eX_PageBitmapSize s) (\<lambda>i m. m(eX_PageBitmap s + i := 0xFF)) (ppa_memory s),
    eX_FreePageCount := 0\<rparr>"
  shows "ppa_inv s s'" and "{page. page < eX_PageCount s} \<subseteq> ppa_used s'"
proof -
  have mem: "ppa_memory s' = filled (eX_PageBitmap s) 0xFF (ppa_memory s) {0..<eX_PageBitmapSize s}"
    by (simp add: s'_def forward_fill)
  show used: "{page. page < eX_PageCount s} \<subseteq> ppa_used s'"
  proof
    fix page
    assume "page \<in> {page. page < eX_PageCount s}"
    then have "page div 8 < eX_PageBitmapSize s" using page_byte_index assms(1) by blast
    then have "ppa_window s' (page div 8) = 0xFF"
      unfolding ppa_window_def mem by (simp add: filled_def s'_def)
    then show "page \<in> ppa_used s'" by (simp add: ppa_used_def page_bit_0xFF)
  qed
  have "ppa_free s' = {}" using used by (auto simp: ppa_free_def) (simp add: s'_def subset_iff)
  then show "ppa_inv s s'"
    by (intro ppa_invI) (simp_all add: mem filled_def, simp_all add: s'_def)
qed

text \<open>The pages that the bitmap overlaps, as the code computes them.\<close>

lemma bitmap_pages:
  fixes bm sz :: u64
  defines "first \<equiv> bm div eX_PAGE_SIZE" and "lst \<equiv> (bm + sz + eX_PAGE_SIZE - 1) div eX_PAGE_SIZE"
  assumes fits: "unat bm + unat sz \<le> h" and h: "h \<le> 2 ^ 64 - 4096"
  shows "first \<le> lst" and "unat lst \<le> (h + 4095) div 4096"
    and "page \<in> {first..<lst} \<longleftrightarrow> unat bm < 4096 * (unat page + 1) \<and> 4096 * unat page < unat bm + unat sz"
proof -
  have "unat (bm + sz) = unat bm + unat sz" using fits h by (simp add: unat_add_no_wrap)
  then have "unat (bm + sz + eX_PAGE_SIZE - 1) = unat bm + unat sz + 4095"
    using fits h by (simp add: eX_PAGE_SIZE_def add.assoc unat_add_no_wrap)
  then have lst: "unat lst = (unat bm + unat sz + 4095) div 4096"
    by (simp add: lst_def unat_div eX_PAGE_SIZE_def)
  have first: "unat first = unat bm div 4096" by (simp add: first_def unat_div eX_PAGE_SIZE_def)
  show "first \<le> lst" unfolding word_le_nat_alt first lst by (intro div_le_mono) simp
  show "unat lst \<le> (h + 4095) div 4096" unfolding lst using fits by (intro div_le_mono) simp
  show "page \<in> {first..<lst} \<longleftrightarrow> unat bm < 4096 * (unat page + 1) \<and> 4096 * unat page < unat bm + unat sz"
    by (simp add: word_le_nat_alt word_less_nat_alt first lst less_round_up_iff round_down_le_iff)
qed

text \<open>The two marking phases, on a state whose page count covers all ranges.\<close>

lemma ppa_mark_pages:
  fixes s :: ppa
  assumes ok: "memmap_ok response es" and sane: "sane_map es"
    and ends: "\<And>e. e \<in> set es \<Longrightarrow> unat (me_base e) + unat (me_length e) \<le> h" and h: "h \<le> 2 ^ 64 - 4096"
    and count: "unat (eX_PageCount s) = (h + 4095) div 4096"
    and fits: "unat (eX_PageBitmap s) + unat (eX_PageBitmapSize s) \<le> h"
  defines "s0 \<equiv> s\<lparr>ppa_memory := for_range 0 (eX_PageBitmapSize s) (\<lambda>i m. m(eX_PageBitmap s + i := 0xFF)) (ppa_memory s),
    eX_FreePageCount := 0\<rparr>"
  shows "\<exists>s1. for_range_opt 0 (entry_count response) (\<lambda>i s. do {
       entry \<leftarrow> memmap_entry response i;
       Some (ppa_release_entry entry s)
     }) s0 = Some s1 \<and> eX_PageBitmap s1 = eX_PageBitmap s \<and>
    (let s2 = for_range (eX_PageBitmap s div eX_PAGE_SIZE)
        ((eX_PageBitmap s + eX_PageBitmapSize s + eX_PAGE_SIZE - 1) div eX_PAGE_SIZE) ppa_reserve_page s1
     in ppa_inv s s2 \<and> ppa_free s2 = {page. page \<in> \<Union> (entry_pages ` set es) \<and>
       \<not> (unat (eX_PageBitmap s) < 4096 * (unat page + 1) \<and>
          4096 * unat page < unat (eX_PageBitmap s) + unat (eX_PageBitmapSize s))})"
proof -
  let ?first = "eX_PageBitmap s div eX_PAGE_SIZE"
  let ?last = "(eX_PageBitmap s + eX_PageBitmapSize s + eX_PAGE_SIZE - 1) div eX_PAGE_SIZE"
  have c52: "unat (eX_PageCount s) \<le> 2 ^ 52" using h count by simp
  have bound: "entry_pages e \<subseteq> {page. page < eX_PageCount s}" if "e \<in> set es" for e
    using ends [OF that] count by (auto simp: mem_entry_pages [OF sane that] word_less_nat_alt less_round_up_iff)
  obtain s1 where s1: "for_range_opt 0 (entry_count response) (\<lambda>i s. do {
       entry \<leftarrow> memmap_entry response i;
       Some (ppa_release_entry entry s)
     }) s0 = Some s1" "ppa_inv s s1" "ppa_used s1 = ppa_used s0 - \<Union> (entry_pages ` set es)"
    using ppa_release_entries [OF ok sane ppa_fill(1) [OF c52] ppa_fill(2) [OF c52] bound c52] unfolding s0_def by blast
  note pages = bitmap_pages [OF fits h]
  have max: "?last \<le> eX_PageCount s" using pages(2) by (simp add: word_le_nat_alt count)
  note reserve = ppa_reserve_pages [OF s1(2) pages(1) max c52]
  have "ppa_free (for_range ?first ?last ppa_reserve_page s1) = {page. page \<in> \<Union> (entry_pages ` set es) \<and> page \<notin> {?first..<?last}}"
  proof -
    define U where "U = \<Union> (entry_pages ` set es)"
    define R where "R = {?first..<?last}"
    have "U \<subseteq> {page. page < eX_PageCount s}" using bound by (auto simp: U_def)
    moreover have "{page. page < eX_PageCount s} \<subseteq> ppa_used s0" using ppa_fill(2) [OF c52] by (simp add: s0_def)
    ultimately show ?thesis
      using reserve s1(3) ppa_invD(2) [OF reserve [THEN conjunct1]]
      unfolding ppa_free_def U_def [symmetric] R_def [symmetric] by auto
  qed
  then show ?thesis
    using s1(1) ppa_invD(1) [OF s1(2)] reserve by (intro exI [of _ s1]) (simp add: pages(3) [simplified])
qed

text \<open>The first address above all ranges of the map.\<close>

definition map_end :: "limine_memmap_entry list \<Rightarrow> nat" where
  "map_end es = Max (insert 0 ((\<lambda>e. unat (me_base e) + unat (me_length e)) ` set es))"

lemma map_end_eq:
  assumes "sane_map es" and "\<And>e. e \<in> set es \<Longrightarrow> me_base e + me_length e \<le> h"
    and "h = 0 \<or> (\<exists>e \<in> set es. h = me_base e + me_length e)"
  shows "map_end es = unat h"
  unfolding map_end_def
proof (rule Max_eqI)
  show "y \<le> unat h" if "y \<in> insert 0 ((\<lambda>e. unat (me_base e) + unat (me_length e)) ` set es)" for y
    using that assms(2) sane_map_end(1) [OF assms(1)] by (auto simp: word_le_nat_alt)
  show "unat h \<in> insert 0 ((\<lambda>e. unat (me_base e) + unat (me_length e)) ` set es)"
    using assms(3) sane_map_end(1) [OF assms(1)] by auto
qed simp

text \<open>The two ways in which initialisation ends.\<close>

lemma ppa_init_cases:
  assumes ok: "memmap_ok response es" and sane: "sane_map es"
  obtains (stops) s' where
      "eX_PPA_Init response (s, con) =
        Some (Halted (s', fold eX_PrintChar (bytes_of ''PPA: Cannot place bitmap!'' @ [10]) con))"
      "unat (eX_PageCount s') = (map_end es + 4095) div 4096"
      "\<forall>e \<in> set es. me_type e = LIMINE_MEMMAP_USABLE \<longrightarrow> me_length e < eX_PageBitmapSize s'"
    | (runs) e s1 s' where
      "eX_PPA_Init response (s, con) = Some (Running (s', con))" "unat (eX_PageCount s1) = (map_end es + 4095) div 4096"
      "ppa_memory s1 = ppa_memory s" "e \<in> set es" "me_type e = LIMINE_MEMMAP_USABLE" "eX_PageBitmap s1 = me_base e" "eX_PageBitmapSize s1 \<le> me_length e"
      "ppa_inv s1 s'" "ppa_free s' = {page. page \<in> \<Union> (entry_pages ` set es) \<and>
        \<not> (unat (eX_PageBitmap s1) < 4096 * (unat page + 1) \<and>
           4096 * unat page < unat (eX_PageBitmap s1) + unat (eX_PageBitmapSize s1))}"
proof -
  obtain h where h: "ppa_highest response = Some h" "\<And>e. e \<in> set es \<Longrightarrow> me_base e + me_length e \<le> h"
      "h = 0 \<or> (\<exists>e \<in> set es. h = me_base e + me_length e)"
    using ppa_highest_eq [OF ok] by blast
  have h_le: "unat h \<le> 2 ^ 64 - 4096" using h(3) sane_map_end [OF sane] by auto
  define sz where "sz = ((h + eX_PAGE_SIZE - 1) div eX_PAGE_SIZE + 7) div 8"
  obtain b where b: "ppa_place 0 response sz = Some b"
      "b = 0 \<and> (\<forall>e \<in> set es. me_type e = LIMINE_MEMMAP_USABLE \<longrightarrow> me_length e < sz) \<or>
       (\<exists>e \<in> set es. me_type e = LIMINE_MEMMAP_USABLE \<and> sz \<le> me_length e \<and> b = me_base e)"
    using ppa_place_eq [OF ok, of 0 sz] by auto
  define s1 where "s1 = s\<lparr>eX_PageCount := (h + eX_PAGE_SIZE - 1) div eX_PAGE_SIZE, eX_PageBitmap := b\<rparr>"
  have s1: "eX_PageBitmapSize s1 = sz" "eX_PageBitmap s1 = b" "ppa_memory s1 = ppa_memory s"
    by (simp_all add: s1_def sz_def eX_PageBitmapSize_def)
  have "unat (h + eX_PAGE_SIZE - 1) = unat h + 4095"
    using h_le by (simp add: eX_PAGE_SIZE_def unat_add_no_wrap)
  then have count: "unat (eX_PageCount s1) = (unat h + 4095) div 4096"
    by (simp add: s1_def unat_div eX_PAGE_SIZE_def)
  have pages: "unat (eX_PageCount s1) = (map_end es + 4095) div 4096"
    using count map_end_eq [OF sane h(2,3)] by simp
  show thesis
  proof (cases "b = 0")
    case True
    have "\<forall>e \<in> set es. me_type e = LIMINE_MEMMAP_USABLE \<longrightarrow> me_base e \<noteq> 0"
      using sane by (simp add: sane_map_def list_all_iff)
    then have "\<forall>e \<in> set es. me_type e = LIMINE_MEMMAP_USABLE \<longrightarrow> me_length e < eX_PageBitmapSize s1"
      using b(2) True unfolding s1 by blast
    moreover have "eX_PPA_Init response (s, con) =
        Some (Halted (s1, fold eX_PrintChar (bytes_of ''PPA: Cannot place bitmap!'' @ [10]) con))"
      using h(1) b(1) True by (simp add: eX_PPA_Init_def s1_def sz_def [symmetric] hcf_def eX_Print_bytes)
    ultimately show thesis using pages stops by blast
  next
    case False
    then obtain e where e: "e \<in> set es" "me_type e = LIMINE_MEMMAP_USABLE" "sz \<le> me_length e" "b = me_base e"
      using b(2) by auto
    have ends: "unat (me_base e) + unat (me_length e) \<le> unat h" if "e \<in> set es" for e
      using h(2) [OF that] sane_map_end(1) [OF sane that] by (simp add: word_le_nat_alt)
    have fits: "unat (eX_PageBitmap s1) + unat (eX_PageBitmapSize s1) \<le> unat h"
      using ends [OF e(1)] e(3,4) by (simp add: s1 word_le_nat_alt)
    let ?s0 = "s1\<lparr>ppa_memory := for_range 0 sz (\<lambda>i m. m(b + i := 0xFF)) (ppa_memory s), eX_FreePageCount := 0\<rparr>"
    let ?fin = "\<lambda>t. for_range (b div eX_PAGE_SIZE) ((b + sz + eX_PAGE_SIZE - 1) div eX_PAGE_SIZE) ppa_reserve_page t"
    obtain t where t: "for_range_opt 0 (entry_count response) (\<lambda>i s. do {
         entry \<leftarrow> memmap_entry response i;
         Some (ppa_release_entry entry s)
       }) ?s0 = Some t" "eX_PageBitmap t = b" "ppa_inv s1 (?fin t)"
      "ppa_free (?fin t) = {page. page \<in> \<Union> (entry_pages ` set es) \<and>
        \<not> (unat (eX_PageBitmap s1) < 4096 * (unat page + 1) \<and>
           4096 * unat page < unat (eX_PageBitmap s1) + unat (eX_PageBitmapSize s1))}"
      using ppa_mark_pages [OF ok sane ends h_le count fits] unfolding s1 Let_def by blast
    have "eX_PPA_Init response (s, con) = Some (Running (?fin t, con))"
      using h(1) b(1) False t(1,2) by (simp add: eX_PPA_Init_def s1_def Let_def sz_def [symmetric])
    then show thesis using pages s1(3) e(1,2) _ _ t(3,4) by (rule runs) (simp_all add: s1 e)
  qed
qed

section \<open>Properties\<close>

text \<open>
  C21: \<^verbatim>\<open>eX_PPA_Init\<close> always comes to an end. Either no usable range can hold the bitmap, and it prints
  a message and halts, or it places the bitmap inside of a usable range, writes to no byte outside
  of it, and leaves exactly those pages free that lie as a whole inside of a usable range and do not
  overlap the bitmap; the counter is their number. The page count covers all
  ranges of the map.
\<close>

theorem ppa_init_correct:
  assumes ok: "memmap_ok response es" and sane: "sane_map es"
  shows "case eX_PPA_Init response (s, con) of
      None \<Rightarrow> False
    | Some (Halted (s', con')) \<Rightarrow>
        con' = fold eX_PrintChar (bytes_of ''PPA: Cannot place bitmap!'' @ [10]) con \<and>
        unat (eX_PageCount s') = (map_end es + 4095) div 4096 \<and>
        (\<forall>e \<in> set es. me_type e = LIMINE_MEMMAP_USABLE \<longrightarrow> me_length e < eX_PageBitmapSize s')
    | Some (Running (s', con')) \<Rightarrow> con' = con \<and> unat (eX_PageCount s') = (map_end es + 4095) div 4096 \<and>
        (\<exists>e \<in> set es. me_type e = LIMINE_MEMMAP_USABLE \<and> eX_PageBitmap s' = me_base e \<and>
           eX_PageBitmapSize s' \<le> me_length e) \<and>
        (\<forall>x. \<not> in_object (eX_PageBitmap s') (unat (eX_PageBitmapSize s')) x \<longrightarrow> ppa_memory s' x = ppa_memory s x) \<and>
        ppa_free s' = {page. (\<exists>e \<in> set es. me_type e = LIMINE_MEMMAP_USABLE \<and>
            unat (me_base e) \<le> 4096 * unat page \<and> 4096 * (unat page + 1) \<le> unat (me_base e) + unat (me_length e)) \<and>
          \<not> (unat (eX_PageBitmap s') < 4096 * (unat page + 1) \<and>
             4096 * unat page < unat (eX_PageBitmap s') + unat (eX_PageBitmapSize s'))} \<and>
        eX_FreePageCount s' = of_nat (card (ppa_free s'))"
proof (cases rule: ppa_init_cases [OF assms, of s con])
  case (1 s')
  then show ?thesis by simp
next
  case runs: (2 e s1 s')
  note fields = ppa_invD [OF runs(8)]
  have bm: "eX_PageBitmap s' = me_base e" "eX_PageBitmapSize s' = eX_PageBitmapSize s1"
    using fields(1,2) by (simp_all add: runs(6) eX_PageBitmapSize_def)
  have "object_ok (me_base e) (unat (eX_PageBitmapSize s1))"
    using sane_map_end(2) [OF sane runs(4)] runs(7) by (simp add: object_ok_def word_le_nat_alt)
  then have "ppa_memory s' x = ppa_memory s x" if "\<not> in_object (me_base e) (unat (eX_PageBitmapSize s1)) x" for x
    using that in_object_index fields(4) [of x] runs(3,6) by auto
  moreover have "page \<in> \<Union> (entry_pages ` set es) \<longleftrightarrow> (\<exists>e \<in> set es. me_type e = LIMINE_MEMMAP_USABLE \<and>
      unat (me_base e) \<le> 4096 * unat page \<and> 4096 * (unat page + 1) \<le> unat (me_base e) + unat (me_length e))" for page
    using mem_entry_pages [OF sane] by blast
  moreover have "\<exists>e' \<in> set es. me_type e' = LIMINE_MEMMAP_USABLE \<and> me_base e = me_base e' \<and> eX_PageBitmapSize s1 \<le> me_length e'"
    using runs(4,5,7) by blast
  ultimately show ?thesis using runs(2,9) fields(2,3) by (simp add: runs(1) bm runs(6))
qed

text \<open>One usable range of sixteen pages.\<close>

definition ppa_sample_map :: "limine_memmap_entry list" where
  "ppa_sample_map = [\<lparr>me_base = 0x1000, me_length = 0x10000, me_type = 0\<rparr>]"

definition ppa_bss :: ppa where
  "ppa_bss = \<lparr>eX_PageBitmap = 0, eX_PageCount = 0, eX_FreePageCount = 0, ppa_memory = (\<lambda>_. 0)\<rparr>"

theorem ppa_init_correct_witness:
  "\<exists>s'. eX_PPA_Init \<lparr>memmap_revision = 0, entry_count = 1, entries = Some ppa_sample_map\<rparr> (ppa_bss, sample_console) =
     Some (Running (s', sample_console)) \<and> eX_PageCount s' = 17 \<and> 1 \<notin> ppa_free s' \<and> 2 \<in> ppa_free s'"
proof -
  have map: "memmap_ok \<lparr>memmap_revision = 0, entry_count = 1, entries = Some ppa_sample_map\<rparr> ppa_sample_map" "sane_map ppa_sample_map"
    by (simp_all add: memmap_ok_def sane_map_def ppa_sample_map_def)
  have pages: "(map_end ppa_sample_map + 4095) div 4096 = 17" by (simp add: map_end_def ppa_sample_map_def)
  have "eX_PageCount s' = 17 \<and> eX_PageBitmapSize s' = 3"
    if "unat (eX_PageCount s') = (map_end ppa_sample_map + 4095) div 4096" for s' :: ppa
  proof -
    have "eX_PageCount s' = 17" using that unfolding pages by (intro word_eq_unatI) simp
    then show ?thesis by (simp add: eX_PageBitmapSize_def)
  qed
  then show ?thesis
    using ppa_init_correct [OF map, of sample_console ppa_bss]
    by (fastforce split: option.splits outcome.splits simp: ppa_sample_map_def LIMINE_MEMMAP_USABLE_def)
qed

end
