(* ===== verification/Eyax_Kernel.thy ===== *)
theory Eyax_Kernel
  imports Eyax_Elf Eyax_Zmm Eyax_Shell Eyax_Pmm Eyax_Ppa
begin

text \<open>
  The entry point \<^verbatim>\<open>kmain\<close> of \<^verbatim>\<open>src/main.c\<close>: its phases from the checks of the boot protocol to the
  shell, and the endless loop, on a state that holds the states of all components. What the boot
  loader provides is a parameter. The busy-wait loops of \<^verbatim>\<open>kmain\<close> have no effect on this state.
\<close>

section \<open>State\<close>

record 'w kernel =
  k_console :: console
  k_tables :: tables
  k_cpu :: cpu
  k_pmm :: pmm
  k_ppa :: ppa
  k_blocks :: blocks
  k_elf :: elf_state
  k_keyboard :: keyboard
  k_shell :: shell
  k_ticks :: u64
  k_world :: 'w

record boot =
  limine_base_revision :: "u64 \<times> u64 \<times> u64"
  framebuffer_request :: "limine_framebuffer_response limine_request"
  eX_HHDMRequest :: "limine_hhdm_response limine_request"
  eX_MemoryMapRequest :: "limine_memmap_response limine_request"
  boot_symbols :: symbols

text \<open>The requests as the image of the kernel contains them, before the boot loader answers.\<close>

definition boot_image :: "symbols \<Rightarrow> boot" where
  "boot_image syms = \<lparr>limine_base_revision = LIMINE_BASE_REVISION 6,
     framebuffer_request = \<lparr>req_id = LIMINE_FRAMEBUFFER_REQUEST_ID, req_revision = 0, req_response = None\<rparr>,
     eX_HHDMRequest = \<lparr>req_id = LIMINE_HHDM_REQUEST_ID, req_revision = 0, req_response = None\<rparr>,
     eX_MemoryMapRequest = \<lparr>req_id = LIMINE_MEMMAP_REQUEST_ID, req_revision = 0, req_response = None\<rparr>,
     boot_symbols = syms\<rparr>"

text \<open>A phase is undefined, runs on or has halted; the next one starts only when it runs on.\<close>

definition and_then :: "'s outcome option \<Rightarrow> ('s \<Rightarrow> 's outcome option) \<Rightarrow> 's outcome option" where
  "and_then r f = (case r of Some (Running s) \<Rightarrow> f s | _ \<Rightarrow> r)"

definition kprint :: "u8 list \<Rightarrow> vararg list \<Rightarrow> 'w kernel \<Rightarrow> 'w kernel option" where
  "kprint format args k = do {
     con \<leftarrow> eX_Print format args (k_console k);
     Some (k\<lparr>k_console := con\<rparr>)
   }"

definition kbugcheck :: "u8 list \<Rightarrow> u64 \<Rightarrow> 'w kernel \<Rightarrow> 'w kernel outcome option" where
  "kbugcheck exception vector k = do {
     r \<leftarrow> eX_BugCheck exception vector 0 (k_console k);
     case r of
       Running con \<Rightarrow> Some (hcf (k\<lparr>k_console := con\<rparr>))
     | Halted con \<Rightarrow> Some (Halted (k\<lparr>k_console := con\<rparr>))
   }"

abbreviation uint_arg :: "'a::len word \<Rightarrow> vararg" where
  "uint_arg v \<equiv> ArgInt (ucast (ucast v :: u32))"

section \<open>The phases of kmain\<close>

definition kmain_checks :: "boot \<Rightarrow> 'w kernel \<Rightarrow> 'w kernel outcome option" where
  "kmain_checks boot k =
     (if \<not> LIMINE_BASE_REVISION_SUPPORTED (limine_base_revision boot) then Some (hcf k)
      else case req_response (framebuffer_request boot) of
        None \<Rightarrow> Some (hcf k)
      | Some response \<Rightarrow>
          if framebuffer_count response < 1 then Some (hcf k)
          else if req_response (eX_MemoryMapRequest boot) = None then Some (hcf k)
          else do {
            fb \<leftarrow> array_get (framebuffers response) 0;
            let k = k\<lparr>k_console := (k_console k)\<lparr>Framebuffer := fb\<rparr>\<rparr>;
            if fb_bpp fb \<noteq> 32 then Some (hcf k) else Some (Running k)
          })"

definition kmain_map_line :: "limine_memmap_entry \<Rightarrow> u64 \<times> 'w kernel \<Rightarrow> (u64 \<times> 'w kernel) option" where
  "kmain_map_line entry = (\<lambda>(total_usable, k). do {
     k \<leftarrow> kprint (bytes_of ''Type: '' @ bytes_of ''%u'' @ bytes_of ''  Base: 0x'' @ bytes_of ''%X'' @
            bytes_of ''  Length: 0x'' @ bytes_of ''%X'' @ [10, 0])
          [uint_arg (me_type entry), uint_arg (me_base entry), uint_arg (me_length entry)] k;
     Some (if me_type entry = LIMINE_MEMMAP_USABLE then total_usable + me_length entry else total_usable, k)
   })"

definition kmain_gdt :: "boot \<Rightarrow> 'w kernel \<Rightarrow> 'w kernel outcome option" where
  "kmain_gdt boot k = do {
     let k = k\<lparr>k_console := eX_Clear (k_console k)\<rparr>;
     k \<leftarrow> kprint (bytes_of ''Before GDT: CS = 0x'' @ bytes_of ''%X'' @ [10, 0]) [ArgInt (ucast (eX_ReadCS (k_cpu k)))] k;
     let (t, c) = eX_GDT_Init (boot_symbols boot) (k_tables k, k_cpu k);
     let k = k\<lparr>k_tables := t, k_cpu := c\<rparr>;
     k \<leftarrow> kprint (bytes_of ''After GDT: CS = 0x'' @ bytes_of ''%X'' @ [10, 0]) [ArgInt (ucast (eX_ReadCS (k_cpu k)))] k;
     Some (Running k)
   }"

definition kmain_memory_map :: "limine_memmap_response \<Rightarrow> 'w kernel \<Rightarrow> (u64 \<times> 'w kernel) option" where
  "kmain_memory_map response k = do {
     k \<leftarrow> kprint ([10] @ bytes_of ''Memory map:'' @ [10, 0]) [] k;
     for_range_opt 0 (entry_count response) (\<lambda>i s. do {
       entry \<leftarrow> memmap_entry response i;
       kmain_map_line entry s
     }) (0, k)
   }"

definition kmain_pmm :: "limine_memmap_response \<Rightarrow> u64 \<Rightarrow> 'w kernel \<Rightarrow> 'w kernel outcome option" where
  "kmain_pmm response total_usable k = do {
     k \<leftarrow> kprint (bytes_of ''Initializing the Physical Memory Manager... '' @ [0]) [] k;
     (ok, p) \<leftarrow> pmm_init (Some response) (k_pmm k);
     let k = k\<lparr>k_pmm := p\<rparr>;
     if \<not> ok then do {
       k \<leftarrow> kprint (bytes_of ''FAILED!'' @ [10, 0]) [] k;
       kbugcheck (cstr ''The PMM initialization failed.'') 0xE2 k
     } else do {
       k \<leftarrow> kprint (bytes_of ''Success!'' @ [10, 0]) [] k;
       k \<leftarrow> kprint (bytes_of ''PMM: %lu free pages (%lu KiB)'' @ [10, 0])
              [ArgInt (pmm_free_pages (k_pmm k)), ArgInt (pmm_free_pages (k_pmm k) * 4)] k;
       k \<leftarrow> kprint (bytes_of ''Total usable memory: '' @ bytes_of ''%u'' @ bytes_of '' bytes'' @ [10, 0])
              [uint_arg total_usable] k;
       Some (Running k)
     }
   }"

definition kmain_memory :: "boot \<Rightarrow> 'w kernel \<Rightarrow> 'w kernel outcome option" where
  "kmain_memory boot k = do {
     response \<leftarrow> req_response (eX_MemoryMapRequest boot);
     (total_usable, k) \<leftarrow> kmain_memory_map response k;
     kmain_pmm response total_usable k
   }"

text \<open>
  A software interrupt goes through the table to the handler whose address the gate holds; without
  a gate the processor faults, which has no result here.
\<close>

definition software_interrupt :: "'w devices \<Rightarrow> symbols \<Rightarrow> u8 \<Rightarrow> 'w kernel \<Rightarrow> 'w kernel outcome option" where
  "software_interrupt dev syms vector k = do {
     (_, handler) \<leftarrow> gate_target (k_tables k) vector;
     if handler = addr_TimerHandler syms then do {
       t \<leftarrow> eX_TimerHandler dev \<lparr>eX_TimerTicks = k_ticks k, timer_console = k_console k, timer_world = k_world k\<rparr>;
       Some (Running (k\<lparr>k_ticks := eX_TimerTicks t, k_console := timer_console t, k_world := timer_world t\<rparr>))
     } else if handler = addr_InvalidOpcodeHandler syms then do {
       r \<leftarrow> eX_InvalidOpcodeHandler (k_console k);
       Some (case r of Running con \<Rightarrow> Running (k\<lparr>k_console := con\<rparr>) | Halted con \<Rightarrow> Halted (k\<lparr>k_console := con\<rparr>))
     } else if handler = addr_PageFaultHandler syms then do {
       r \<leftarrow> eX_PageFaultHandler (k_cpu k) (k_console k);
       Some (case r of Running con \<Rightarrow> Running (k\<lparr>k_console := con\<rparr>) | Halted con \<Rightarrow> Halted (k\<lparr>k_console := con\<rparr>))
     } else None
   }"

definition kmain_idt :: "'w devices \<Rightarrow> boot \<Rightarrow> 'w kernel \<Rightarrow> 'w kernel outcome option" where
  "kmain_idt dev boot k = do {
     let (t, c) = eX_IDT_Init (boot_symbols boot) (k_tables k, k_cpu k);
     let k = k\<lparr>k_tables := t, k_cpu := c\<rparr>;
     k \<leftarrow> kprint (bytes_of ''Testing IDT...'' @ [10, 0]) [] k;
     software_interrupt dev (boot_symbols boot) 0x20 k
   }"

text \<open>\<^verbatim>\<open>((uint16_t)high << 8) | low\<close>, cut to 16 bits.\<close>

definition pit_count :: "'w devices \<Rightarrow> 'w \<Rightarrow> u16 \<times> 'w" where
  "pit_count dev w =
     (let w = eX_Outb dev 0x43 0x00 w;
          (low, w) = eX_Inb dev 0x40 w;
          (high, w) = eX_Inb dev 0x40 w
      in (ucast (push_bit 8 (ucast high :: u32) OR ucast low), w))"

definition kmain_timers :: "'w devices \<Rightarrow> 'w kernel \<Rightarrow> 'w kernel outcome option" where
  "kmain_timers dev k = do {
     k \<leftarrow> kprint (bytes_of ''IDT test returned.'' @ [10, 0]) [] k;
     let w = eX_PIT_Init dev (eX_PIC_Init dev (k_world k));
     let (count1, w) = pit_count dev w;
     k \<leftarrow> kprint (bytes_of ''PPA initialized. Free pages: '' @ bytes_of ''%u'' @ [10, 0])
            [uint_arg (eX_FreePageCount (k_ppa k))] k;
     let (count2, w) = pit_count dev w;
     k \<leftarrow> kprint (bytes_of ''PIT: '' @ bytes_of ''%u'' @ bytes_of '' -> '' @ bytes_of ''%u'' @ [10, 0])
            [ArgInt (ucast count1), ArgInt (ucast count2)] k;
     let w = eX_Outb dev 0x43 0x00 w;
     let (pit_status, w) = eX_Inb dev 0x40 w;
     let (mask_byte, w) = eX_Inb dev 0x21 w;
     k \<leftarrow> kprint (bytes_of ''PIC mask: 0x'' @ bytes_of ''%X'' @ [10, 0]) [ArgInt (ucast mask_byte)] k;
     k \<leftarrow> kprint (bytes_of ''PIT read: 0x'' @ bytes_of ''%X'' @ [10, 0]) [ArgInt (ucast pit_status)] k;
     let (irr, w) = eX_PIC_ReadIRR dev w;
     k \<leftarrow> kprint (bytes_of ''PIC IRR: 0x'' @ bytes_of ''%X'' @ [10, 0]) [ArgInt (ucast irr)] k;
     let (status, w) = eX_Keyboard_GetControllerStatus dev w;
     k \<leftarrow> kprint (bytes_of ''KBC STATUS: 0x'' @ bytes_of ''%x'' @ [10, 0]) [ArgInt (ucast status)] k;
     let (mask_byte, w) = eX_Keyboard_GetPICMask dev w;
     k \<leftarrow> kprint (bytes_of ''PIC MASK: 0x'' @ bytes_of ''%x'' @ [10, 0]) [ArgInt (ucast mask_byte)] k;
     Some (Running (k\<lparr>k_world := w\<rparr>))
   }"

definition kmain_services :: "boot \<Rightarrow> 'w kernel \<Rightarrow> 'w kernel outcome option" where
  "kmain_services boot k = do {
     k \<leftarrow> kprint (bytes_of ''Initializing the ZMM memory manager... '' @ [0]) [] k;
     let k = k\<lparr>k_blocks := heap_init (k_blocks k)\<rparr>;
     k \<leftarrow> kprint (bytes_of ''Success!'' @ [10, 0]) [] k;
     k \<leftarrow> kprint (bytes_of ''Initializing the ELF loader... '' @ [0]) [] k;
     let (ok, e) = elf_init (k_elf k);
     let k = k\<lparr>k_elf := e\<rparr>;
     if \<not> ok then do {
       k \<leftarrow> kprint (bytes_of ''FAILED!'' @ [10, 0]) [] k;
       kbugcheck (bytes_of ''The ELF initalization either failed or didn'' @ [0x27] @ cstr ''t get called.'') 0xE1 k
     } else
     case req_response (eX_HHDMRequest boot) of
       None \<Rightarrow> kbugcheck (cstr ''HHDM request failed.'') 0xE3 k
     | Some response \<Rightarrow> do {
         k \<leftarrow> kprint (bytes_of ''HHDM offset: 0x'' @ bytes_of ''%X'' @ [10, 0]) [uint_arg (hhdm_offset response)] k;
         let offset = hhdm_offset response;
         k \<leftarrow> kprint (bytes_of ''HHDM offset high: %0X'' @ [10, 0]) [uint_arg (drop_bit 32 offset)] k;
         k \<leftarrow> kprint (bytes_of ''HHDM offset low: %0X'' @ [10, 0]) [uint_arg offset] k;
         Some (Running k)
       }
   }"

definition kmain_shell :: "'w kernel \<Rightarrow> 'w kernel outcome option" where
  "kmain_shell k = do {
     let k = k\<lparr>k_keyboard := eX_Keyboard_Init (k_keyboard k)\<rparr>;
     let k = k\<lparr>k_cpu := (k_cpu k)\<lparr>reg_if := True\<rparr>\<rparr>;
     k \<leftarrow> kprint (bytes_of ''Tests completed'' @ [10, 0]) [] k;
     k \<leftarrow> kprint (bytes_of ''eyaX kernel, beta 0.1'' @ [10, 10, 0]) [] k;
     (sh, con) \<leftarrow> eX_Shell_Init (k_shell k, k_console k);
     Some (Running (k\<lparr>k_shell := sh, k_console := con\<rparr>))
   }"

definition kmain_boot :: "'w devices \<Rightarrow> boot \<Rightarrow> 'w kernel \<Rightarrow> 'w kernel outcome option" where
  "kmain_boot dev boot k =
     and_then (and_then (and_then (and_then (and_then (and_then (kmain_checks boot k)
       (kmain_gdt boot)) (kmain_memory boot)) (kmain_idt dev boot)) (kmain_timers dev)) (kmain_services boot)) kmain_shell"

text \<open>One pass of the endless loop.\<close>

definition kmain_iteration :: "'w devices \<Rightarrow> 'w kernel \<Rightarrow> 'w kernel option" where
  "kmain_iteration dev k = do {
     (w, kb) \<leftarrow> eX_Keyboard_Poll dev (k_world k) (k_keyboard k);
     (kb, sh, con) \<leftarrow> eX_Shell_Update kb (k_shell k, k_console k);
     Some (k\<lparr>k_world := w, k_keyboard := kb, k_shell := sh, k_console := con\<rparr>)
   }"

section \<open>Printing during boot\<close>

text \<open>A format that, with its arguments, prints some text on every console.\<close>

definition prints_format :: "u8 list \<Rightarrow> vararg list \<Rightarrow> bool" where
  "prints_format format args \<longleftrightarrow> (\<forall>con. \<exists>text. eX_Print format args con = Some (fold eX_PrintChar text con))"

lemma prints_format_via:
  assumes "\<And>con. eX_Print format args con = eX_Print format' args' (fold eX_PrintChar text con)"
    and "prints_format format' args'"
  shows "prints_format format args"
  unfolding prints_format_def
proof
  fix con
  obtain s' where "eX_Print format' args' (fold eX_PrintChar text con) = Some (fold eX_PrintChar s' (fold eX_PrintChar text con))"
    using assms(2) unfolding prints_format_def by blast
  then have "eX_Print format args con = Some (fold eX_PrintChar (text @ s') con)" by (simp add: assms(1))
  then show "\<exists>text. eX_Print format args con = Some (fold eX_PrintChar text con)" by blast
qed

lemma prints_format_end [intro]: "prints_format [0] args"
  by (auto simp: prints_format_def intro: exI [of _ "[]"])

lemma prints_format_newline [intro]: "prints_format format args \<Longrightarrow> prints_format (10 # format) args"
  by (rule prints_format_via [of _ _ _ _ "[10]"]) simp_all

lemma prints_format_bytes [intro]:
  "CHR 0x00 \<notin> set s \<Longrightarrow> CHR ''%'' \<notin> set s \<Longrightarrow> prints_format format args \<Longrightarrow> prints_format (bytes_of s @ format) args"
  by (rule prints_format_via [OF eX_Print_bytes])

lemma prints_format_number [intro]:
  "prints_format format args \<Longrightarrow> prints_format (bytes_of ''%X'' @ format) (ArgInt v # args)"
  "prints_format format args \<Longrightarrow> prints_format (bytes_of ''%x'' @ format) (ArgInt v # args)"
  "prints_format format args \<Longrightarrow> prints_format (bytes_of ''%u'' @ format) (ArgInt v # args)"
  by (rule prints_format_via [OF eX_Print_numbers(1)] prints_format_via [OF eX_Print_numbers(2)]
      prints_format_via [OF eX_Print_numbers(3)], assumption)+

text \<open>The two kinds of formats in which \<^verbatim>\<open>kmain\<close> uses conversions that \<^verbatim>\<open>eX_Print\<close> does not know.\<close>

lemma eX_Print_pmm_line:
  "eX_Print (bytes_of ''PMM: %lu free pages (%lu KiB)'' @ [10, 0]) args con =
     Some (fold eX_PrintChar (bytes_of ''PMM: %lu free pages (%lu KiB)'' @ [10]) con)"
  by (simp add: bytes_of_def eX_Print_directive_def)

lemma eX_Print_hhdm_lines:
  "eX_Print (bytes_of ''HHDM offset high: %0X'' @ [10, 0]) args con =
     Some (fold eX_PrintChar (bytes_of ''HHDM offset high: %0X'' @ [10]) con)"
  "eX_Print (bytes_of ''HHDM offset low: %0X'' @ [10, 0]) args con =
     Some (fold eX_PrintChar (bytes_of ''HHDM offset low: %0X'' @ [10]) con)"
  by (simp_all add: bytes_of_def eX_Print_directive_def)

lemma prints_format_unknown:
  "prints_format (bytes_of ''PMM: %lu free pages (%lu KiB)'' @ [10, 0]) args"
  "prints_format (bytes_of ''HHDM offset high: %0X'' @ [10, 0]) args"
  "prints_format (bytes_of ''HHDM offset low: %0X'' @ [10, 0]) args"
  unfolding prints_format_def eX_Print_pmm_line eX_Print_hhdm_lines by blast+

text \<open>A kernel state that differs from another by printed text only.\<close>

definition logs :: "'w kernel \<Rightarrow> 'w kernel \<Rightarrow> bool" where
  "logs k k' \<longleftrightarrow> (\<exists>text. k' = k\<lparr>k_console := fold eX_PrintChar text (k_console k)\<rparr>)"

lemma logs_refl [simp]: "logs k k"
  unfolding logs_def by (rule exI [of _ "[]"]) simp

lemma logs_trans: "logs k k' \<Longrightarrow> logs k' k'' \<Longrightarrow> logs k k''"
  unfolding logs_def
proof (elim exE)
  fix s t
  assume "k' = k\<lparr>k_console := fold eX_PrintChar s (k_console k)\<rparr>" and "k'' = k'\<lparr>k_console := fold eX_PrintChar t (k_console k')\<rparr>"
  then show "\<exists>text. k'' = k\<lparr>k_console := fold eX_PrintChar text (k_console k)\<rparr>" by (intro exI [of _ "s @ t"]) simp
qed

lemma logs_fields:
  assumes "logs k k'"
  shows "k_tables k' = k_tables k" "k_cpu k' = k_cpu k" "k_pmm k' = k_pmm k" "k_ppa k' = k_ppa k"
    "k_blocks k' = k_blocks k" "k_elf k' = k_elf k" "k_keyboard k' = k_keyboard k" "k_shell k' = k_shell k"
    "k_ticks k' = k_ticks k" "k_world k' = k_world k"
    "Framebuffer (k_console k') = Framebuffer (k_console k)"
  using assms by (auto simp: logs_def)

lemma kprint_logs:
  assumes "prints_format format args"
  obtains k' where "kprint format args k = Some k'" "logs k k'"
proof -
  obtain s where "eX_Print format args (k_console k) = Some (fold eX_PrintChar s (k_console k))"
    using assms unfolding prints_format_def by blast
  then have "kprint format args k = Some (k\<lparr>k_console := fold eX_PrintChar s (k_console k)\<rparr>)"
    by (simp add: kprint_def)
  then show thesis using that unfolding logs_def by blast
qed

section \<open>A small calculus for the phases\<close>

text \<open>A phase runs on, in a state with a given property.\<close>

definition reaches :: "'s outcome option \<Rightarrow> ('s \<Rightarrow> bool) \<Rightarrow> bool" where
  "reaches r Q \<longleftrightarrow> (\<exists>s. r = Some (Running s) \<and> Q s)"

lemma reaches_running: "Q s \<Longrightarrow> reaches (Some (Running s)) Q"
  by (simp add: reaches_def)

lemma reaches_let: "reaches (f x) Q \<Longrightarrow> reaches (Let x f) Q"
  by simp

lemma reaches_pair: "(\<And>a b. p = (a, b) \<Longrightarrow> reaches (f a b) Q) \<Longrightarrow> reaches (case p of (a, b) \<Rightarrow> f a b) Q"
  by (cases p) simp

lemma reaches_bind: "r = Some x \<Longrightarrow> reaches (g x) Q \<Longrightarrow> reaches (Option.bind r g) Q"
  by simp

lemma reaches_kprint:
  assumes "prints_format format args" and "\<And>k'. logs k k' \<Longrightarrow> reaches (g k') Q"
  shows "reaches (Option.bind (kprint format args k) g) Q"
  using assms(1)
proof (rule kprint_logs [where k = k])
  fix k'
  assume "kprint format args k = Some k'" and "logs k k'"
  then show ?thesis using assms(2) by simp
qed

lemma reaches_mono: "reaches r P \<Longrightarrow> (\<And>s. P s \<Longrightarrow> Q s) \<Longrightarrow> reaches r Q"
  by (auto simp: reaches_def)

lemma reaches_and_then:
  assumes "reaches r P" and "\<And>s. P s \<Longrightarrow> reaches (f s) Q"
  shows "reaches (and_then r f) Q"
  using assms by (auto simp: reaches_def and_then_def)

lemma reaches_unless: "b \<Longrightarrow> reaches y Q \<Longrightarrow> reaches (if \<not> b then x else y) Q"
  by simp

lemmas reaches_intros = reaches_running reaches_let reaches_pair reaches_kprint reaches_unless
lemmas format_intros = prints_format_end prints_format_newline prints_format_unknown prints_format_number
  prints_format_bytes

section \<open>The phases run on\<close>

lemma kmain_timers_reaches:
  "reaches (kmain_timers dev k) (\<lambda>k'. \<exists>k1 w. logs k k1 \<and> k' = k1\<lparr>k_world := w\<rparr>)"
  unfolding kmain_timers_def
  by (intro reaches_intros format_intros; (simp; fail)?) (blast intro: logs_trans)

lemma kmain_services_reaches:
  assumes "req_response (eX_HHDMRequest boot) = Some response"
  shows "reaches (kmain_services boot k) (\<lambda>k'. k' = k\<lparr>k_console := k_console k',
    k_blocks := heap_init (k_blocks k), k_elf := (k_elf k)\<lparr>elf_initialized := True\<rparr>\<rparr> \<and>
    Framebuffer (k_console k') = Framebuffer (k_console k))"
  unfolding kmain_services_def assms elf_init_def option.case
  by (intro reaches_intros format_intros; (simp; fail)?) (auto simp: logs_def)

lemma kmain_map_line_logs:
  obtains tot' k' where "kmain_map_line entry (tot, k) = Some (tot', k')" "logs k k'"
proof -
  have "prints_format (bytes_of ''Type: '' @ bytes_of ''%u'' @ bytes_of ''  Base: 0x'' @ bytes_of ''%X'' @
      bytes_of ''  Length: 0x'' @ bytes_of ''%X'' @ [10, 0])
    [uint_arg (me_type entry), uint_arg (me_base entry), uint_arg (me_length entry)]"
    by (intro format_intros) simp_all
  then obtain k' where "kprint (bytes_of ''Type: '' @ bytes_of ''%u'' @ bytes_of ''  Base: 0x'' @ bytes_of ''%X'' @
      bytes_of ''  Length: 0x'' @ bytes_of ''%X'' @ [10, 0])
    [uint_arg (me_type entry), uint_arg (me_base entry), uint_arg (me_length entry)] k = Some k'" "logs k k'"
    by (rule kprint_logs [where k = k])
  then show thesis using that by (simp add: kmain_map_line_def)
qed

lemma kmain_map_lines:
  assumes ok: "memmap_ok response es"
  shows "\<exists>s. for_range_opt 0 (entry_count response) (\<lambda>i s. do {
      entry \<leftarrow> memmap_entry response i;
      kmain_map_line entry s
    }) (tot, k) = Some s \<and> logs k (snd s)"
proof (rule for_range_opt_inv [where P = "\<lambda>j s. logs k (snd s)"])
  fix j and s :: "u64 \<times> 'a kernel"
  assume j: "0 \<le> j" "j < entry_count response" and s: "logs k (snd s)"
  obtain tot' k' where "kmain_map_line (es ! unat j) (fst s, snd s) = Some (tot', k')" "logs (snd s) k'"
    by (rule kmain_map_line_logs)
  then show "\<exists>s'. Option.bind (memmap_entry response j) (\<lambda>entry. kmain_map_line entry s) = Some s' \<and> logs k (snd s')"
    using s by (auto simp: memmap_ok_entry [OF ok j(2)] intro: logs_trans)
qed simp_all

lemma kmain_gdt_reaches:
  assumes gdt: "eX_GDT_Init (boot_symbols boot) (k_tables k, k_cpu k) = (t, c)"
  shows "reaches (kmain_gdt boot k) (\<lambda>k'. k' = k\<lparr>k_console := k_console k', k_tables := t, k_cpu := c\<rparr> \<and>
    Framebuffer (k_console k') = Framebuffer (k_console k))"
  unfolding kmain_gdt_def
  by (intro reaches_intros format_intros; (simp; fail)?) (use gdt in \<open>auto simp: logs_def\<close>)

lemma kmain_memory_map_logs:
  assumes ok: "memmap_ok response es"
  shows "\<exists>tot k'. kmain_memory_map response k = Some (tot, k') \<and> logs k k'"
proof -
  have "prints_format ([10] @ bytes_of ''Memory map:'' @ [10, 0]) []"
    unfolding append_Cons append_Nil by (intro format_intros) simp_all
  then obtain k1 where k1: "kprint ([10] @ bytes_of ''Memory map:'' @ [10, 0]) [] k = Some k1" "logs k k1"
    by (rule kprint_logs [where k = k])
  obtain s where "for_range_opt 0 (entry_count response) (\<lambda>i s. do {
      entry \<leftarrow> memmap_entry response i;
      kmain_map_line entry s
    }) (0, k1) = Some s" "logs k1 (snd s)"
    using kmain_map_lines [OF ok] by blast
  then show ?thesis
    using k1 unfolding kmain_memory_map_def by (cases s) (auto intro: logs_trans)
qed

lemma logs_pmm:
  assumes "logs k k1" and "logs (k1\<lparr>k_pmm := p\<rparr>) k2"
  shows "k2 = k\<lparr>k_console := k_console k2, k_pmm := p\<rparr>" and "k_pmm k2 = p"
    and "Framebuffer (k_console k2) = Framebuffer (k_console k)"
  using assms by (auto simp: logs_def)

definition pmm_ready :: "limine_memmap_entry list \<Rightarrow> 'w kernel \<Rightarrow> 'w kernel \<Rightarrow> bool" where
  "pmm_ready es k k' \<longleftrightarrow> k' = k\<lparr>k_console := k_console k', k_pmm := k_pmm k'\<rparr> \<and>
     Framebuffer (k_console k') = Framebuffer (k_console k) \<and>
     pmm_initialized (k_pmm k') \<and> usable_frames (k_pmm k') = map_frames es \<and> pmm_free_pages (k_pmm k') = 0"

lemma kmain_pmm_reaches:
  assumes ok: "memmap_ok response es" and len: "length es \<le> 2 ^ 24"
  shows "reaches (kmain_pmm response tot k) (pmm_ready es k)"
  unfolding kmain_pmm_def
proof (rule reaches_kprint)
  show "prints_format (bytes_of ''Initializing the Physical Memory Manager... '' @ [0]) []"
    by (intro format_intros) simp_all
next
  fix k1
  assume k1: "logs k k1"
  obtain p where p: "pmm_init (Some response) (k_pmm k1) = Some (True, p)" "pmm_initialized p"
      "usable_frames p = map_frames es" "pmm_free_pages p = 0"
    using pmm_init_eq [OF ok len, of "k_pmm k1"] by (auto simp: pmm_free_pages_def)
  have fin: "pmm_ready es k k4" if "logs (k1\<lparr>k_pmm := p\<rparr>) k2" "logs k2 k3" "logs k3 k4" for k2 k3 k4
  proof -
    have "logs (k1\<lparr>k_pmm := p\<rparr>) k4" using that logs_trans by blast
    then show ?thesis using logs_pmm [OF k1] p(2-4) unfolding pmm_ready_def by metis
  qed
  let ?rest = "\<lambda>(ok, p). let k = k1\<lparr>k_pmm := p\<rparr> in
      if \<not> ok then Option.bind (kprint (bytes_of ''FAILED!'' @ [10, 0]) [] k)
        (kbugcheck (cstr ''The PMM initialization failed.'') 0xE2)
      else Option.bind (kprint (bytes_of ''Success!'' @ [10, 0]) [] k) (\<lambda>k.
        Option.bind (kprint (bytes_of ''PMM: %lu free pages (%lu KiB)'' @ [10, 0])
          [ArgInt (pmm_free_pages (k_pmm k)), ArgInt (pmm_free_pages (k_pmm k) * 4)] k) (\<lambda>k.
        Option.bind (kprint (bytes_of ''Total usable memory: '' @ bytes_of ''%u'' @ bytes_of '' bytes'' @ [10, 0])
          [uint_arg tot] k) (\<lambda>k. Some (Running k))))"
  have "reaches (?rest (True, p)) (pmm_ready es k)"
    unfolding prod.case
    by (intro reaches_intros format_intros; (simp; fail)?) (rule fin)
  then show "reaches (Option.bind (pmm_init (Some response) (k_pmm k1)) ?rest) (pmm_ready es k)"
    by (rule reaches_bind [OF p(1)])
qed

lemma kmain_memory_reaches:
  assumes "req_response (eX_MemoryMapRequest boot) = Some response" and "memmap_ok response es" and "length es \<le> 2 ^ 24"
  shows "reaches (kmain_memory boot k) (pmm_ready es k)"
proof -
  obtain tot k1 where k1: "kmain_memory_map response k = Some (tot, k1)" "logs k k1"
    using kmain_memory_map_logs [OF assms(2)] by blast
  then have "kmain_memory boot k = kmain_pmm response tot k1" using assms(1) by (simp add: kmain_memory_def)
  moreover obtain k2 where k2: "kmain_pmm response tot k1 = Some (Running k2)" "pmm_ready es k1 k2"
    using kmain_pmm_reaches [OF assms(2,3), of tot k1] unfolding reaches_def by blast
  moreover have "k2 = k\<lparr>k_console := k_console k2, k_pmm := k_pmm k2\<rparr>"
    using k2(2) k1(2) unfolding pmm_ready_def logs_def
    by (metis kernel.surjective kernel.update_convs(1,4))
  ultimately show ?thesis using logs_fields(11) [OF k1(2)] unfolding reaches_def pmm_ready_def by simp
qed

lemma kmain_shell_reaches:
  "reaches (kmain_shell k) (\<lambda>k'. k' = k\<lparr>k_keyboard := eX_Keyboard_Init (k_keyboard k),
    k_cpu := (k_cpu k)\<lparr>reg_if := True\<rparr>, k_console := k_console k', k_shell := (k_shell k)\<lparr>ShellLength := 0\<rparr>\<rparr> \<and>
    (\<exists>con. k_console k' = fold eX_PrintChar shell_prompt con \<and> CursorX con = 0 \<and>
      Framebuffer con = Framebuffer (k_console k)))"
proof -
  let ?con = "fold eX_PrintChar (bytes_of ''Tests completed'' @ [10] @ bytes_of ''eyaX kernel, beta 0.1'' @ [10, 10]) (k_console k)"
  have "kmain_shell k = Some (Running (k\<lparr>k_keyboard := eX_Keyboard_Init (k_keyboard k), k_cpu := (k_cpu k)\<lparr>reg_if := True\<rparr>,
      k_console := fold eX_PrintChar shell_prompt ?con, k_shell := (k_shell k)\<lparr>ShellLength := 0\<rparr>\<rparr>))"
    by (simp add: kmain_shell_def kprint_def eX_Print_bytes eX_Shell_Init_eq Let_def)
  moreover have "CursorX ?con = 0" by (simp add: eX_PrintChar_cursor)
  ultimately show ?thesis unfolding reaches_def by (auto intro!: exI [of _ ?con])
qed

lemma kmain_idt_reaches:
  assumes idt: "eX_IDT_Init (boot_symbols boot) (k_tables k, k_cpu k) = (t, c)" and len: "length (eX_IDT (k_tables k)) = 256"
  shows "reaches (kmain_idt dev boot k) (\<lambda>k'. k' = k\<lparr>k_console := k_console k', k_tables := t, k_cpu := c,
    k_ticks := k_ticks k + 1, k_world := k_world k'\<rparr> \<and> Framebuffer (k_console k') = Framebuffer (k_console k))"
  unfolding kmain_idt_def
proof (intro reaches_intros)
  show "prints_format (bytes_of ''Testing IDT...'' @ [10, 0]) []" by (intro format_intros) simp_all
next
  fix t' c' k1
  assume tc: "eX_IDT_Init (boot_symbols boot) (k_tables k, k_cpu k) = (t', c')"
    and k1: "logs (k\<lparr>k_tables := t', k_cpu := c'\<rparr>) k1"
  have eqs: "t' = t" "c' = c" using tc idt by simp_all
  have "gate_target (k_tables k1) 0x20 = Some (0x08, addr_TimerHandler (boot_symbols boot))"
    using eX_IDT_Init_gates(1) [OF len idt] logs_fields(1) [OF k1] eqs by simp
  then show "reaches (software_interrupt dev (boot_symbols boot) 0x20 k1) (\<lambda>k'. k' = k\<lparr>k_console := k_console k',
      k_tables := t, k_cpu := c, k_ticks := k_ticks k + 1, k_world := k_world k'\<rparr> \<and>
      Framebuffer (k_console k') = Framebuffer (k_console k))"
    using k1 unfolding eqs
    by (auto simp: software_interrupt_def eX_TimerHandler_eq reaches_def logs_def)
qed

text \<open>What the boot loader must provide, and the state of the static variables at the start.\<close>

definition boot_ok :: "boot \<Rightarrow> limine_framebuffer \<Rightarrow> limine_memmap_entry list \<Rightarrow> bool" where
  "boot_ok boot fb es \<longleftrightarrow> LIMINE_BASE_REVISION_SUPPORTED (limine_base_revision boot) \<and>
     (\<exists>fr mr hr. req_response (framebuffer_request boot) = Some fr \<and> framebuffer_count fr \<ge> 1 \<and> array_get (framebuffers fr) 0 = Some fb \<and>
        req_response (eX_MemoryMapRequest boot) = Some mr \<and> memmap_ok mr es \<and> req_response (eX_HHDMRequest boot) = Some hr) \<and>
     fb_bpp fb = 32 \<and> length es \<le> 2 ^ 24"

definition kernel_bss :: "'w kernel \<Rightarrow> bool" where
  "kernel_bss k \<longleftrightarrow> length (eX_IDT (k_tables k)) = 256 \<and> length (eX_GDT (k_tables k)) = 3 \<and>
     length (KeyboardBuffer (k_keyboard k)) = 128 \<and> length (ShellBuffer (k_shell k)) = 128 \<and>
     k_ticks k = 0 \<and> k_blocks k = blocks_bss"

lemma kmain_checks_reaches:
  assumes "boot_ok boot fb es"
  shows "reaches (kmain_checks boot k) (\<lambda>k'. k' = k\<lparr>k_console := (k_console k)\<lparr>Framebuffer := fb\<rparr>\<rparr>)"
proof -
  obtain fr where fr: "req_response (framebuffer_request boot) = Some fr" "1 \<le> framebuffer_count fr"
      "array_get (framebuffers fr) 0 = Some fb" "req_response (eX_MemoryMapRequest boot) \<noteq> None"
    using assms by (auto simp: boot_ok_def)
  have "LIMINE_BASE_REVISION_SUPPORTED (limine_base_revision boot)" "fb_bpp fb = 32"
    using assms by (simp_all add: boot_ok_def)
  then show ?thesis using fr by (auto simp: kmain_checks_def reaches_def Let_def)
qed

text \<open>The state in which the endless loop starts.\<close>

definition booted :: "boot \<Rightarrow> limine_framebuffer \<Rightarrow> limine_memmap_entry list \<Rightarrow> 'w kernel \<Rightarrow> bool" where
  "booted boot fb es k \<longleftrightarrow>
     Framebuffer (k_console k) = fb \<and>
     (\<exists>con. k_console k = fold eX_PrintChar shell_prompt con \<and> CursorX con = 0 \<and> Framebuffer con = fb) \<and>
     (\<forall>v. gate_target (k_tables k) v =
       (if v = 0x06 then Some (reg_cs (k_cpu k), addr_InvalidOpcodeHandler (boot_symbols boot))
        else if v = 0x0E then Some (reg_cs (k_cpu k), addr_PageFaultHandler (boot_symbols boot))
        else if v = 0x20 then Some (reg_cs (k_cpu k), addr_TimerHandler (boot_symbols boot)) else None)) \<and>
     reg_cs (k_cpu k) = 0x08 \<and> reg_if (k_cpu k) \<and> k_ticks k = 1 \<and>
     pmm_initialized (k_pmm k) \<and> usable_frames (k_pmm k) = map_frames es \<and>
     k_blocks k = heap_init blocks_bss \<and> elf_is_initialized (k_elf k) \<and>
     kb_inv (k_keyboard k) \<and> kb_pending (k_keyboard k) = [] \<and> typed_by (k_keyboard k) = typed False False False \<and>
     shell_inv (k_shell k) \<and> shell_line (k_shell k) = []"

text \<open>What the phases before the shell leave in place, and what they have set up.\<close>

definition boot_stage ::
    "'w kernel \<Rightarrow> limine_framebuffer \<Rightarrow> tables \<Rightarrow> cpu \<Rightarrow> u64 \<Rightarrow> blocks \<Rightarrow> 'w kernel \<Rightarrow> bool" where
  "boot_stage k0 fb t c n bs k \<longleftrightarrow> Framebuffer (k_console k) = fb \<and> k_keyboard k = k_keyboard k0 \<and>
     k_shell k = k_shell k0 \<and> k_tables k = t \<and> k_cpu k = c \<and> k_ticks k = n \<and> k_blocks k = bs"

definition pmm_covers :: "limine_memmap_entry list \<Rightarrow> 'w kernel \<Rightarrow> bool" where
  "pmm_covers es k \<longleftrightarrow> pmm_initialized (k_pmm k) \<and> usable_frames (k_pmm k) = map_frames es"

lemma kmain_gdt_stage:
  assumes "boot_stage k0 fb t c n bs k" and "eX_GDT_Init (boot_symbols boot) (t, c) = (t', c')"
  shows "reaches (kmain_gdt boot k) (boot_stage k0 fb t' c' n bs)"
proof -
  have "eX_GDT_Init (boot_symbols boot) (k_tables k, k_cpu k) = (t', c')" using assms by (simp add: boot_stage_def)
  then obtain con where "kmain_gdt boot k = Some (Running (k\<lparr>k_console := con, k_tables := t', k_cpu := c'\<rparr>))"
      "Framebuffer con = Framebuffer (k_console k)"
    using kmain_gdt_reaches unfolding reaches_def by metis
  then show ?thesis using assms(1) by (simp add: reaches_def boot_stage_def)
qed

lemma kmain_memory_stage:
  assumes "boot_stage k0 fb t c n bs k" and "req_response (eX_MemoryMapRequest boot) = Some response" and "memmap_ok response es"
    and "length es \<le> 2 ^ 24"
  shows "reaches (kmain_memory boot k) (\<lambda>k'. boot_stage k0 fb t c n bs k' \<and> pmm_covers es k')"
proof -
  obtain con p where "kmain_memory boot k = Some (Running (k\<lparr>k_console := con, k_pmm := p\<rparr>))"
      "Framebuffer con = Framebuffer (k_console k)" "pmm_initialized p" "usable_frames p = map_frames es"
    using kmain_memory_reaches [OF assms(2-4), of k] unfolding reaches_def pmm_ready_def by metis
  then show ?thesis using assms(1) by (simp add: reaches_def boot_stage_def pmm_covers_def)
qed

lemma kmain_idt_stage:
  assumes "boot_stage k0 fb t c n bs k \<and> pmm_covers es k" and "length (eX_IDT t) = 256"
    and "eX_IDT_Init (boot_symbols boot) (t, c) = (t', c')"
  shows "reaches (kmain_idt dev boot k) (\<lambda>k'. boot_stage k0 fb t' c' (n + 1) bs k' \<and> pmm_covers es k')"
proof -
  have "eX_IDT_Init (boot_symbols boot) (k_tables k, k_cpu k) = (t', c')" "length (eX_IDT (k_tables k)) = 256"
    using assms by (simp_all add: boot_stage_def)
  then obtain con w where "kmain_idt dev boot k = Some (Running (k\<lparr>k_console := con, k_tables := t', k_cpu := c',
      k_ticks := k_ticks k + 1, k_world := w\<rparr>))" "Framebuffer con = Framebuffer (k_console k)"
    using kmain_idt_reaches [of boot k t' c' dev] unfolding reaches_def by metis
  then show ?thesis using assms(1) by (simp add: reaches_def boot_stage_def pmm_covers_def)
qed

lemma kmain_timers_stage:
  assumes "boot_stage k0 fb t c n bs k \<and> pmm_covers es k"
  shows "reaches (kmain_timers dev k) (\<lambda>k'. boot_stage k0 fb t c n bs k' \<and> pmm_covers es k')"
proof -
  obtain k1 w where k1: "logs k k1" "kmain_timers dev k = Some (Running (k1\<lparr>k_world := w\<rparr>))"
    using kmain_timers_reaches [of dev k] unfolding reaches_def by metis
  then show ?thesis using assms logs_fields [OF k1(1)] by (simp add: reaches_def boot_stage_def pmm_covers_def)
qed

lemma kmain_services_stage:
  assumes "boot_stage k0 fb t c n bs k \<and> pmm_covers es k" and "req_response (eX_HHDMRequest boot) = Some response"
  shows "reaches (kmain_services boot k)
    (\<lambda>k'. boot_stage k0 fb t c n (heap_init bs) k' \<and> pmm_covers es k' \<and> elf_is_initialized (k_elf k'))"
proof -
  obtain con where "kmain_services boot k = Some (Running (k\<lparr>k_console := con,
      k_blocks := heap_init (k_blocks k), k_elf := (k_elf k)\<lparr>elf_initialized := True\<rparr>\<rparr>))"
      "Framebuffer con = Framebuffer (k_console k)"
    using kmain_services_reaches [OF assms(2), of k] unfolding reaches_def by metis
  then show ?thesis using assms(1) by (simp add: reaches_def boot_stage_def pmm_covers_def elf_is_initialized_def)
qed

lemma kmain_shell_stage:
  assumes stage: "boot_stage k0 fb t c 1 (heap_init blocks_bss) k \<and> pmm_covers es k \<and> elf_is_initialized (k_elf k)"
    and bss: "kernel_bss k0" and cs: "reg_cs c = 0x08"
    and gates: "\<And>v. gate_target t v =
       (if v = 0x06 then Some (reg_cs c, addr_InvalidOpcodeHandler (boot_symbols boot))
        else if v = 0x0E then Some (reg_cs c, addr_PageFaultHandler (boot_symbols boot))
        else if v = 0x20 then Some (reg_cs c, addr_TimerHandler (boot_symbols boot)) else None)"
  shows "reaches (kmain_shell k) (booted boot fb es)"
proof -
  obtain con where "kmain_shell k = Some (Running (k\<lparr>k_keyboard := eX_Keyboard_Init (k_keyboard k),
      k_cpu := (k_cpu k)\<lparr>reg_if := True\<rparr>, k_console := fold eX_PrintChar shell_prompt con,
      k_shell := (k_shell k)\<lparr>ShellLength := 0\<rparr>\<rparr>))" "CursorX con = 0" "Framebuffer con = Framebuffer (k_console k)"
    using kmain_shell_reaches [of k] unfolding reaches_def by metis
  moreover have "kb_inv (eX_Keyboard_Init (k_keyboard k0))" "kb_pending (eX_Keyboard_Init (k_keyboard k0)) = []"
      "typed_by (eX_Keyboard_Init (k_keyboard k0)) = typed False False False"
      "shell_inv ((k_shell k0)\<lparr>ShellLength := 0\<rparr>)" "shell_line ((k_shell k0)\<lparr>ShellLength := 0\<rparr>) = []"
    using bss by (simp_all add: kernel_bss_def eX_Keyboard_Init_def kb_inv_def kb_pending_def kb_count_def
        shell_inv_def shell_line_def)
  ultimately show ?thesis
    using stage by (auto simp: reaches_def booted_def boot_stage_def pmm_covers_def gates cs)
qed

text \<open>The phases before the higher half offset is needed.\<close>

abbreviation kmain_set_up :: "'w devices \<Rightarrow> boot \<Rightarrow> 'w kernel \<Rightarrow> 'w kernel outcome option" where
  "kmain_set_up dev boot k \<equiv> and_then (and_then (and_then (and_then (kmain_checks boot k)
     (kmain_gdt boot)) (kmain_memory boot)) (kmain_idt dev boot)) (kmain_timers dev)"

lemma kmain_set_up_reaches:
  assumes ok: "boot_ok (boot\<lparr>eX_HHDMRequest := r\<rparr>) fb es" and bss: "kernel_bss k"
    and gdt: "eX_GDT_Init (boot_symbols boot) (k_tables k, k_cpu k) = (t1, c1)"
    and idt: "eX_IDT_Init (boot_symbols boot) (t1, c1) = (t2, c2)"
  shows "reaches (kmain_set_up dev boot k) (\<lambda>k'. boot_stage k fb t2 c2 1 blocks_bss k' \<and> pmm_covers es k')"
proof -
  obtain mr where mr: "req_response (eX_MemoryMapRequest boot) = Some mr" "memmap_ok mr es" "length es \<le> 2 ^ 24"
    using ok by (auto simp: boot_ok_def)
  have t1: "length (eX_IDT t1) = 256"
    using gdt bss by (auto simp: eX_GDT_Init_def eX_GDT_Load_def Let_def kernel_bss_def)
  have "kmain_checks boot k = kmain_checks (boot\<lparr>eX_HHDMRequest := r\<rparr>) k"
    by (simp add: kmain_checks_def split: option.split)
  then have start: "reaches (kmain_checks boot k) (boot_stage k fb (k_tables k) (k_cpu k) 0 blocks_bss)"
    using kmain_checks_reaches [OF ok, of k] bss by (auto simp: reaches_def kernel_bss_def boot_stage_def)
  show ?thesis
    by (rule start reaches_and_then kmain_timers_stage kmain_idt_stage [OF _ t1 idt, where n = 0, simplified]
        kmain_memory_stage [OF _ mr] kmain_gdt_stage [OF _ gdt]
      | assumption)+
qed

lemma kmain_boot_reaches:
  assumes ok: "boot_ok boot fb es" and bss: "kernel_bss k"
  shows "reaches (kmain_boot dev boot k) (booted boot fb es)"
proof -
  obtain hr where hr: "req_response (eX_HHDMRequest boot) = Some hr" using ok by (auto simp: boot_ok_def)
  obtain t1 c1 where gdt: "eX_GDT_Init (boot_symbols boot) (k_tables k, k_cpu k) = (t1, c1)" by fastforce
  obtain t2 c2 where idt: "eX_IDT_Init (boot_symbols boot) (t1, c1) = (t2, c2)" by fastforce
  have t1: "length (eX_IDT t1) = 256" "reg_cs c1 = 0x08"
    using gdt bss by (auto simp: eX_GDT_Init_def eX_GDT_Load_def Let_def kernel_bss_def)
  note gates = eX_IDT_Init_gates [OF t1(1) idt]
  have cs: "reg_cs c2 = 0x08" using t1(2) gates(4) by simp
  have "boot_ok (boot\<lparr>eX_HHDMRequest := eX_HHDMRequest boot\<rparr>) fb es" using ok by simp
  note set_up = kmain_set_up_reaches [OF this bss gdt idt, of dev]
  show ?thesis
    unfolding kmain_boot_def
    by (rule set_up reaches_and_then kmain_shell_stage [OF _ bss cs] kmain_services_stage [OF _ hr] | assumption)+
      (simp add: gates(1) t1(2) cs)
qed

section \<open>The endless loop\<close>

text \<open>
  Runs of the kernel after boot: passes of the loop, timer interrupts, and activity of the devices.
  Here an interrupt is taken between two passes; \<open>Eyax_Loop\<close> has interrupts in the middle of a pass. The
  labels collect the scancodes that the passes have read and count the timer interrupts. A pass is
  taken when its scancodes type no more characters than the ring can hold.
\<close>

inductive kernel_run :: "'w devices \<Rightarrow> ('w \<Rightarrow> u8 list) \<Rightarrow> symbols \<Rightarrow> 'w kernel \<Rightarrow> u8 list \<Rightarrow> nat \<Rightarrow> 'w kernel \<Rightarrow> bool"
  for dev q syms k0 where
  start: "kernel_run dev q syms k0 [] 0 k0"
| pass: "kernel_run dev q syms k0 codes n k \<Longrightarrow>
    length (typed_by (k_keyboard k) (q (k_world k))) \<le> 127 \<Longrightarrow> kmain_iteration dev k = Some k' \<Longrightarrow>
    kernel_run dev q syms k0 (codes @ q (k_world k)) n k'"
| tick: "kernel_run dev q syms k0 codes n k \<Longrightarrow> reg_if (k_cpu k) \<Longrightarrow>
    software_interrupt dev syms 0x20 k = Some (Running k') \<Longrightarrow> kernel_run dev q syms k0 codes (n + 1) k'"
| device: "kernel_run dev q syms k0 codes n k \<Longrightarrow> kernel_run dev q syms k0 codes n (k\<lparr>k_world := w\<rparr>)"

lemma kmain_iteration_handles:
  assumes dev: "kbc_queue dev q" and kb: "kb_inv (k_keyboard k)" and sh: "shell_inv (k_shell k)"
  shows "\<exists>w kb sh con. kmain_iteration dev k = Some (k\<lparr>k_world := w, k_keyboard := kb, k_shell := sh, k_console := con\<rparr>) \<and>
    q w = [] \<and> kb_inv kb \<and> kb_pending kb = [] \<and> shell_inv sh \<and>
    (shell_line sh, con) = fold shell_step
      (take 127 (kb_pending (k_keyboard k) @ typed_by (k_keyboard k) (q (k_world k)))) (shell_line (k_shell k), k_console k) \<and>
    (\<forall>bs. typed_by (k_keyboard k) (q (k_world k) @ bs) = typed_by (k_keyboard k) (q (k_world k)) @ typed_by kb bs)"
proof -
  let ?cs = "take 127 (kb_pending (k_keyboard k) @ typed_by (k_keyboard k) (q (k_world k)))"
  obtain w k1 where poll: "eX_Keyboard_Poll dev (k_world k) (k_keyboard k) = Some (w, k1)" "q w = []" "kb_inv k1"
      "kb_pending k1 = ?cs"
      "\<And>bs. typed_by (k_keyboard k) (q (k_world k) @ bs) = typed_by (k_keyboard k) (q (k_world k)) @ typed_by k1 bs"
    using eX_Keyboard_Poll_typed [OF dev kb, of "k_world k"] by blast
  have "shell_good (k_shell k, k_console k)" using sh by (simp add: shell_good_def)
  from eX_Shell_Update_refines [OF poll(3) this] obtain k2 sh2 con2 where upd:
      "eX_Shell_Update k1 (k_shell k, k_console k) = Some (k2, sh2, con2)" "kb_inv k2" "kb_pending k2 = []"
      "shell_inv sh2" "(shell_line sh2, con2) = fold shell_step (kb_pending k1) (shell_line (k_shell k), k_console k)"
    by (auto simp: shell_good_def shell_abs_def)
  have "kmain_iteration dev k = Some (k\<lparr>k_world := w, k_keyboard := k2, k_shell := sh2, k_console := con2\<rparr>)"
    by (simp add: kmain_iteration_def poll(1) upd(1))
  moreover have "(shell_line sh2, con2) = fold shell_step ?cs (shell_line (k_shell k), k_console k)"
    using upd(5) unfolding poll(4) .
  moreover have "\<forall>bs. typed_by (k_keyboard k) (q (k_world k) @ bs) =
      typed_by (k_keyboard k) (q (k_world k)) @ typed_by k2 bs"
    using poll(5) eX_Shell_Update_typed_by [OF upd(1)] by simp
  ultimately show ?thesis using poll(2) upd(2-4) by blast
qed

lemma kmain_iteration_typed:
  assumes dev: "kbc_queue dev q" and kb: "kb_inv (k_keyboard k)" "kb_pending (k_keyboard k) = []"
    and sh: "shell_inv (k_shell k)"
  shows "\<exists>w kb sh con. kmain_iteration dev k = Some (k\<lparr>k_world := w, k_keyboard := kb, k_shell := sh, k_console := con\<rparr>) \<and>
    kb_inv kb \<and> kb_pending kb = [] \<and> shell_inv sh \<and>
    (shell_line sh, con) = fold shell_step (take 127 (typed_by (k_keyboard k) (q (k_world k)))) (shell_line (k_shell k), k_console k) \<and>
    (\<forall>bs. typed_by (k_keyboard k) (q (k_world k) @ bs) = typed_by (k_keyboard k) (q (k_world k)) @ typed_by kb bs)"
  using kmain_iteration_handles [OF dev kb(1) sh] unfolding kb(2) append_Nil by blast

text \<open>The invariant of the runs.\<close>

definition loop_inv :: "symbols \<Rightarrow> console \<Rightarrow> u8 list \<Rightarrow> nat \<Rightarrow> 'w kernel \<Rightarrow> bool" where
  "loop_inv syms con0 codes n k \<longleftrightarrow>
     kb_inv (k_keyboard k) \<and> kb_pending (k_keyboard k) = [] \<and> shell_inv (k_shell k) \<and>
     (shell_line (k_shell k), k_console k) = fold shell_step (typed False False False codes) ([], con0) \<and>
     (\<forall>bs. typed False False False (codes @ bs) = typed False False False codes @ typed_by (k_keyboard k) bs) \<and>
     gate_target (k_tables k) 0x20 = Some (0x08, addr_TimerHandler syms) \<and>
     k_ticks k = of_nat (n + 1)"

lemma software_interrupt_timer:
  assumes "gate_target (k_tables k) 0x20 = Some (0x08, addr_TimerHandler syms)" and "k_ticks k \<noteq> 0"
  shows "software_interrupt dev syms 0x20 k =
    Some (Running (k\<lparr>k_ticks := k_ticks k + 1, k_world := dev_outb dev 0x20 0x20 (k_world k)\<rparr>))"
  using assms by (simp add: software_interrupt_def eX_TimerHandler_eq)

lemma of_nat_ticks_nonzero: "n + 1 < 2 ^ 64 \<Longrightarrow> (of_nat (n + 1) :: u64) \<noteq> 0"
  by (simp add: word_unat_eq_iff unat_of_nat64 del: of_nat_Suc of_nat_add)

lemma loop_inv_run:
  assumes dev: "kbc_queue dev q" and run: "kernel_run dev q syms k0 codes n k"
    and start: "loop_inv syms con0 [] 0 k0" and bound: "n + 1 < 2 ^ 64"
  shows "loop_inv syms con0 codes n k"
  using run start bound
proof (induction rule: kernel_run.induct)
  case (pass codes n k k')
  then have inv: "loop_inv syms con0 codes n k" by simp
  let ?new = "typed_by (k_keyboard k) (q (k_world k))"
  obtain w kb sh con where it: "kmain_iteration dev k = Some (k\<lparr>k_world := w, k_keyboard := kb, k_shell := sh, k_console := con\<rparr>)"
      "kb_inv kb" "kb_pending kb = []" "shell_inv sh"
      "(shell_line sh, con) = fold shell_step (take 127 ?new) (shell_line (k_shell k), k_console k)"
      "\<And>bs. typed_by (k_keyboard k) (q (k_world k) @ bs) = ?new @ typed_by kb bs"
    using kmain_iteration_typed [OF dev, of k] inv unfolding loop_inv_def by metis
  have k': "k' = k\<lparr>k_world := w, k_keyboard := kb, k_shell := sh, k_console := con\<rparr>" using it(1) pass.hyps(3) by simp
  have split: "typed False False False (codes @ bs) = typed False False False codes @ typed_by (k_keyboard k) bs" for bs
    using inv unfolding loop_inv_def by blast
  have "(shell_line sh, con) = fold shell_step (typed False False False (codes @ q (k_world k))) ([], con0)"
    using it(5) inv pass.hyps(2) split [of "q (k_world k)"] by (simp add: loop_inv_def)
  moreover have "typed False False False ((codes @ q (k_world k)) @ bs) =
      typed False False False (codes @ q (k_world k)) @ typed_by kb bs" for bs
    using split [of "q (k_world k) @ bs"] split [of "q (k_world k)"] it(6) [of bs] by simp
  ultimately show ?case using it(2-4) inv unfolding k' loop_inv_def by simp
next
  case (tick codes n k k')
  then have inv: "loop_inv syms con0 codes n k" by simp
  have "k_ticks k \<noteq> 0" using inv tick.prems(2) of_nat_ticks_nonzero [of n] by (simp add: loop_inv_def)
  then have "k' = k\<lparr>k_ticks := k_ticks k + 1, k_world := dev_outb dev 0x20 0x20 (k_world k)\<rparr>"
    using software_interrupt_timer [of k syms dev] inv tick.hyps(3) unfolding loop_inv_def by simp
  then show ?case using inv by (simp add: loop_inv_def)
qed (simp_all add: loop_inv_def)

lemma booted_loop_inv:
  assumes "booted boot fb es k"
  shows "loop_inv (boot_symbols boot) (k_console k) [] 0 k"
proof -
  have cs: "gate_target (k_tables k) 0x20 = Some (reg_cs (k_cpu k), addr_TimerHandler (boot_symbols boot))"
    using assms by (simp add: booted_def)
  show ?thesis using assms cs by (simp add: loop_inv_def booted_def)
qed

text \<open>What is typed at the prompt is visible while the screen has room for it.\<close>

lemma booted_prompt_visible:
  assumes "booted boot fb es k0" and fits: "text_row_fits (k_console k0) 6 (unat (CursorY (k_console k0)))"
  shows "shell_visible ([], k_console k0)"
proof -
  obtain con where con: "k_console k0 = fold eX_PrintChar shell_prompt con" "CursorX con = 0"
    using assms(1) unfolding booted_def by blast
  have "10 \<notin> set shell_prompt" using shell_prompt_facts(2) by blast
  then have "CursorY (k_console k0) = CursorY con"
    by (simp add: con(1) CursorY_fold_eX_PrintChar count_list_0_iff [THEN iffD2])
  then have "text_row_fits con 6 (unat (CursorY con))"
    using fits text_row_fits_cong [of "k_console k0" con] con(1) by simp
  with con(2) show ?thesis unfolding con(1) by (rule prompt_visible)
qed

lemma booted_visible:
  assumes "booted boot fb es k0" and fits: "text_row_fits (k_console k0) 133 (unat (CursorY (k_console k0)) + 6 * length cs)"
  shows "shell_visible (fold shell_step cs ([], k_console k0))"
proof (rule shell_steps_visible)
  have "text_row_fits (k_console k0) 6 (unat (CursorY (k_console k0)))" using fits by (rule text_row_fits_mono) simp_all
  with assms(1) show "shell_visible ([], k_console k0)" by (rule booted_prompt_visible)
qed (use fits in \<open>simp_all add: line_ok_def\<close>)

section \<open>Well-formed kernel states\<close>

text \<open>The lengths of the arrays and the ranges of the indices into them.\<close>

definition kernel_wf :: "'w kernel \<Rightarrow> bool" where
  "kernel_wf k \<longleftrightarrow> length (eX_IDT (k_tables k)) = 256 \<and> length (eX_GDT (k_tables k)) = 3 \<and>
     kb_inv (k_keyboard k) \<and> shell_inv (k_shell k)"

lemma eX_Shell_Update_total:
  assumes "kb_inv kb" and "shell_inv sh"
  obtains kb' sh' con' where "eX_Shell_Update kb (sh, con) = Some (kb', sh', con')" "kb_inv kb'" "shell_inv sh'"
  using eX_Shell_Update_refines [OF assms(1), of "(sh, con)"] assms(2) by (auto simp: shell_good_def)

lemma kmain_iteration_wf:
  assumes "kernel_wf k" and "kmain_iteration dev k = Some k'"
  shows "kernel_wf k'"
proof -
  obtain w kb where poll: "eX_Keyboard_Poll dev (k_world k) (k_keyboard k) = Some (w, kb)"
    using assms(2) by (auto simp: kmain_iteration_def bind_eq_Some_conv)
  have "kb_inv kb" using eX_Keyboard_Poll_inv [OF poll] assms(1) by (simp add: kernel_wf_def)
  then obtain kb' sh' con' where "eX_Shell_Update kb (k_shell k, k_console k) = Some (kb', sh', con')" "kb_inv kb'" "shell_inv sh'"
    using assms(1) unfolding kernel_wf_def by (metis eX_Shell_Update_total)
  then show ?thesis using assms poll by (auto simp: kmain_iteration_def kernel_wf_def)
qed

lemma outcome_case_Running [simp]:
  "(case r of Running con \<Rightarrow> Running (f con) | Halted con \<Rightarrow> Halted (g con)) = Running k' \<longleftrightarrow>
     (\<exists>con. r = Running con \<and> k' = f con)"
  by (cases r) auto

lemma software_interrupt_wf:
  assumes "kernel_wf k" and "software_interrupt dev syms v k = Some (Running k')"
  shows "kernel_wf k'"
  using assms
  by (auto simp: software_interrupt_def kernel_wf_def bind_eq_Some_conv split: if_splits prod.splits)

section \<open>Boots that halt\<close>

definition boot_rejected :: "boot \<Rightarrow> bool" where
  "boot_rejected boot \<longleftrightarrow> \<not> LIMINE_BASE_REVISION_SUPPORTED (limine_base_revision boot) \<or>
     (case req_response (framebuffer_request boot) of
        None \<Rightarrow> True
      | Some fr \<Rightarrow> framebuffer_count fr < 1 \<or> req_response (eX_MemoryMapRequest boot) = None \<or>
          (case array_get (framebuffers fr) 0 of Some fb \<Rightarrow> fb_bpp fb \<noteq> 32 | None \<Rightarrow> False))"

lemma kmain_checks_halts:
  assumes "boot_rejected boot"
  shows "\<exists>fb. kmain_checks boot k = Some (Halted (k\<lparr>k_console := (k_console k)\<lparr>Framebuffer := fb\<rparr>\<rparr>))"
proof -
  have "\<exists>fb. k = k\<lparr>k_console := (k_console k)\<lparr>Framebuffer := fb\<rparr>\<rparr>"
    by (rule exI [of _ "Framebuffer (k_console k)"]) simp
  then show ?thesis
    using assms unfolding boot_rejected_def kmain_checks_def hcf_def Let_def
    by (auto split: option.splits)
qed

lemma kbugcheck_eq:
  assumes "CHR 0x00 \<notin> set s"
  shows "kbugcheck (cstr s) v k =
    Some (Halted (k\<lparr>k_console := fold eX_PrintChar (bugcheck_text (bytes_of s) v 0) (eX_Clear (k_console k))\<rparr>))"
  using eX_BugCheck_eq [of "bytes_of s" "[]" v 0] assms by (simp add: kbugcheck_def cstr_def)

lemma kmain_services_halts:
  assumes none: "req_response (eX_HHDMRequest boot) = None"
  obtains k' con where "kmain_services boot k = Some (Halted k')"
    "k_console k' = fold eX_PrintChar (bugcheck_text (bytes_of ''HHDM request failed.'') 0xE3 0) (eX_Clear con)"
proof -
  have "\<exists>k1. kmain_services boot k = kbugcheck (cstr ''HHDM request failed.'') 0xE3 k1"
    by (simp add: kmain_services_def none kprint_def eX_Print_bytes elf_init_def) blast
  then obtain k1 where "kmain_services boot k = kbugcheck (cstr ''HHDM request failed.'') 0xE3 k1" by blast
  then show thesis using that by (simp add: kbugcheck_eq)
qed

lemma kmain_boot_halts:
  assumes "boot_ok (boot\<lparr>eX_HHDMRequest := r\<rparr>) fb es" and "kernel_bss k" and "req_response (eX_HHDMRequest boot) = None"
  obtains k' con where "kmain_boot dev boot k = Some (Halted k')"
    "k_console k' = fold eX_PrintChar (bugcheck_text (bytes_of ''HHDM request failed.'') 0xE3 0) (eX_Clear con)"
proof -
  obtain t1 c1 where gdt: "eX_GDT_Init (boot_symbols boot) (k_tables k, k_cpu k) = (t1, c1)" by fastforce
  obtain t2 c2 where idt: "eX_IDT_Init (boot_symbols boot) (t1, c1) = (t2, c2)" by fastforce
  obtain k1 where "kmain_set_up dev boot k = Some (Running k1)"
    using kmain_set_up_reaches [OF assms(1,2) gdt idt, of dev] unfolding reaches_def by blast
  then have "kmain_boot dev boot k = and_then (kmain_services boot k1) kmain_shell"
    by (simp add: kmain_boot_def and_then_def)
  moreover obtain k' con where "kmain_services boot k1 = Some (Halted k')"
      "k_console k' = fold eX_PrintChar (bugcheck_text (bytes_of ''HHDM request failed.'') 0xE3 0) (eX_Clear con)"
    using assms(3) by (rule kmain_services_halts)
  ultimately show thesis using that by (simp add: and_then_def)
qed

end
