(* ===== verification/Eyax_Loop.thy ===== *)
theory Eyax_Loop
  imports Eyax_Kernel
begin

text \<open>
  The endless loop of \<^verbatim>\<open>kmain\<close> in small steps, interleaved with timer interrupts and with a keyboard
  controller that receives bytes at any time. A step of the code ends where the code reads a port or
  takes a character; the timer handler shares nothing with the code but the devices and its counter.
  The lemmas relate the small steps to the passes of the loop and follow every character from the
  controller through the ring buffer to the line and the screen.
\<close>

section \<open>Small steps of the loop\<close>

text \<open>
  Where the code is: before the read of the status port or of the data port in \<^verbatim>\<open>eX_Keyboard_Poll\<close>,
  before the call of \<^verbatim>\<open>eX_Keyboard_GetChar\<close> in \<^verbatim>\<open>eX_Shell_Update\<close>, or at the end of the pass.
\<close>

datatype loop_point = Poll_Status | Poll_Data | Shell_Get | Pass_End

fun loop_step :: "'w devices \<Rightarrow> loop_point \<times> 'w kernel \<Rightarrow> (loop_point \<times> 'w kernel) option" where
  "loop_step dev (Poll_Status, k) =
     (let (status, w) = eX_Keyboard_Inb dev eX_KEYBOARD_STATUS_PORT (k_world k);
          k = k\<lparr>k_world := w\<rparr>
      in Some (if status AND eX_KBC_STATUS_OUTPUT_FULL \<noteq> 0 then (Poll_Data, k) else (Shell_Get, k)))"
| "loop_step dev (Poll_Data, k) =
     (let (scancode, w) = eX_Keyboard_Inb dev eX_KEYBOARD_DATA_PORT (k_world k)
      in do {
        kb \<leftarrow> eX_Keyboard_HandleScancode scancode (k_keyboard k);
        Some (Poll_Status, k\<lparr>k_world := w, k_keyboard := kb\<rparr>)
      })"
| "loop_step dev (Shell_Get, k) = do {
     (c, kb) \<leftarrow> eX_Keyboard_GetChar (k_keyboard k);
     let k = k\<lparr>k_keyboard := kb\<rparr>;
     if c = - 1 then Some (Pass_End, k)
     else do {
       (sh, con) \<leftarrow> eX_Shell_key c (k_shell k, k_console k);
       Some (Shell_Get, k\<lparr>k_shell := sh, k_console := con\<rparr>)
     }
   }"
| "loop_step dev (Pass_End, k) = Some (Poll_Status, k)"

text \<open>The steps of the code alone, up to the end of the current pass.\<close>

inductive pass_steps :: "'w devices \<Rightarrow> loop_point \<times> 'w kernel \<Rightarrow> loop_point \<times> 'w kernel \<Rightarrow> bool" for dev where
  refl: "pass_steps dev s s"
| step: "fst s \<noteq> Pass_End \<Longrightarrow> loop_step dev s = Some s' \<Longrightarrow> pass_steps dev s' s'' \<Longrightarrow> pass_steps dev s s''"

lemma pass_steps_trans: "pass_steps dev s t \<Longrightarrow> pass_steps dev t u \<Longrightarrow> pass_steps dev s u"
  by (induction rule: pass_steps.induct) (auto intro: pass_steps.step)

lemma pass_steps_one: "fst s \<noteq> Pass_End \<Longrightarrow> loop_step dev s = Some s' \<Longrightarrow> pass_steps dev s s'"
  by (auto intro: pass_steps.intros)

text \<open>What the passes compute, seen from the middle of one: the part that is left to do.\<close>

fun rest_of_pass :: "'w devices \<Rightarrow> loop_point \<times> 'w kernel \<Rightarrow> 'w kernel option" where
  "rest_of_pass dev (Poll_Status, k) = kmain_iteration dev k"
| "rest_of_pass dev (Poll_Data, k) = Option.bind (loop_step dev (Poll_Data, k)) (\<lambda>s. kmain_iteration dev (snd s))"
| "rest_of_pass dev (Shell_Get, k) = do {
     (kb, sh, con) \<leftarrow> eX_Shell_Update (k_keyboard k) (k_shell k, k_console k);
     Some (k\<lparr>k_keyboard := kb, k_shell := sh, k_console := con\<rparr>)
   }"
| "rest_of_pass dev (Pass_End, k) = Some k"

lemma rest_of_pass_step:
  assumes "fst s \<noteq> Pass_End"
  shows "rest_of_pass dev s = Option.bind (loop_step dev s) (rest_of_pass dev)"
proof (cases s)
  case (Pair p k)
  show ?thesis
  proof (cases p)
    case Poll_Status
    then show ?thesis
      unfolding Pair by (simp add: kmain_iteration_def eX_Keyboard_Poll.simps [of dev "k_world k"] Let_def
          split: prod.split)
  next
    case Poll_Data
    then show ?thesis unfolding Pair by (auto simp: bind_eq_Some_conv split: prod.split bind_split)
  next
    case Shell_Get
    then show ?thesis
      unfolding Pair by (simp add: eX_Shell_Update.simps [of "k_keyboard k"] Let_def split: prod.split bind_split)
  next
    case Pass_End
    then show ?thesis using assms Pair by simp
  qed
qed

lemma pass_steps_rest: "pass_steps dev s t \<Longrightarrow> rest_of_pass dev s = rest_of_pass dev t"
  by (induction rule: pass_steps.induct) (simp_all add: rest_of_pass_step)

text \<open>The loops of the code as sequences of small steps.\<close>

lemma eX_Keyboard_Poll_pass_steps:
  assumes "eX_Keyboard_Poll dev w kb = Some r"
  shows "pass_steps dev (Poll_Status, k\<lparr>k_world := w, k_keyboard := kb\<rparr>)
    (Shell_Get, k\<lparr>k_world := fst r, k_keyboard := snd r\<rparr>)"
proof (rule eX_Keyboard_Poll.raw_induct [where P = "\<lambda>dev w kb r. pass_steps dev
      (Poll_Status, k\<lparr>k_world := w, k_keyboard := kb\<rparr>) (Shell_Get, k\<lparr>k_world := fst r, k_keyboard := snd r\<rparr>)", OF _ assms])
  fix poll :: "'a devices \<Rightarrow> 'a \<Rightarrow> keyboard \<Rightarrow> ('a \<times> keyboard) option" and dev w kb r
  assume IH: "\<And>dev w kb r. poll dev w kb = Some r \<Longrightarrow> pass_steps dev
      (Poll_Status, k\<lparr>k_world := w, k_keyboard := kb\<rparr>) (Shell_Get, k\<lparr>k_world := fst r, k_keyboard := snd r\<rparr>)"
    and body: "(let (status, w1) = eX_Keyboard_Inb dev eX_KEYBOARD_STATUS_PORT w in
      if status AND eX_KBC_STATUS_OUTPUT_FULL \<noteq> 0 then let (scancode, w2) = eX_Keyboard_Inb dev eX_KEYBOARD_DATA_PORT w1 in
        Option.bind (eX_Keyboard_HandleScancode scancode kb) (poll dev w2)
      else Some (w1, kb)) = Some r"
  obtain st w1 where st: "eX_Keyboard_Inb dev eX_KEYBOARD_STATUS_PORT w = (st, w1)" by fastforce
  show "pass_steps dev (Poll_Status, k\<lparr>k_world := w, k_keyboard := kb\<rparr>)
      (Shell_Get, k\<lparr>k_world := fst r, k_keyboard := snd r\<rparr>)"
  proof (cases "st AND eX_KBC_STATUS_OUTPUT_FULL = 0")
    case True
    then show ?thesis using body st by (intro pass_steps_one) auto
  next
    case False
    obtain b w2 where b: "eX_Keyboard_Inb dev eX_KEYBOARD_DATA_PORT w1 = (b, w2)" by fastforce
    obtain kb1 where kb1: "eX_Keyboard_HandleScancode b kb = Some kb1" "poll dev w2 kb1 = Some r"
      using body st b False by (auto simp: bind_eq_Some_conv)
    have "pass_steps dev (Poll_Data, k\<lparr>k_world := w1, k_keyboard := kb\<rparr>)
        (Poll_Status, k\<lparr>k_world := w2, k_keyboard := kb1\<rparr>)"
      using b kb1(1) by (intro pass_steps_one) simp_all
    then have "pass_steps dev (Poll_Data, k\<lparr>k_world := w1, k_keyboard := kb\<rparr>)
        (Shell_Get, k\<lparr>k_world := fst r, k_keyboard := snd r\<rparr>)"
      using IH [OF kb1(2)] by (rule pass_steps_trans)
    then show ?thesis using st False by (intro pass_steps.step [of "(Poll_Status, _)"]) simp_all
  qed
qed

lemma eX_Shell_Update_pass_steps:
  assumes "eX_Shell_Update kb s = Some r"
  shows "pass_steps dev (Shell_Get, k\<lparr>k_keyboard := kb, k_shell := fst s, k_console := snd s\<rparr>)
    (Pass_End, k\<lparr>k_keyboard := fst r, k_shell := fst (snd r), k_console := snd (snd r)\<rparr>)"
proof (rule eX_Shell_Update.raw_induct [where P = "\<lambda>kb s r. pass_steps dev
      (Shell_Get, k\<lparr>k_keyboard := kb, k_shell := fst s, k_console := snd s\<rparr>)
      (Pass_End, k\<lparr>k_keyboard := fst r, k_shell := fst (snd r), k_console := snd (snd r)\<rparr>)", OF _ assms])
  fix update :: "keyboard \<Rightarrow> shell \<times> console \<Rightarrow> (keyboard \<times> shell \<times> console) option" and kb s r
  assume IH: "\<And>kb s r. update kb s = Some r \<Longrightarrow> pass_steps dev
      (Shell_Get, k\<lparr>k_keyboard := kb, k_shell := fst s, k_console := snd s\<rparr>)
      (Pass_End, k\<lparr>k_keyboard := fst r, k_shell := fst (snd r), k_console := snd (snd r)\<rparr>)"
    and body: "Option.bind (eX_Keyboard_GetChar kb) (\<lambda>(c, k').
      if c = - 1 then Some (k', s) else Option.bind (eX_Shell_key c s) (update k')) = Some r"
  obtain c kb1 where get: "eX_Keyboard_GetChar kb = Some (c, kb1)" using body by (auto simp: bind_eq_Some_conv)
  show "pass_steps dev (Shell_Get, k\<lparr>k_keyboard := kb, k_shell := fst s, k_console := snd s\<rparr>)
      (Pass_End, k\<lparr>k_keyboard := fst r, k_shell := fst (snd r), k_console := snd (snd r)\<rparr>)"
  proof (cases "c = - 1")
    case True
    then show ?thesis using body get by (intro pass_steps_one) auto
  next
    case False
    then obtain s1 where s1: "eX_Shell_key c s = Some s1" "update kb1 s1 = Some r"
      using body get by (auto simp: bind_eq_Some_conv)
    have "loop_step dev (Shell_Get, k\<lparr>k_keyboard := kb, k_shell := fst s, k_console := snd s\<rparr>) =
        Some (Shell_Get, k\<lparr>k_keyboard := kb1, k_shell := fst s1, k_console := snd s1\<rparr>)"
      using get s1(1) False by (cases s1) simp
    then show ?thesis using IH [OF s1(2)] by (intro pass_steps.step [of "(Shell_Get, _)"]) simp_all
  qed
qed

lemma kmain_iteration_pass_steps:
  "kmain_iteration dev k = Some k' \<longleftrightarrow> pass_steps dev (Poll_Status, k) (Pass_End, k')"
proof
  assume "pass_steps dev (Poll_Status, k) (Pass_End, k')"
  from pass_steps_rest [OF this] show "kmain_iteration dev k = Some k'" by simp
next
  assume "kmain_iteration dev k = Some k'"
  then obtain w kb kb' sh con where poll: "eX_Keyboard_Poll dev (k_world k) (k_keyboard k) = Some (w, kb)"
      and upd: "eX_Shell_Update kb (k_shell k, k_console k) = Some (kb', sh, con)"
      and k': "k' = k\<lparr>k_world := w, k_keyboard := kb', k_shell := sh, k_console := con\<rparr>"
    by (auto simp: kmain_iteration_def bind_eq_Some_conv)
  let ?k1 = "k\<lparr>k_world := w, k_keyboard := kb\<rparr>"
  have "pass_steps dev (Poll_Status, k) (Shell_Get, ?k1)"
    using eX_Keyboard_Poll_pass_steps [OF poll, of k] by simp
  moreover have "pass_steps dev (Shell_Get, ?k1) (Pass_End, k')"
    using eX_Shell_Update_pass_steps [OF upd, of dev ?k1] by (simp add: k')
  ultimately show "pass_steps dev (Poll_Status, k) (Pass_End, k')" by (rule pass_steps_trans)
qed

section \<open>Runs with interrupts and arriving bytes\<close>

text \<open>
  What a step is seen as from outside: bytes arrive at the controller, a timer interrupt is handled,
  the driver takes a scancode, with a flag that tells whether the character it types is lost because
  the ring buffer is full, the shell takes a character, or nothing of these.
\<close>

datatype event = Arrive "u8 list" | Tick | Scan u8 bool | Take u8 | Quiet

fun loop_event :: "'w devices \<Rightarrow> loop_point \<times> 'w kernel \<Rightarrow> event" where
  "loop_event dev (Poll_Data, k) =
     (let b = fst (dev_inb dev eX_KEYBOARD_DATA_PORT (k_world k))
      in Scan b (typed_by (k_keyboard k) [b] \<noteq> [] \<and> length (kb_pending (k_keyboard k)) = 127))"
| "loop_event dev (Shell_Get, k) =
     (case kb_pending (k_keyboard k) of [] \<Rightarrow> Quiet | c # _ \<Rightarrow> Take c)"
| "loop_event dev (p, k) = Quiet"

text \<open>
  The controller that receives bytes raises no interrupt here; \<open>Eyax_Cpu\<close> shows that one would find no gate.
\<close>

inductive kernel_step ::
  "'w devices \<Rightarrow> ('w \<Rightarrow> u8 list) \<Rightarrow> symbols \<Rightarrow> loop_point \<times> 'w kernel \<Rightarrow> event \<Rightarrow> loop_point \<times> 'w kernel \<Rightarrow> bool"
  for dev q syms where
  code: "loop_step dev s = Some s' \<Longrightarrow> kernel_step dev q syms s (loop_event dev s) s'"
| tick: "reg_if (k_cpu k) \<Longrightarrow> software_interrupt dev syms 0x20 k = Some (Running k') \<Longrightarrow>
    kernel_step dev q syms (p, k) Tick (p, k')"
| arrive: "q w = q (k_world k) @ bs \<Longrightarrow> kernel_step dev q syms (p, k) (Arrive bs) (p, k\<lparr>k_world := w\<rparr>)"

inductive_cases kernel_step_TickE: "kernel_step dev q syms s Tick s'"

inductive kernel_trace ::
  "'w devices \<Rightarrow> ('w \<Rightarrow> u8 list) \<Rightarrow> symbols \<Rightarrow> loop_point \<times> 'w kernel \<Rightarrow> event list \<Rightarrow> loop_point \<times> 'w kernel \<Rightarrow> bool"
  for dev q syms s0 where
  start: "kernel_trace dev q syms s0 [] s0"
| snoc: "kernel_trace dev q syms s0 tr s \<Longrightarrow> kernel_step dev q syms s e s' \<Longrightarrow> kernel_trace dev q syms s0 (tr @ [e]) s'"

text \<open>What a trace tells.\<close>

definition arrived :: "event list \<Rightarrow> u8 list" where
  "arrived tr = concat (map (\<lambda>e. case e of Arrive bs \<Rightarrow> bs | _ \<Rightarrow> []) tr)"

definition scanned :: "event list \<Rightarrow> u8 list" where
  "scanned tr = concat (map (\<lambda>e. case e of Scan b _ \<Rightarrow> [b] | _ \<Rightarrow> []) tr)"

definition taken :: "event list \<Rightarrow> u8 list" where
  "taken tr = concat (map (\<lambda>e. case e of Take c \<Rightarrow> [c] | _ \<Rightarrow> []) tr)"

definition lost :: "event list \<Rightarrow> nat" where
  "lost tr = length (filter (\<lambda>e. case e of Scan _ l \<Rightarrow> l | _ \<Rightarrow> False) tr)"

definition ticks :: "event list \<Rightarrow> nat" where
  "ticks tr = length (filter (\<lambda>e. e = Tick) tr)"

lemmas trace_defs = arrived_def scanned_def taken_def lost_def ticks_def

lemma trace_snoc [simp]:
  "arrived (tr @ [e]) = arrived tr @ (case e of Arrive bs \<Rightarrow> bs | _ \<Rightarrow> [])"
  "scanned (tr @ [e]) = scanned tr @ (case e of Scan b _ \<Rightarrow> [b] | _ \<Rightarrow> [])"
  "taken (tr @ [e]) = taken tr @ (case e of Take c \<Rightarrow> [c] | _ \<Rightarrow> [])"
  "lost (tr @ [e]) = lost tr + (case e of Scan _ l \<Rightarrow> if l then 1 else 0 | _ \<Rightarrow> 0)"
  "ticks (tr @ [e]) = ticks tr + (if e = Tick then 1 else 0)"
  "arrived [] = []" "scanned [] = []" "taken [] = []" "lost [] = 0" "ticks [] = 0"
  by (simp_all add: trace_defs split: event.split bool.split)

section \<open>The invariant of the runs\<close>

text \<open>
  Every byte that arrived has been scanned or still waits in the controller, and every character that
  the scanned bytes type has been taken by the shell, still waits in the ring, or is counted as lost.
\<close>

definition chars_inv :: "event list \<Rightarrow> keyboard \<Rightarrow> bool" where
  "chars_inv tr kb \<longleftrightarrow> kb_inv kb \<and>
     (\<forall>bs. typed False False False (scanned tr @ bs) = typed False False False (scanned tr) @ typed_by kb bs) \<and>
     subseq (taken tr @ kb_pending kb) (typed False False False (scanned tr)) \<and>
     length (typed False False False (scanned tr)) = length (taken tr) + length (kb_pending kb) + lost tr"

definition trace_inv :: "('w \<Rightarrow> u8 list) \<Rightarrow> symbols \<Rightarrow> console \<Rightarrow> u8 list \<Rightarrow> event list \<Rightarrow> loop_point \<times> 'w kernel \<Rightarrow> bool" where
  "trace_inv q syms con0 q0 tr = (\<lambda>(p, k). chars_inv tr (k_keyboard k) \<and> shell_inv (k_shell k) \<and>
     (shell_line (k_shell k), k_console k) = fold shell_step (taken tr) ([], con0) \<and>
     q0 @ arrived tr = scanned tr @ q (k_world k) \<and> (p = Poll_Data \<longrightarrow> q (k_world k) \<noteq> []) \<and>
     gate_target (k_tables k) 0x20 = Some (0x08, addr_TimerHandler syms) \<and> k_ticks k = of_nat (ticks tr + 1))"

lemma typed_by_one: "length (typed_by kb [b]) \<le> 1"
  by simp

lemma chars_inv_scan:
  assumes "chars_inv tr kb"
  obtains kb' where "eX_Keyboard_HandleScancode b kb = Some kb'"
    "chars_inv (tr @ [Scan b (typed_by kb [b] \<noteq> [] \<and> length (kb_pending kb) = 127)]) kb'"
proof -
  have inv: "kb_inv kb" and split: "\<And>bs. typed False False False (scanned tr @ bs) = typed False False False (scanned tr) @ typed_by kb bs"
    and sub: "subseq (taken tr @ kb_pending kb) (typed False False False (scanned tr))"
    and len: "length (typed False False False (scanned tr)) = length (taken tr) + length (kb_pending kb) + lost tr"
    using assms unfolding chars_inv_def by blast+
  obtain kb' where kb': "eX_Keyboard_HandleScancode b kb = Some kb'" "kb_inv kb'"
      "kb_pending kb' = take 127 (kb_pending kb @ typed_by kb [b])"
      "\<And>bs. typed_by kb (b # bs) = typed_by kb [b] @ typed_by kb' bs"
    using eX_Keyboard_HandleScancode_typed [OF inv] by blast
  let ?e = "Scan b (typed_by kb [b] \<noteq> [] \<and> length (kb_pending kb) = 127)" and ?new = "typed_by kb [b]"
  have new: "?new = [] \<or> (\<exists>c. ?new = [c])"
    using typed_by_one [of kb b] by (cases ?new) (auto simp del: typed.simps)
  have bound: "length (kb_pending kb) \<le> 127" using inv by (rule kb.pending_bound)
  have "typed False False False (scanned (tr @ [?e]) @ bs) = typed False False False (scanned (tr @ [?e])) @ typed_by kb' bs" for bs
    using split [of "b # bs"] split [of "[b]"] kb'(4) [of bs] by (simp del: typed.simps)
  moreover have "subseq ((taken tr @ kb_pending kb) @ take m ?new) (typed False False False (scanned tr) @ ?new)" for m
    using sub by (rule list_emb_append_mono) (rule prefix_imp_subseq [OF take_is_prefix])
  then have "subseq (taken (tr @ [?e]) @ kb_pending kb') (typed False False False (scanned (tr @ [?e])))"
    using bound unfolding kb'(3) by (simp add: split [of "[b]"] del: typed.simps)
  moreover have "length (typed False False False (scanned (tr @ [?e]))) =
      length (taken (tr @ [?e])) + length (kb_pending kb') + lost (tr @ [?e])"
    using len bound new unfolding kb'(3) by (auto simp: split [of "[b]"] min_def simp del: typed.simps)
  ultimately have "chars_inv (tr @ [?e]) kb'" using kb'(2) unfolding chars_inv_def by blast
  with kb'(1) show thesis by (rule that)
qed

lemma chars_inv_take:
  assumes "chars_inv tr kb" and "kb_pending kb = c # cs"
  obtains kb' where "eX_Keyboard_GetChar kb = Some (uint c, kb')" "chars_inv (tr @ [Take c]) kb'"
proof -
  obtain kb' where kb': "eX_Keyboard_GetChar kb = Some (uint c, kb')" "kb_pending kb' = cs" "kb_inv kb'"
    using kb.getc_next [of kb c cs] assms unfolding chars_inv_def by blast
  have "typed_by kb' = typed_by kb"
    using kb'(1) by (auto simp: eX_Keyboard_GetChar_def Let_def split: if_splits)
  then have "chars_inv (tr @ [Take c]) kb'" using assms kb'(2,3) by (simp add: chars_inv_def)
  with kb'(1) show thesis by (rule that)
qed

lemma chars_inv_quiet: "chars_inv (tr @ [Quiet]) kb \<longleftrightarrow> chars_inv tr kb"
  by (simp add: chars_inv_def)

text \<open>The code never gets stuck, and each of its steps keeps the invariant.\<close>

lemma trace_inv_code:
  assumes dev: "kbc_queue dev q" and inv: "trace_inv q syms con0 q0 tr (p, k)"
  shows "\<exists>s'. loop_step dev (p, k) = Some s' \<and> trace_inv q syms con0 q0 (tr @ [loop_event dev (p, k)]) s'"
proof (cases p)
  case Poll_Status
  obtain st w where st: "dev_inb dev 0x64 (k_world k) = (st, w)" by fastforce
  note status = kbc_queue_status [OF dev st]
  then show ?thesis
    using inv st unfolding Poll_Status by (simp add: trace_inv_def chars_inv_quiet eX_Keyboard_Inb_def Let_def)
next
  case Poll_Data
  then obtain b bs where q: "q (k_world k) = b # bs" using inv by (cases "q (k_world k)") (simp_all add: trace_inv_def)
  obtain w where w: "dev_inb dev 0x60 (k_world k) = (b, w)" "q w = bs" using kbc_queue_data [OF dev q] by blast
  have "chars_inv tr (k_keyboard k)" using inv by (simp add: trace_inv_def)
  then obtain kb where kb: "eX_Keyboard_HandleScancode b (k_keyboard k) = Some kb"
      "chars_inv (tr @ [Scan b (typed_by (k_keyboard k) [b] \<noteq> [] \<and> length (kb_pending (k_keyboard k)) = 127)]) kb"
    by (rule chars_inv_scan)
  then show ?thesis
    using inv q w unfolding Poll_Data by (simp add: trace_inv_def eX_Keyboard_Inb_def del: typed.simps)
next
  case Shell_Get
  have chars: "chars_inv tr (k_keyboard k)" and sh: "shell_inv (k_shell k)" using inv by (simp_all add: trace_inv_def)
  show ?thesis
  proof (cases "kb_pending (k_keyboard k)")
    case Nil
    then have "eX_Keyboard_GetChar (k_keyboard k) = Some (- 1, k_keyboard k)"
      using chars kb.getc_empty unfolding chars_inv_def by blast
    then show ?thesis using inv Nil unfolding Shell_Get by (simp add: trace_inv_def chars_inv_quiet)
  next
    case (Cons c cs)
    obtain kb where kb: "eX_Keyboard_GetChar (k_keyboard k) = Some (uint c, kb)" "chars_inv (tr @ [Take c]) kb"
      using chars Cons by (rule chars_inv_take)
    obtain sh con where key: "eX_Shell_key (uint c) (k_shell k, k_console k) = Some (sh, con)" "shell_inv sh"
        "(shell_line sh, con) = shell_step c (shell_line (k_shell k), k_console k)"
      using eX_Shell_key_refines [OF sh] by blast
    have "uint c \<noteq> - 1" using uint_ge_0 [of c] by linarith
    then show ?thesis using inv kb key Cons unfolding Shell_Get by (simp add: trace_inv_def)
  qed
next
  case Pass_End
  then show ?thesis using inv by (simp add: trace_inv_def chars_inv_quiet)
qed

lemma trace_inv_step:
  assumes dev: "kbc_queue dev q" and eoi: "\<And>w. q (dev_outb dev 0x20 0x20 w) = q w"
    and inv: "trace_inv q syms con0 q0 tr s" and "kernel_step dev q syms s e s'" and bound: "ticks tr + 1 < 2 ^ 64"
  shows "trace_inv q syms con0 q0 (tr @ [e]) s'"
  using assms(4)
proof cases
  case code
  obtain p k where "s = (p, k)" by fastforce
  then show ?thesis using trace_inv_code [OF dev, of syms con0 q0 tr p k] inv code by auto
next
  case (tick k k' p)
  have "k_ticks k \<noteq> 0" using inv tick(1) of_nat_ticks_nonzero [OF bound] by (simp add: trace_inv_def)
  then have "k' = k\<lparr>k_ticks := k_ticks k + 1, k_world := dev_outb dev 0x20 0x20 (k_world k)\<rparr>"
    using software_interrupt_timer [of k syms dev] inv tick unfolding trace_inv_def by simp
  then show ?thesis using inv tick eoi by (simp add: trace_inv_def chars_inv_def)
next
  case (arrive w k bs p)
  then show ?thesis using inv by (simp add: trace_inv_def chars_inv_def)
qed

lemma trace_inv_run:
  assumes dev: "kbc_queue dev q" and eoi: "\<And>w. q (dev_outb dev 0x20 0x20 w) = q w"
    and run: "kernel_trace dev q syms s0 tr s" and start: "trace_inv q syms con0 q0 [] s0" and bound: "ticks tr + 1 < 2 ^ 64"
  shows "trace_inv q syms con0 q0 tr s"
  using run bound
proof (induction rule: kernel_trace.induct)
  case (snoc tr s e s')
  have "ticks tr + 1 < 2 ^ 64" using snoc.prems by simp
  with snoc show ?case by (intro trace_inv_step [OF dev eoi])
qed (rule start)

lemma booted_trace_inv:
  assumes "booted boot fb es k"
  shows "trace_inv q (boot_symbols boot) (k_console k) (q (k_world k)) [] (Poll_Status, k)"
  using booted_loop_inv [OF assms] by (simp add: trace_inv_def chars_inv_def loop_inv_def del: length_kb_pending)

section \<open>Characters are lost only behind a full ring\<close>

text \<open>
  A character is lost only when the backlog of typed and not yet taken characters exceeds what the ring
  holds, and the first time it does so one is lost.
\<close>

lemma lost_scan:
  assumes "chars_inv tr (k_keyboard k)" and "loop_event dev (p, k) = Scan b True"
  shows "length (typed False False False (scanned (tr @ [Scan b True]))) > length (taken (tr @ [Scan b True])) + 127"
proof -
  have p: "p = Poll_Data" using assms(2) by (cases p) (simp_all split: list.splits)
  then have b: "typed_by (k_keyboard k) [b] \<noteq> []" "length (kb_pending (k_keyboard k)) = 127"
    using assms(2) by (auto simp: Let_def simp del: typed.simps length_kb_pending)
  have "length (typed False False False (scanned tr @ [b])) =
      length (taken tr) + length (kb_pending (k_keyboard k)) + lost tr + length (typed_by (k_keyboard k) [b])"
    using assms(1) unfolding chars_inv_def by (simp del: typed.simps length_kb_pending)
  then show ?thesis using b by (simp del: typed.simps length_kb_pending)
qed

text \<open>At every moment at most a full ring of typed characters waits to be taken.\<close>

definition keeps_up :: "event list \<Rightarrow> bool" where
  "keeps_up tr \<longleftrightarrow> (\<forall>us \<in> set (prefixes tr). length (typed False False False (scanned us)) \<le> length (taken us) + 127)"

lemma keeps_up_snoc:
  "keeps_up (tr @ [e]) \<longleftrightarrow> keeps_up tr \<and>
     length (typed False False False (scanned (tr @ [e]))) \<le> length (taken (tr @ [e])) + 127"
  by (auto simp: keeps_up_def prefix_snoc simp del: trace_snoc)

lemma lost_iff_backlog:
  assumes dev: "kbc_queue dev q" and eoi: "\<And>w. q (dev_outb dev 0x20 0x20 w) = q w"
    and run: "kernel_trace dev q syms s0 tr s" and start: "trace_inv q syms con0 q0 [] s0" and bound: "ticks tr + 1 < 2 ^ 64"
  shows "lost tr = 0 \<longleftrightarrow> keeps_up tr"
  using run bound
proof (induction rule: kernel_trace.induct)
  case start
  then show ?case by (simp add: keeps_up_def)
next
  case (snoc tr s e s')
  have ticks: "ticks tr + 1 < 2 ^ 64" using snoc.prems by simp
  have IH: "lost tr = 0 \<longleftrightarrow> keeps_up tr" by (rule snoc.IH [OF ticks])
  have inv: "trace_inv q syms con0 q0 tr s" by (rule trace_inv_run [OF dev eoi snoc.hyps(1) start ticks])
  have inv': "trace_inv q syms con0 q0 (tr @ [e]) s'" by (rule trace_inv_step [OF dev eoi inv snoc.hyps(2) ticks])
  obtain p k p' k' where s: "s = (p, k)" "s' = (p', k')" by fastforce
  have chars: "chars_inv tr (k_keyboard k)" "chars_inv (tr @ [e]) (k_keyboard k')"
    using inv inv' unfolding s by (simp_all add: trace_inv_def)
  have len: "length (typed False False False (scanned (tr @ [e]))) =
      length (taken (tr @ [e])) + length (kb_pending (k_keyboard k')) + lost (tr @ [e])"
    using chars(2) unfolding chars_inv_def by blast
  have room: "length (kb_pending (k_keyboard k')) \<le> 127"
    using chars(2) kb.pending_bound unfolding chars_inv_def by blast
  show ?case
  proof (cases "\<exists>b. e = Scan b True")
    case True
    then obtain b where e: "e = Scan b True" by blast
    have "loop_event dev (p, k) = Scan b True"
      using snoc.hyps(2) unfolding s e by (cases rule: kernel_step.cases) simp_all
    then have "\<not> keeps_up (tr @ [e])" using lost_scan [OF chars(1)] unfolding e keeps_up_snoc by fastforce
    then show ?thesis by (simp add: e)
  next
    case False
    then have "lost (tr @ [e]) = lost tr" by (auto split: event.split)
    then show ?thesis using IH len room by (auto simp: keeps_up_snoc simp del: trace_snoc)
  qed
qed

section \<open>Everything typed is handled in time\<close>

text \<open>
  Nothing waits at the end of a pass; and how many steps of the code it takes at most to get there
  when no more bytes arrive: three for a waiting byte, one for a waiting character, and the rest of a
  pass that may have missed the byte.
\<close>

definition drained :: "('w \<Rightarrow> u8 list) \<Rightarrow> loop_point \<times> 'w kernel \<Rightarrow> bool" where
  "drained q = (\<lambda>(p, k). p = Pass_End \<and> q (k_world k) = [] \<and> kb_pending (k_keyboard k) = [])"

definition work_left :: "('w \<Rightarrow> u8 list) \<Rightarrow> loop_point \<times> 'w kernel \<Rightarrow> nat" where
  "work_left q = (\<lambda>(p, k). let n = length (q (k_world k)); m = length (kb_pending (k_keyboard k)) in
     (case p of
        Poll_Data \<Rightarrow> 3 * n + m + 1
      | Poll_Status \<Rightarrow> 3 * n + m + 2
      | Shell_Get \<Rightarrow> if n = 0 then m + 1 else 3 * n + m + 4
      | Pass_End \<Rightarrow> if n = 0 \<and> m = 0 then 0 else 3 * n + m + 3))"

lemma work_left_bound: "work_left q (p, k) \<le> 3 * length (q (k_world k)) + length (kb_pending (k_keyboard k)) + 4"
  by (simp add: work_left_def Let_def del: length_kb_pending split: loop_point.split)

lemma work_left_0: "work_left q s = 0 \<longleftrightarrow> drained q s"
  by (cases s) (auto simp: work_left_def drained_def Let_def simp del: length_kb_pending split: loop_point.split)

lemma work_left_code:
  assumes dev: "kbc_queue dev q" and inv: "trace_inv q syms con0 q0 tr (p, k)" and "loop_step dev (p, k) = Some s'"
    and "\<not> drained q (p, k)"
  shows "work_left q s' < work_left q (p, k)"
proof (cases p)
  case Poll_Status
  obtain st w where st: "dev_inb dev 0x64 (k_world k) = (st, w)" by fastforce
  note status = kbc_queue_status [OF dev st]
  then show ?thesis
    using assms(3) st unfolding Poll_Status
    by (auto simp: work_left_def eX_Keyboard_Inb_def Let_def split: if_splits)
next
  case Poll_Data
  then obtain b bs where q: "q (k_world k) = b # bs" using inv by (cases "q (k_world k)") (simp_all add: trace_inv_def)
  obtain w where w: "dev_inb dev 0x60 (k_world k) = (b, w)" "q w = bs" using kbc_queue_data [OF dev q] by blast
  have "kb_inv (k_keyboard k)" using inv by (simp add: trace_inv_def chars_inv_def)
  then obtain kb where kb: "eX_Keyboard_HandleScancode b (k_keyboard k) = Some kb"
      "kb_pending kb = take 127 (kb_pending (k_keyboard k) @ typed_by (k_keyboard k) [b])"
    using eX_Keyboard_HandleScancode_typed by blast
  have "length (kb_pending kb) \<le> length (kb_pending (k_keyboard k)) + 1"
    unfolding kb(2) using typed_by_one [of "k_keyboard k" b] by (simp del: typed.simps)
  then show ?thesis
    using assms(3) q w kb(1) unfolding Poll_Data
    by (auto simp: work_left_def eX_Keyboard_Inb_def Let_def simp del: length_kb_pending)
next
  case Shell_Get
  have inv': "kb_inv (k_keyboard k)" "shell_inv (k_shell k)" using inv by (simp_all add: trace_inv_def chars_inv_def)
  show ?thesis
  proof (cases "kb_pending (k_keyboard k)")
    case Nil
    then have "eX_Keyboard_GetChar (k_keyboard k) = Some (- 1, k_keyboard k)" using inv' kb.getc_empty by blast
    then show ?thesis
      using assms(3) Nil unfolding Shell_Get by (auto simp: work_left_def Let_def simp del: length_kb_pending)
  next
    case (Cons c cs)
    obtain kb where kb: "eX_Keyboard_GetChar (k_keyboard k) = Some (uint c, kb)" "kb_pending kb = cs"
      using kb.getc_next [OF inv'(1) Cons] by blast
    have "uint c \<noteq> - 1" using uint_ge_0 [of c] by linarith
    moreover obtain sh con where "eX_Shell_key (uint c) (k_shell k, k_console k) = Some (sh, con)"
      using eX_Shell_key_refines [OF inv'(2)] by blast
    ultimately have "s' = (Shell_Get, k\<lparr>k_keyboard := kb, k_shell := sh, k_console := con\<rparr>)"
      using assms(3) kb unfolding Shell_Get by simp
    then show ?thesis
      using kb(2) Cons unfolding Shell_Get by (simp add: work_left_def Let_def del: length_kb_pending)
  qed
next
  case Pass_End
  then show ?thesis
    using assms(3,4) by (auto simp: work_left_def drained_def Let_def simp del: length_kb_pending)
qed

text \<open>The number of steps of the code in a trace in which no bytes arrive.\<close>

definition code_steps :: "event list \<Rightarrow> nat" where
  "code_steps tr = length (filter (\<lambda>e. e \<noteq> Tick) tr)"

definition is_arrival :: "event \<Rightarrow> bool" where
  "is_arrival e = (case e of Arrive _ \<Rightarrow> True | _ \<Rightarrow> False)"

lemma loop_event_code: "loop_event dev s \<noteq> Tick" "\<not> is_arrival (loop_event dev s)"
  by (cases "(dev, s)" rule: loop_event.cases; simp add: is_arrival_def Let_def split: list.split)+

lemma work_left_step:
  assumes dev: "kbc_queue dev q" and eoi: "\<And>w. q (dev_outb dev 0x20 0x20 w) = q w"
    and inv: "trace_inv q syms con0 q0 tr s" and "kernel_step dev q syms s e s'" and bound: "ticks tr + 1 < 2 ^ 64"
    and "\<not> is_arrival e" and "\<not> drained q s"
  shows "work_left q s' + code_steps [e] \<le> work_left q s"
  using assms(4)
proof cases
  case code
  obtain p k where "s = (p, k)" by fastforce
  then show ?thesis
    using work_left_code [OF dev, of syms con0 q0 tr p k s'] inv code assms(7) by (simp add: code_steps_def Suc_le_eq)
next
  case (tick k k' p)
  have "k_ticks k \<noteq> 0" using inv tick(1) of_nat_ticks_nonzero [OF bound] by (simp add: trace_inv_def)
  then have "k' = k\<lparr>k_ticks := k_ticks k + 1, k_world := dev_outb dev 0x20 0x20 (k_world k)\<rparr>"
    using software_interrupt_timer [of k syms dev] inv tick unfolding trace_inv_def by simp
  then show ?thesis using tick eoi by (simp add: code_steps_def work_left_def)
next
  case (arrive w k bs p)
  then show ?thesis using assms(6) by (simp add: is_arrival_def)
qed

lemma work_left_run:
  assumes dev: "kbc_queue dev q" and eoi: "\<And>w. q (dev_outb dev 0x20 0x20 w) = q w"
    and inv: "trace_inv q syms con0 q0 tr s" and run: "kernel_trace dev q syms s tr' s'"
    and "ticks (tr @ tr') + 1 < 2 ^ 64" and "\<not> list_ex is_arrival tr'"
  shows "trace_inv q syms con0 q0 (tr @ tr') s' \<and>
    ((\<exists>us vs s''. tr' = us @ vs \<and> kernel_trace dev q syms s us s'' \<and> drained q s'') \<or>
     work_left q s' + code_steps tr' \<le> work_left q s)"
  using run assms(5,6)
proof (induction rule: kernel_trace.induct)
  case start
  then show ?case using inv by (simp add: code_steps_def)
next
  case (snoc tr' t e s')
  have ticks: "ticks (tr @ tr') + 1 < 2 ^ 64" using snoc.prems(1) by (simp flip: append_assoc)
  have IH: "trace_inv q syms con0 q0 (tr @ tr') t"
      "(\<exists>us vs s''. tr' = us @ vs \<and> kernel_trace dev q syms s us s'' \<and> drained q s'') \<or>
       work_left q t + code_steps tr' \<le> work_left q s"
    using snoc.IH [OF ticks] snoc.prems(2) by auto
  have "trace_inv q syms con0 q0 ((tr @ tr') @ [e]) s'"
    using trace_inv_step [OF dev eoi IH(1) snoc.hyps(2) ticks] .
  moreover have "(\<exists>us vs s''. tr' @ [e] = us @ vs \<and> kernel_trace dev q syms s us s'' \<and> drained q s'') \<or>
      work_left q s' + code_steps (tr' @ [e]) \<le> work_left q s"
  proof (cases "drained q t")
    case True
    then show ?thesis using snoc.hyps(1) by blast
  next
    case False
    have "work_left q s' + code_steps [e] \<le> work_left q t"
      using work_left_step [OF dev eoi IH(1) snoc.hyps(2) ticks _ False] snoc.prems(2) by simp
    moreover have "code_steps (tr' @ [e]) = code_steps tr' + code_steps [e]" by (simp add: code_steps_def)
    ultimately show ?thesis using IH(2) by (auto, metis append_assoc)
  qed
  ultimately show ?case by simp
qed

lemma kernel_trace_append:
  assumes "kernel_trace dev q syms s0 tr s" and "kernel_trace dev q syms s tr' s'"
  shows "kernel_trace dev q syms s0 (tr @ tr') s'"
  using assms(2)
proof (induction rule: kernel_trace.induct)
  case (snoc tr' t e s')
  then show ?case using kernel_trace.snoc [of dev q syms s0 "tr @ tr'" t e s'] by simp
qed (simp add: assms(1))

lemma no_arrival: "\<not> list_ex is_arrival tr \<Longrightarrow> arrived tr = []"
  by (induction tr) (auto simp: arrived_def is_arrival_def split: event.splits)

lemma ticks_append [simp]: "ticks (tr @ tr') = ticks tr + ticks tr'"
  by (simp add: ticks_def)

lemma ticks_one [simp]: "ticks [e] = (if e = Tick then 1 else 0)"
  by (simp add: ticks_def)

lemma arrived_append [simp]: "arrived (tr @ tr') = arrived tr @ arrived tr'"
  by (simp add: arrived_def)

text \<open>The passes of the loop are runs without interrupts.\<close>

lemma pass_steps_trace:
  assumes "pass_steps dev s t"
  shows "\<exists>tr. kernel_trace dev q syms s tr t \<and> ticks tr = 0 \<and> arrived tr = []"
  using assms
proof (induction rule: pass_steps.induct)
  case (refl s)
  then show ?case using kernel_trace.start by fastforce
next
  case (step s s' s'')
  then obtain tr where tr: "kernel_trace dev q syms s' tr s''" "ticks tr = 0" "arrived tr = []" by blast
  have "kernel_trace dev q syms s ([] @ [loop_event dev s]) s'"
    by (rule kernel_trace.snoc [OF kernel_trace.start kernel_step.code]) (rule step.hyps)
  note run = kernel_trace_append [OF this tr(1)]
  have "ticks [loop_event dev s] = 0" "arrived [loop_event dev s] = []"
    using loop_event_code [of dev s] no_arrival [of "[loop_event dev s]"] by (simp_all add: ticks_def)
  then have "ticks (([] @ [loop_event dev s]) @ tr) = 0" "arrived (([] @ [loop_event dev s]) @ tr) = []"
    using tr(2,3) by (simp_all only: ticks_append arrived_append append_Nil add_0_right)
  with run show ?case by blast
qed

text \<open>The code can always go on, for any number of steps.\<close>

lemma code_run_exists:
  assumes dev: "kbc_queue dev q" and inv: "trace_inv q syms con0 q0 tr s"
  shows "\<exists>tr' s'. kernel_trace dev q syms s tr' s' \<and> code_steps tr' = n \<and> ticks tr' = 0 \<and> \<not> list_ex is_arrival tr' \<and>
    trace_inv q syms con0 q0 (tr @ tr') s'"
proof (induction n)
  case 0
  then show ?case using kernel_trace.start inv by (intro exI [of _ "[]"]) (fastforce simp: code_steps_def)
next
  case (Suc n)
  then obtain tr' p k where run: "kernel_trace dev q syms s tr' (p, k)" "code_steps tr' = n" "ticks tr' = 0"
      "\<not> list_ex is_arrival tr'" "trace_inv q syms con0 q0 (tr @ tr') (p, k)" by auto
  obtain s' where s': "loop_step dev (p, k) = Some s'"
      "trace_inv q syms con0 q0 ((tr @ tr') @ [loop_event dev (p, k)]) s'"
    using trace_inv_code [OF dev run(5)] by blast
  have "kernel_trace dev q syms s (tr' @ [loop_event dev (p, k)]) s'"
    by (rule kernel_trace.snoc [OF run(1) kernel_step.code [OF s'(1)]])
  moreover have "code_steps (tr' @ [loop_event dev (p, k)]) = Suc n" "ticks (tr' @ [loop_event dev (p, k)]) = 0"
      "\<not> list_ex is_arrival (tr' @ [loop_event dev (p, k)])"
    using run(2-4) loop_event_code [of dev "(p, k)"] by (simp_all add: code_steps_def)
  ultimately show ?case using s'(2) by (intro exI [of _ "tr' @ [loop_event dev (p, k)]"] exI [of _ s']) simp
qed

lemma drained_run:
  assumes dev: "kbc_queue dev q" and eoi: "\<And>w. q (dev_outb dev 0x20 0x20 w) = q w"
    and inv: "trace_inv q syms con0 q0 tr s" and run: "kernel_trace dev q syms s tr' s'"
    and bound: "ticks (tr @ tr') + 1 < 2 ^ 64" and quiet: "\<not> list_ex is_arrival tr'" and steps: "work_left q s \<le> code_steps tr'"
  obtains us vs k where "tr' = us @ vs" "kernel_trace dev q syms s us (Pass_End, k)" "q (k_world k) = []"
    "kb_pending (k_keyboard k) = []" "trace_inv q syms con0 q0 (tr @ us) (Pass_End, k)"
proof -
  have "\<exists>us vs s''. tr' = us @ vs \<and> kernel_trace dev q syms s us s'' \<and> drained q s''"
  proof (rule ccontr)
    assume no: "\<not> ?thesis"
    then have "work_left q s' + code_steps tr' \<le> work_left q s"
      using work_left_run [OF dev eoi inv run bound quiet] by blast
    then have "work_left q s' = 0" using steps by linarith
    then show False using no run work_left_0 by (metis append_Nil2)
  qed
  then obtain us vs s'' where us: "tr' = us @ vs" "kernel_trace dev q syms s us s''" "drained q s''" by blast
  have "ticks (tr @ us) + 1 < 2 ^ 64" "\<not> list_ex is_arrival us" using bound quiet by (simp_all add: us(1))
  then have "trace_inv q syms con0 q0 (tr @ us) s''" using work_left_run [OF dev eoi inv us(2)] by blast
  then show thesis using that us by (cases s'') (auto simp: drained_def)
qed

end
