(* ===== verification/Eyax_Screen.thy ===== *)
theory Eyax_Screen
  imports Eyax_Shell
begin

text \<open>
  The framebuffer as a screen of text. A text screen is a grid of characters with a cursor; the
  pixel operations of the console implement its operations as long as the text stays inside of the
  grid, so that what the shell leaves on the screen can be computed with characters alone.
\<close>

section \<open>Views of the console\<close>

fun put_all :: "(u8 \<Rightarrow> 't \<Rightarrow> 't option) \<Rightarrow> u8 list \<Rightarrow> 't \<Rightarrow> 't option" where
  "put_all put [] t = Some t"
| "put_all put (c # s) t = Option.bind (put c t) (put_all put s)"

lemma put_all_append [simp]: "put_all put (s @ s') t = Option.bind (put_all put s t) (put_all put s')"
  by (induction s arbitrary: t) (auto split: bind_split)

text \<open>The line editor of the shell on any view of the screen.\<close>

definition view_step :: "(u8 \<Rightarrow> 't \<Rightarrow> 't option) \<Rightarrow> 't \<Rightarrow> ('t \<Rightarrow> 't option) \<Rightarrow> u8 \<Rightarrow> u8 list \<times> 't \<Rightarrow> (u8 list \<times> 't) option" where
  "view_step put cleared erase c = (\<lambda>(line, t).
     if c = 10 then do {
       t \<leftarrow> put 10 t;
       t \<leftarrow> (if line = bytes_of ''clear'' then Some cleared else put_all put (reply line) t);
       t \<leftarrow> put_all put shell_prompt t;
       Some ([], t)
     }
     else if c = 8 then (if line = [] then Some (line, t) else do { t \<leftarrow> erase t; Some (butlast line, t) })
     else if 32 \<le> c \<and> c \<le> 126 \<and> length line < 127 then do { t \<leftarrow> put c t; Some (line @ [c], t) }
     else Some (line, t))"

text \<open>
  What a view of the console promises: its operations follow those of the console. The lemmas carry
  this over to the line editor of the shell.
\<close>

locale console_view =
  fixes view :: "console \<Rightarrow> 't \<Rightarrow> bool" and put :: "u8 \<Rightarrow> 't \<Rightarrow> 't option" and erase :: "'t \<Rightarrow> 't option"
    and cleared :: 't
  assumes view_put: "view con t \<Longrightarrow> put c t = Some t' \<Longrightarrow> view (eX_PrintChar c con) t'"
    and view_erase: "view con t \<Longrightarrow> erase t = Some t' \<Longrightarrow> view (eX_Backspace con) t'"
    and view_clear: "view con t \<Longrightarrow> view (eX_Clear con) cleared"
begin

lemma view_put_all: "view con t \<Longrightarrow> put_all put s t = Some t' \<Longrightarrow> view (fold eX_PrintChar s con) t'"
  by (induction s arbitrary: con t) (auto simp: bind_eq_Some_conv dest: view_put)

lemma view_shell_step:
  assumes "view con t" and "view_step put cleared erase c (line, t) = Some (line', t')"
  shows "\<exists>con'. shell_step c (line, con) = (line', con') \<and> view con' t'"
proof -
  consider "c = 10" | "c = 8" | "c \<noteq> 10" "c \<noteq> 8" by blast
  then show ?thesis
  proof cases
    case 1
    then obtain t1 t2 where t: "put 10 t = Some t1"
        "(if line = bytes_of ''clear'' then Some cleared else put_all put (reply line) t1) = Some t2"
        "put_all put shell_prompt t2 = Some t'" "line' = []"
      using assms(2) by (auto simp: view_step_def bind_eq_Some_conv)
    have "view (eX_PrintChar 10 con) t1" using assms(1) t(1) by (rule view_put)
    then have "view (run_command line (eX_PrintChar 10 con)) t2"
      using t(2) view_put_all view_clear by (auto simp: run_command_def split: if_splits)
    then have "view (fold eX_PrintChar shell_prompt (run_command line (eX_PrintChar 10 con))) t'"
      using t(3) by (rule view_put_all)
    then show ?thesis using 1 t(4) by (simp add: shell_step_def)
  next
    case 2
    then show ?thesis
      using assms view_erase by (auto simp: view_step_def shell_step_def bind_eq_Some_conv split: if_splits)
  next
    case 3
    then show ?thesis
      using assms view_put by (auto simp: view_step_def shell_step_def bind_eq_Some_conv split: if_splits)
  qed
qed

lemma view_shell_steps:
  assumes "view con t" and "put_all (view_step put cleared erase) cs (line, t) = Some (line', t')"
  shows "\<exists>con'. fold shell_step cs (line, con) = (line', con') \<and> view con' t'"
  using assms
proof (induction cs arbitrary: line con t)
  case (Cons c cs)
  then obtain line1 t1 where one: "view_step put cleared erase c (line, t) = Some (line1, t1)"
      "put_all (view_step put cleared erase) cs (line1, t1) = Some (line', t')"
    by (auto simp: bind_eq_Some_conv)
  obtain con1 where "shell_step c (line, con) = (line1, con1)" "view con1 t1"
    using view_shell_step [OF Cons.prems(1) one(1)] by blast
  then show ?case using Cons.IH [OF _ one(2)] by simp
qed simp

end

section \<open>The text screen\<close>

text \<open>
  Cells are addressed by column and row. A cell whose contents are not known to be a character has
  no entry.
\<close>

record text_screen =
  text_cell :: "nat \<times> nat \<Rightarrow> u8 option"
  text_col :: nat
  text_row :: nat
  text_cols :: nat
  text_rows :: nat

text \<open>Printing outside of the grid has no result.\<close>

definition text_put :: "u8 \<Rightarrow> text_screen \<Rightarrow> text_screen option" where
  "text_put c t =
     (if text_row t < text_rows t then
        if c = 10 then Some (t\<lparr>text_col := 0, text_row := text_row t + 1\<rparr>)
        else if printable c \<and> text_col t < text_cols t then
          Some (t\<lparr>text_cell := (text_cell t)((text_col t, text_row t) \<mapsto> c), text_col := text_col t + 1\<rparr>)
        else None
      else None)"

definition text_backspace :: "text_screen \<Rightarrow> text_screen option" where
  "text_backspace t =
     (if text_col t = 0 then Some t
      else if text_row t < text_rows t \<and> text_col t \<le> text_cols t then
        Some (t\<lparr>text_cell := (text_cell t)((text_col t - 1, text_row t) \<mapsto> chr CHR '' ''), text_col := text_col t - 1\<rparr>)
      else None)"

definition text_blank :: "nat \<Rightarrow> nat \<Rightarrow> text_screen" where
  "text_blank cols rows = \<lparr>text_cell = (\<lambda>(x, y). if x < cols \<and> y < rows then Some (chr CHR '' '') else None),
     text_col = 0, text_row = 0, text_cols = cols, text_rows = rows\<rparr>"

text \<open>The cells of a framebuffer, and a framebuffer of which only the cursor is known.\<close>

definition screen_cols :: "console \<Rightarrow> nat" where
  "screen_cols con = unat (fb_width (Framebuffer con)) div 8"

definition screen_rows :: "console \<Rightarrow> nat" where
  "screen_rows con = unat (fb_height (Framebuffer con)) div 8"

definition text_unknown :: "console \<Rightarrow> text_screen" where
  "text_unknown con = \<lparr>text_cell = Map.empty, text_col = unat (CursorX con), text_row = unat (CursorY con),
     text_cols = screen_cols con, text_rows = screen_rows con\<rparr>"

definition shows_text :: "nat \<Rightarrow> nat \<Rightarrow> console \<Rightarrow> text_screen \<Rightarrow> bool" where
  "shows_text cols rows con t \<longleftrightarrow> screen_ok con \<and> screen_cols con = cols \<and> screen_rows con = rows \<and>
     text_cols t = cols \<and> text_rows t = rows \<and>
     unat (CursorX con) = text_col t \<and> unat (CursorY con) = text_row t \<and>
     (\<forall>x y c. text_cell t (x, y) = Some c \<longrightarrow> x < cols \<and> y < rows \<and> shows_char con x y c)"

text \<open>
  The whole video memory as a view of the text: \<open>paints unknown base con t\<close> says what every cell of it holds,
  for a console that began as \<open>base\<close>. A pixel of the screen belongs to a character of \<open>t\<close>, or is of a
  colour that is \<open>unknown\<close>; what is not on the screen, gaps between the rows included, is as in \<open>base\<close>.
\<close>

definition on_screen :: "console \<Rightarrow> u64 \<Rightarrow> bool" where
  "on_screen con i \<longleftrightarrow> unat i mod stride con < unat (fb_width (Framebuffer con)) \<and>
     unat i div stride con < unat (fb_height (Framebuffer con))"

definition text_pixel :: "(u32 \<Rightarrow> bool) \<Rightarrow> console \<Rightarrow> text_screen \<Rightarrow> u64 \<Rightarrow> u32 \<Rightarrow> bool" where
  "text_pixel unknown base t i v \<longleftrightarrow>
     (if on_screen base i then
        (case text_cell t (unat i mod stride base div 8, unat i div stride base div 8) of
           Some c \<Rightarrow> v = glyph_color base c (unat i div stride base mod 8) (unat i mod stride base mod 8)
         | None \<Rightarrow> unknown v)
      else v = vram base i)"

definition paints :: "(u32 \<Rightarrow> bool) \<Rightarrow> console \<Rightarrow> console \<Rightarrow> text_screen \<Rightarrow> bool" where
  "paints unknown base con t \<longleftrightarrow> screen_ok base \<and> Framebuffer con = Framebuffer base \<and>
     Foreground con = Foreground base \<and> Background con = Background base \<and> unknown (Background base) \<and>
     text_cols t = screen_cols base \<and> text_rows t = screen_rows base \<and>
     unat (CursorX con) = text_col t \<and> unat (CursorY con) = text_row t \<and>
     (\<forall>x y c. text_cell t (x, y) = Some c \<longrightarrow> x < screen_cols base \<and> y < screen_rows base) \<and>
     (\<forall>i. text_pixel unknown base t i (vram con i))"

text \<open>With background colour wherever there is no character, the text determines the video memory.\<close>

definition render :: "console \<Rightarrow> text_screen \<Rightarrow> u64 \<Rightarrow> u32" where
  "render base t i =
     (if on_screen base i then
        (case text_cell t (unat i mod stride base div 8, unat i div stride base div 8) of
           Some c \<Rightarrow> glyph_color base c (unat i div stride base mod 8) (unat i mod stride base mod 8)
         | None \<Rightarrow> Background base)
      else vram base i)"

lemma paints_render: "paints (\<lambda>v. v = Background base) base con t \<Longrightarrow> vram con = render base t"
proof
  fix i
  assume "paints (\<lambda>v. v = Background base) base con t"
  then have "text_pixel (\<lambda>v. v = Background base) base t i (vram con i)" by (simp add: paints_def)
  then show "vram con i = render base t i" by (simp add: text_pixel_def render_def split: if_splits option.splits)
qed

lemma paints_outside: "paints unknown base con t \<Longrightarrow> \<not> on_screen base i \<Longrightarrow> vram con i = vram base i"
  by (auto simp: paints_def text_pixel_def)

section \<open>The console implements the text screen\<close>

lemma screen_cell_fits:
  assumes "screen_ok con" and "x < screen_cols con" and "y < screen_rows con"
  shows "text_row_fits con (x + 1) y"
proof -
  have "8 * (x + 1) \<le> unat (fb_width (Framebuffer con))" using assms(2) by (simp add: screen_cols_def)
  then have "8 * (x + 1) \<le> stride con" using assms(1) unfolding screen_ok_def by linarith
  moreover have "8 * (y + 1) \<le> unat (fb_height (Framebuffer con))" using assms(3) by (simp add: screen_rows_def)
  then have "8 * (y + 1) * stride con \<le> unat (fb_height (Framebuffer con)) * stride con" by (rule mult_le_mono1)
  then have "8 * (y + 1) * stride con \<le> 2 ^ 64" using assms(1) unfolding screen_ok_def by linarith
  ultimately show ?thesis by (simp add: text_row_fits_def)
qed

lemma screen_ok_cong: "Framebuffer con' = Framebuffer con \<Longrightarrow> screen_ok con' = screen_ok con \<and>
    screen_cols con' = screen_cols con \<and> screen_rows con' = screen_rows con"
  by (simp add: screen_ok_def screen_cols_def screen_rows_def stride_def)

lemma eX_Backspace_config [simp]:
  "Framebuffer (eX_Backspace con) = Framebuffer con" "Foreground (eX_Backspace con) = Foreground con"
  "Background (eX_Backspace con) = Background con"
  by (simp_all add: eX_Backspace_def Let_def)

text \<open>Every cell of the video memory is a pixel, and its coordinates tell the character cell.\<close>

lemma vram_pixel: "vram con i = pixel con (unat i mod stride con) (unat i div stride con)"
  by (simp add: pixel_def)

lemma vram_eX_DrawChar:
  assumes fits: "cell_fits con (unat x) (unat y)" and c: "c < 128" and xy: "unat x = 8 * a" "unat y = 8 * b"
  shows "vram (eX_DrawChar c x y con) i =
    (if unat i mod stride con div 8 = a \<and> unat i div stride con div 8 = b
     then glyph_color con c (unat i div stride con mod 8) (unat i mod stride con mod 8) else vram con i)"
proof -
  let ?X = "unat i mod stride con" and ?Y = "unat i div stride con"
  have "0 < stride con" using fits by (simp add: cell_fits_def)
  then have "?X < stride con" "?Y * stride con + ?X < 2 ^ 64" using unat_lt64 [of i] by (simp_all del: unat_lt64)
  note px = pixel_eX_DrawChar [OF fits c this]
  have "?X \<in> {8 * a..<8 * a + 8} \<longleftrightarrow> ?X div 8 = a" "?Y \<in> {8 * b..<8 * b + 8} \<longleftrightarrow> ?Y div 8 = b" by auto
  moreover have "?X - 8 * a = ?X mod 8" if "?X div 8 = a" using that by (simp add: minus_mult_div_eq_mod [symmetric])
  moreover have "?Y - 8 * b = ?Y mod 8" if "?Y div 8 = b" using that by (simp add: minus_mult_div_eq_mod [symmetric])
  ultimately show ?thesis
    using px unfolding xy vram_pixel [of "eX_DrawChar c x y con"] vram_pixel [of con] by simp
qed

text \<open>A cell is written, every other cell of the video memory stays as it is.\<close>

lemma paints_update:
  assumes t: "paints unknown base con t" and config: "Framebuffer con' = Framebuffer con"
      "Foreground con' = Foreground con" "Background con' = Background con"
    and cursor: "unat (CursorX con') = text_col t'" "unat (CursorY con') = text_row t'"
    and size: "text_cols t' = text_cols t" "text_rows t' = text_rows t"
    and cell: "text_cell t' = (text_cell t)((a, b) \<mapsto> c)" "a < text_cols t" "b < text_rows t"
    and vram: "\<And>i. vram con' i = (if unat i mod stride con div 8 = a \<and> unat i div stride con div 8 = b
      then glyph_color con c (unat i div stride con mod 8) (unat i mod stride con mod 8) else vram con i)"
  shows "paints unknown base con' t'"
proof -
  have "stride con = stride base" "glyph_color con c = glyph_color base c"
    using t by (simp_all add: paints_def stride_def glyph_color_def fun_eq_iff)
  note vram = vram [unfolded this]
  have "text_pixel unknown base t' i (vram con' i)" for i
  proof (cases "unat i mod stride base div 8 = a \<and> unat i div stride base div 8 = b")
    case True
    have "a < unat (fb_width (Framebuffer base)) div 8" "b < unat (fb_height (Framebuffer base)) div 8"
      using t cell(2,3) by (simp_all add: paints_def screen_cols_def screen_rows_def)
    then have "on_screen base i" using True unfolding on_screen_def by auto
    then show ?thesis using True by (simp add: text_pixel_def cell(1) vram)
  next
    case False
    then have "text_pixel unknown base t' i v \<longleftrightarrow> text_pixel unknown base t i v" for v by (auto simp: text_pixel_def cell(1))
    moreover have "vram con' i = vram con i" unfolding vram by (rule if_not_P [OF False])
    ultimately show ?thesis using t by (simp add: paints_def)
  qed
  then show ?thesis using t config cursor size cell by (auto simp: paints_def split: if_splits)
qed

lemma paints_fits:
  assumes "paints unknown base con t" and "x < text_cols t" and "y < text_rows t"
  shows "text_row_fits con (x + 1) y"
  using assms screen_ok_cong [of con base] by (intro screen_cell_fits) (simp_all add: paints_def)

lemma paints_put:
  assumes t: "paints unknown base con t" and put: "text_put c t = Some t'"
  shows "paints unknown base (eX_PrintChar c con) t'"
proof (cases "c = 10")
  case True
  have y: "unat (CursorY con) < screen_rows base" using t put by (simp add: paints_def text_put_def split: if_splits)
  then have "unat (CursorY con) + 1 < 2 ^ 64"
    using unat_lt64 [of "fb_height (Framebuffer base)"] by (simp add: screen_rows_def del: unat_lt64)
  then have "unat (CursorY con + 1) = unat (CursorY con) + 1" by (simp add: unat_add_no_wrap)
  moreover have "eX_PrintChar 10 con = con\<lparr>CursorX := 0, CursorY := CursorY con + 1\<rparr>" by (simp add: eX_PrintChar_def)
  moreover have "t' = t\<lparr>text_col := 0, text_row := text_row t + 1\<rparr>" using put True by (simp add: text_put_def split: if_splits)
  ultimately show ?thesis using t True by (simp add: paints_def text_pixel_def)
next
  case False
  then have c: "printable c" "unat (CursorX con) < text_cols t" "unat (CursorY con) < text_rows t"
    and t': "t' = t\<lparr>text_cell := (text_cell t)((text_col t, text_row t) \<mapsto> c), text_col := text_col t + 1\<rparr>"
    and cur: "unat (CursorX con) = text_col t" "unat (CursorY con) = text_row t"
    using t put by (auto simp: paints_def text_put_def split: if_splits)
  have fit: "text_row_fits con (unat (CursorX con) + 1) (unat (CursorY con))" by (rule paints_fits [OF t c(2,3)])
  note at = cursor_cell_fits [OF fit] and one = eX_PrintChar_cells(3,4) [OF c(1) fit]
  have "c < 128" using c(1) by simp
  note vram = vram_eX_DrawChar [OF at(3) this at(1,2), unfolded cur]
  show ?thesis
    by (rule paints_update [OF t, where a = "text_col t" and b = "text_row t" and c = c])
      (use c cur one vram in \<open>simp_all add: t' eX_PrintChar_def Let_def\<close>)
qed

lemma paints_backspace:
  assumes t: "paints unknown base con t" and erase: "text_backspace t = Some t'"
  shows "paints unknown base (eX_Backspace con) t'"
proof (cases "CursorX con = 0")
  case True
  then have "eX_Backspace con = con" "t' = t"
    using t erase by (simp_all add: eX_Backspace_def paints_def text_backspace_def)
  then show ?thesis using t by simp
next
  case False
  then have "unat (CursorX con) \<noteq> 0" using unat_gt_0 [of "CursorX con"] by simp
  then have x: "text_col t \<noteq> 0" "unat (CursorX con) = text_col t" "unat (CursorY con) = text_row t"
    using t unfolding paints_def by simp_all
  then have lt: "text_col t - 1 < text_cols t" "text_row t < text_rows t"
    and t': "t' = t\<lparr>text_cell := (text_cell t)((text_col t - 1, text_row t) \<mapsto> chr CHR '' ''), text_col := text_col t - 1\<rparr>"
    using erase by (auto simp: text_backspace_def split: if_splits)
  let ?con = "con\<lparr>CursorX := CursorX con - 1\<rparr>"
  have cur: "unat (CursorX ?con) = text_col t - 1" "unat (CursorY ?con) = text_row t"
    using x False by (simp_all add: unat_minus_one)
  have "text_row_fits con (text_col t - 1 + 1) (text_row t)" by (rule paints_fits [OF t lt])
  then have "text_row_fits ?con (unat (CursorX ?con) + 1) (unat (CursorY ?con))" unfolding cur by (simp add: text_row_fits_def)
  note at = cursor_cell_fits [OF this]
  have "chr CHR '' '' < 128" by simp
  note vram = vram_eX_DrawChar [OF at(3) this at(1,2), unfolded cur]
  have "eX_Backspace con = eX_DrawChar (chr CHR '' '') (CursorX ?con * eX_CharWidth) (CursorY ?con * eX_CharHeight) ?con"
    using False by (simp add: eX_Backspace_def Let_def)
  then show ?thesis
    by (intro paints_update [OF t, where a = "text_col t - 1" and b = "text_row t" and c = "chr CHR '' ''"])
      (use lt cur x vram in \<open>simp_all add: t' glyph_color_def\<close>)
qed

lemma glyph_color_space:
  assumes "row < 8"
  shows "glyph_color con 32 row col = Background con"
proof -
  have "eX_Font 32 = replicate 8 0" by code_simp
  then show ?thesis using assms by (simp add: glyph_color_def)
qed

lemma vram_eX_Clear:
  assumes ok: "screen_ok con"
  shows "vram (eX_Clear con) i = (if on_screen con i then Background con else vram con i)"
proof (cases "stride con = 0")
  case True
  then have "fb_width (Framebuffer con) = 0" using ok by (simp add: screen_ok_def unat_eq_zero)
  then show ?thesis by (simp add: eX_Clear_override screen_indices_def on_screen_def)
next
  case False
  let ?X = "unat i mod stride con" and ?Y = "unat i div stride con"
  have "?X < stride con" "?Y * stride con + ?X < 2 ^ 64" using False unat_lt64 [of i] by (simp_all del: unat_lt64)
  from pixel_eX_Clear [OF ok this] show ?thesis
    unfolding vram_pixel [of "eX_Clear con"] vram_pixel [of con] by (simp add: on_screen_def)
qed

lemma paints_clear:
  assumes t: "paints unknown base con t"
  shows "paints unknown base (eX_Clear con) (text_blank (screen_cols base) (screen_rows base))"
proof -
  have ok: "screen_ok con" and screen: "on_screen con = on_screen base" and bg: "Background con = Background base"
    using t screen_ok_cong [of con base] by (simp_all add: paints_def on_screen_def fun_eq_iff stride_def)
  have "text_pixel unknown base (text_blank (screen_cols base) (screen_rows base)) i (vram (eX_Clear con) i)" for i
    using t by (simp add: vram_eX_Clear [OF ok] screen bg text_pixel_def text_blank_def glyph_color_space paints_outside)
      (simp add: paints_def)
  then show ?thesis using t by (simp add: paints_def text_blank_def)
qed

text \<open>The pixels of the console are a view of it as text, for every size of the screen.\<close>

interpretation ps: console_view "paints unknown base" text_put text_backspace
  "text_blank (screen_cols base) (screen_rows base)" for unknown base
  by unfold_locales (rule paints_put paints_backspace paints_clear, assumption+)+

text \<open>Painting a text shows its characters, and a console that shows characters paints them.\<close>

lemma shown_pixel:
  assumes ok: "screen_ok con" and cell: "x < screen_cols con" "y < screen_rows con" and rc: "row < 8" "col < 8"
  defines "i \<equiv> word_of_nat ((8 * y + row) * stride con + (8 * x + col)) :: u64"
  shows "unat i mod stride con = 8 * x + col" and "unat i div stride con = 8 * y + row" and "on_screen con i"
proof -
  have X: "8 * x + col < unat (fb_width (Framebuffer con))" and Y: "8 * y + row < unat (fb_height (Framebuffer con))"
    using cell rc by (auto simp: screen_cols_def screen_rows_def)
  have S: "8 * x + col < stride con" using X ok by (simp add: screen_ok_def)
  have "Suc (8 * y + row) * stride con \<le> unat (fb_height (Framebuffer con)) * stride con"
    using Y by (intro mult_le_mono1) simp
  then have "(8 * y + row) * stride con + (8 * x + col) < 2 ^ 64" using S ok by (simp add: screen_ok_def)
  then have i: "unat i = (8 * y + row) * stride con + (8 * x + col)" unfolding i_def by (rule unat_of_nat64)
  have "(8 * y + row) * stride con div stride con = 8 * y + row" using S by simp
  then show "unat i mod stride con = 8 * x + col" "unat i div stride con = 8 * y + row"
    unfolding i using S by (simp_all add: div_mult1_eq)
  then show "on_screen con i" using X Y by (simp add: on_screen_def)
qed

lemma paints_shows:
  assumes t: "paints unknown base con t"
  shows "shows_text (screen_cols base) (screen_rows base) con t"
proof -
  have ok: "screen_ok con" "screen_cols con = screen_cols base" "screen_rows con = screen_rows base"
      "stride con = stride base" "glyph_color con = glyph_color base" "on_screen con = on_screen base"
    using t screen_ok_cong [of con base] by (simp_all add: paints_def stride_def glyph_color_def on_screen_def fun_eq_iff)
  have "shows_char con x y c" if "text_cell t (x, y) = Some c" for x y c
    unfolding shows_char_def
  proof (intro allI impI)
    fix row col :: nat
    assume rc: "row < 8" "col < 8"
    let ?i = "word_of_nat ((8 * y + row) * stride con + (8 * x + col)) :: u64"
    have "x < screen_cols con" "y < screen_rows con" using t that ok(2,3) unfolding paints_def by auto
    note at = shown_pixel [OF ok(1) this rc]
    have "text_pixel unknown base t ?i (vram con ?i)" using t by (simp add: paints_def)
    then show "pixel con (8 * x + col) (8 * y + row) = glyph_color con c row col"
      using at that rc ok(4-6) by (simp add: text_pixel_def pixel_def del: of_nat_add of_nat_mult)
  qed
  then show ?thesis using t ok(1-3) by (simp add: shows_text_def paints_def)
qed

lemma shows_paints:
  assumes t: "shows_text cols rows con t"
  shows "paints (\<lambda>_. True) con con t"
proof -
  have "text_pixel (\<lambda>_. True) con t i (vram con i)" for i
  proof -
    let ?x = "unat i mod stride con" and ?y = "unat i div stride con"
    have "vram con i = glyph_color con c (?y mod 8) (?x mod 8)" if "text_cell t (?x div 8, ?y div 8) = Some c" for c
    proof -
      have "shows_char con (?x div 8) (?y div 8) c" using t that by (simp add: shows_text_def)
      then have "?y mod 8 < 8 \<Longrightarrow> ?x mod 8 < 8 \<Longrightarrow>
          pixel con (8 * (?x div 8) + ?x mod 8) (8 * (?y div 8) + ?y mod 8) = glyph_color con c (?y mod 8) (?x mod 8)"
        unfolding shows_char_def by blast
      then show ?thesis by (simp add: vram_pixel [of con i])
    qed
    then show ?thesis by (auto simp: text_pixel_def split: option.split)
  qed
  then show ?thesis using t by (auto simp: paints_def shows_text_def)
qed

text \<open>A cleared screen is known in every cell.\<close>

lemma paints_cleared:
  "screen_ok con \<Longrightarrow> unknown (Background con) \<Longrightarrow>
     paints unknown con (eX_Clear con) (text_blank (screen_cols con) (screen_rows con))"
  by (simp add: paints_def vram_eX_Clear text_pixel_def text_blank_def glyph_color_space)

section \<open>Text that fits\<close>

text \<open>
  On a grid with room, printing never leaves it: a text without line breaks needs its length in
  columns, the line editor 144 columns, for the answer to an unknown command of full length, and at
  most six rows for each character.
\<close>

definition text_size :: "text_screen \<Rightarrow> nat \<times> nat" where
  "text_size t = (text_cols t, text_rows t)"

lemma put_all_text:
  assumes "\<forall>c \<in> set s. printable c" and "text_col t + length s \<le> text_cols t" and "text_row t < text_rows t"
  shows "\<exists>t'. put_all text_put s t = Some t' \<and> text_col t' = text_col t + length s \<and> text_row t' = text_row t \<and>
    text_size t' = text_size t"
  using assms
proof (induction s arbitrary: t)
  case (Cons c s)
  define t1 where "t1 = t\<lparr>text_cell := (text_cell t)((text_col t, text_row t) \<mapsto> c), text_col := text_col t + 1\<rparr>"
  have "text_put c t = Some t1" using Cons.prems by (simp add: text_put_def t1_def)
  moreover have "\<exists>t'. put_all text_put s t1 = Some t' \<and> text_col t' = text_col t1 + length s \<and>
      text_row t' = text_row t1 \<and> text_size t' = text_size t1"
    using Cons.prems by (intro Cons.IH) (simp_all add: t1_def)
  ultimately show ?case by (auto simp: t1_def text_size_def)
qed (simp add: text_size_def)

text \<open>A text of lines, each of them ended by a line break.\<close>

lemma put_all_lines:
  assumes "\<forall>l \<in> set ls. (\<forall>c \<in> set l. printable c) \<and> length l \<le> text_cols t" and "text_row t + length ls \<le> text_rows t"
    and "text_col t = 0"
  shows "\<exists>t'. put_all text_put (concat (map (\<lambda>l. l @ [10]) ls)) t = Some t' \<and> text_col t' = 0 \<and>
    text_row t' = text_row t + length ls \<and> text_size t' = text_size t"
  using assms
proof (induction ls arbitrary: t)
  case (Cons l ls)
  obtain t1 where t1: "put_all text_put l t = Some t1" "text_row t1 = text_row t" "text_size t1 = text_size t"
    using put_all_text [of l t] Cons.prems by auto
  define t2 where "t2 = t1\<lparr>text_col := 0, text_row := text_row t1 + 1\<rparr>"
  have t2: "text_put 10 t1 = Some t2" "text_size t2 = text_size t"
    using t1(2,3) Cons.prems(2) by (simp_all add: text_put_def t2_def text_size_def)
  have "\<exists>t'. put_all text_put (concat (map (\<lambda>l. l @ [10]) ls)) t2 = Some t' \<and> text_col t' = 0 \<and>
      text_row t' = text_row t2 + length ls \<and> text_size t' = text_size t2"
    using Cons.prems t2(2) by (intro Cons.IH) (auto simp: t2_def text_size_def t1(2))
  then show ?case using t1(1) t2 by (auto simp: t2_def t1(2))
qed (simp add: text_size_def)

definition reply_lines_of :: "u8 list \<Rightarrow> u8 list list" where
  "reply_lines_of line =
     (if line = [] then []
      else if line = bytes_of ''help'' then map bytes_of [''Available commands:'', ''  help'', ''  clear'', ''  echo'', ''  version'']
      else if line = bytes_of ''version'' then [bytes_of ''eyaX kernel beta 0.1'']
      else [bytes_of ''Unknown command: '' @ line])"

lemma reply_as_lines: "reply line = concat (map (\<lambda>l. l @ [10]) (reply_lines_of line))"
  by (simp add: reply_def reply_lines_of_def shell_help_def)

lemma reply_lines_of_fit:
  assumes "list_all (\<lambda>c. 32 \<le> c \<and> c \<le> 126) line" and "length line \<le> 127"
  shows "length (reply_lines_of line) \<le> 5" and "l \<in> set (reply_lines_of line) \<Longrightarrow> (\<forall>c \<in> set l. printable c) \<and> length l \<le> 144"
proof -
  show "length (reply_lines_of line) \<le> 5" by (simp add: reply_lines_of_def)
  have "\<forall>c \<in> set line. printable c"
    using assms(1) by (fastforce simp: list_all_iff word_le_nat_alt word_less_nat_alt)
  then show "l \<in> set (reply_lines_of line) \<Longrightarrow> (\<forall>c \<in> set l. printable c) \<and> length l \<le> 144"
    using assms(2) by (auto simp: reply_lines_of_def bytes_of_def split: if_splits)
qed

text \<open>The prompt and the line stand in the row of the cursor.\<close>

definition editing :: "u8 list \<times> text_screen \<Rightarrow> bool" where
  "editing = (\<lambda>(line, t). line_ok line \<and> text_col t = 6 + length line \<and> text_row t < text_rows t)"

lemma text_prompt_fits:
  assumes "text_col t = 0" and "144 \<le> text_cols t" and "text_row t < text_rows t"
  shows "\<exists>t'. put_all text_put shell_prompt t = Some t' \<and> editing ([], t') \<and> text_row t' = text_row t \<and>
    text_size t' = text_size t"
proof -
  have "\<exists>t'. put_all text_put shell_prompt t = Some t' \<and> text_col t' = text_col t + length shell_prompt \<and>
      text_row t' = text_row t \<and> text_size t' = text_size t"
    using assms by (intro put_all_text shell_prompt_facts(2)) (simp_all add: shell_prompt_facts(1))
  then show ?thesis using assms by (auto simp: editing_def line_ok_def shell_prompt_facts(1) text_size_def)
qed

lemma view_step_newline_fits:
  assumes "editing (line, t)" and "144 \<le> text_cols t" and "text_row t + 6 < text_rows t"
  shows "\<exists>t'. view_step text_put (text_blank (text_cols t) (text_rows t)) text_backspace 10 (line, t) = Some ([], t') \<and>
    editing ([], t') \<and> text_row t' \<le> text_row t + 6 \<and> text_size t' = text_size t"
proof -
  let ?blank = "text_blank (text_cols t) (text_rows t)"
  define t1 where "t1 = t\<lparr>text_col := 0, text_row := text_row t + 1\<rparr>"
  have t1: "text_put 10 t = Some t1" "text_size t1 = text_size t" "text_row t1 = text_row t + 1" "text_col t1 = 0"
    using assms(3) by (simp_all add: text_put_def t1_def text_size_def)
  have line: "list_all (\<lambda>c. 32 \<le> c \<and> c \<le> 126) line" "length line \<le> 127"
    using assms(1) by (simp_all add: editing_def line_ok_def)
  have "\<exists>t2. (if line = bytes_of ''clear'' then Some ?blank else put_all text_put (reply line) t1) = Some t2 \<and>
      text_col t2 = 0 \<and> text_row t2 \<le> text_row t + 6 \<and> text_size t2 = text_size t"
  proof (cases "line = bytes_of ''clear''")
    case True
    then show ?thesis by (simp add: text_blank_def text_size_def)
  next
    case False
    have "\<exists>t2. put_all text_put (reply line) t1 = Some t2 \<and> text_col t2 = 0 \<and>
        text_row t2 = text_row t1 + length (reply_lines_of line) \<and> text_size t2 = text_size t1"
      unfolding reply_as_lines using reply_lines_of_fit [OF line] assms(2,3) t1
      by (intro put_all_lines) (fastforce simp: text_size_def)+
    then show ?thesis using False t1 reply_lines_of_fit(1) [OF line] by auto
  qed
  then obtain t2 where t2: "(if line = bytes_of ''clear'' then Some ?blank else put_all text_put (reply line) t1) = Some t2"
      "text_col t2 = 0" "text_row t2 \<le> text_row t + 6" "text_size t2 = text_size t" by blast
  have "\<exists>t'. put_all text_put shell_prompt t2 = Some t' \<and> editing ([], t') \<and> text_row t' = text_row t2 \<and>
      text_size t' = text_size t2"
    using t2 assms(2,3) by (intro text_prompt_fits) (simp_all add: text_size_def)
  then show ?thesis using t1(1) t2 by (auto simp: view_step_def)
qed

lemma view_step_fits:
  assumes ed: "editing (line, t)" and "144 \<le> text_cols t" and "text_row t + 6 < text_rows t"
  shows "\<exists>line' t'. view_step text_put (text_blank (text_cols t) (text_rows t)) text_backspace c (line, t) = Some (line', t') \<and>
    editing (line', t') \<and> text_row t' \<le> text_row t + 6 \<and> text_size t' = text_size t"
proof -
  have line: "length line \<le> 127" "list_all (\<lambda>c. 32 \<le> c \<and> c \<le> 126) line" "text_col t = 6 + length line"
    using ed by (simp_all add: editing_def line_ok_def)
  consider "c = 10" | "c = 8" | "c \<noteq> 10" "c \<noteq> 8" by blast
  then show ?thesis
  proof cases
    case 1
    then show ?thesis using view_step_newline_fits [OF assms] by blast
  next
    case 2
    then show ?thesis
      using ed assms(2,3) line
      by (auto simp: view_step_def text_backspace_def editing_def line_ok_def text_size_def list_all_iff dest: in_set_butlastD)
  next
    case 3
    show ?thesis
    proof (cases "32 \<le> c \<and> c \<le> 126 \<and> length line < 127")
      case True
      then have "printable c" using 3 by (auto simp: word_le_nat_alt word_less_nat_alt)
      then show ?thesis
        using 3 True ed assms(2,3) line by (auto simp: view_step_def text_put_def editing_def line_ok_def text_size_def)
    next
      case False
      then show ?thesis using 3 ed by (auto simp: view_step_def)
    qed
  qed
qed

text \<open>A session of the line editor on a text screen.\<close>

definition text_session :: "u8 list \<Rightarrow> u8 list \<times> text_screen \<Rightarrow> (u8 list \<times> text_screen) option" where
  "text_session cs = (\<lambda>(line, t).
     put_all (view_step text_put (text_blank (text_cols t) (text_rows t)) text_backspace) cs (line, t))"

lemma text_session_fits:
  assumes "editing (line, t)" and "144 \<le> text_cols t" and "text_row t + 6 * length cs < text_rows t"
  shows "\<exists>line' t'. text_session cs (line, t) = Some (line', t') \<and> editing (line', t')"
  using assms
proof (induction cs arbitrary: line t)
  case (Cons c cs)
  obtain line1 t1 where one: "view_step text_put (text_blank (text_cols t) (text_rows t)) text_backspace c (line, t) =
      Some (line1, t1)" "editing (line1, t1)" "text_row t1 \<le> text_row t + 6" "text_size t1 = text_size t"
    using view_step_fits [OF Cons.prems(1,2), of c] Cons.prems(3) by auto
  have "\<exists>line' t'. text_session cs (line1, t1) = Some (line', t') \<and> editing (line', t')"
    using one Cons.prems(2,3) by (intro Cons.IH) (simp_all add: text_size_def)
  then show ?case using one by (simp add: text_size_def text_session_def)
qed (simp add: text_session_def)

lemma text_session_painted:
  assumes t: "paints unknown base con t" and run: "text_session cs (line, t) = Some (line', t')"
  shows "\<exists>con'. fold shell_step cs (line, con) = (line', con') \<and> paints unknown base con' t'"
proof -
  have "text_cols t = screen_cols base" "text_rows t = screen_rows base" using t by (simp_all add: paints_def)
  then show ?thesis using ps.view_shell_steps [OF t] run by (simp add: text_session_def)
qed

text \<open>In particular from any console that shows some text: nothing outside of its screen changes.\<close>

lemma text_session_shown:
  assumes t: "shows_text cols rows con t" and run: "text_session cs (line, t) = Some (line', t')"
  shows "\<exists>con'. fold shell_step cs (line, con) = (line', con') \<and> shows_text cols rows con' t' \<and>
    (\<forall>i. \<not> on_screen con i \<longrightarrow> vram con' i = vram con i)"
proof -
  have "screen_cols con = cols" "screen_rows con = rows" using t by (simp_all add: shows_text_def)
  then show ?thesis using text_session_painted [OF shows_paints [OF t] run] paints_shows paints_outside by metis
qed

text \<open>A console that shows prompt and line, as a text screen.\<close>

definition text_prompt :: "u8 list \<times> console \<Rightarrow> text_screen" where
  "text_prompt = (\<lambda>(line, con). (text_unknown con)\<lparr>text_cell := (\<lambda>(x, y).
     if y = unat (CursorY con) \<and> x < 6 + length line then Some ((shell_prompt @ line) ! x) else None),
     text_col := 6 + length line\<rparr>)"

lemma text_prompt_shown:
  assumes "shell_visible (line, con)" and "screen_ok con" and "line_ok line" and "6 + length line \<le> screen_cols con"
    and "unat (CursorY con) < screen_rows con"
  shows "shows_text (screen_cols con) (screen_rows con) con (text_prompt (line, con))" and "editing (line, text_prompt (line, con))"
  using assms by (auto simp: shows_text_def text_prompt_def text_unknown_def shell_visible_def editing_def split: if_splits)

section \<open>Properties\<close>

text \<open>
  C13: the whole screen is the text of the session. When the framebuffer shows a screen of characters,
  the line editor run on the characters alone tells, if it has a result, what is on it after
  \<^verbatim>\<open>eX_Shell_Update\<close>: every echoed character, answer and prompt in its cell, erased cells blank, and everything
  gone after the command clear; and no cell of the video memory outside of the screen has changed. It has
  a result whenever there are 144 columns and six rows for each pending character.
\<close>

theorem shell_screen_is_text:
  assumes "kb_inv kb" and "shell_inv sh" and t: "shows_text cols rows con t"
  shows "(\<forall>line t'. text_session (kb_pending kb) (shell_line sh, t) = Some (line, t') \<longrightarrow>
      (\<exists>kb' sh' con'. eX_Shell_Update kb (sh, con) = Some (kb', sh', con') \<and> shell_line sh' = line \<and>
        shows_text cols rows con' t' \<and> (\<forall>i. \<not> on_screen con i \<longrightarrow> vram con' i = vram con i))) \<and>
    (editing (shell_line sh, t) \<and> 144 \<le> cols \<and> text_row t + 6 * length (kb_pending kb) < rows \<longrightarrow>
      (\<exists>line t'. text_session (kb_pending kb) (shell_line sh, t) = Some (line, t') \<and> editing (line, t')))"
proof (intro conjI allI impI)
  fix line t'
  assume "text_session (kb_pending kb) (shell_line sh, t) = Some (line, t')"
  then obtain con' where "fold shell_step (kb_pending kb) (shell_line sh, con) = (line, con')" "shows_text cols rows con' t'"
      "\<forall>i. \<not> on_screen con i \<longrightarrow> vram con' i = vram con i"
    using text_session_shown [OF t] by blast
  moreover obtain kb' sh' con'' where "eX_Shell_Update kb (sh, con) = Some (kb', sh', con'')"
      "(shell_line sh', con'') = fold shell_step (kb_pending kb) (shell_line sh, con)"
    using eX_Shell_Update_refines [OF assms(1), of "(sh, con)"] assms(2) by (auto simp: shell_good_def shell_abs_def)
  ultimately show "\<exists>kb' sh' con'. eX_Shell_Update kb (sh, con) = Some (kb', sh', con') \<and> shell_line sh' = line \<and>
      shows_text cols rows con' t' \<and> (\<forall>i. \<not> on_screen con i \<longrightarrow> vram con' i = vram con i)" by auto
next
  assume "editing (shell_line sh, t) \<and> 144 \<le> cols \<and> text_row t + 6 * length (kb_pending kb) < rows"
  then show "\<exists>line t'. text_session (kb_pending kb) (shell_line sh, t) = Some (line, t') \<and> editing (line, t')"
    using t by (intro text_session_fits) (simp_all add: shows_text_def)
qed

text \<open>A ring that holds the keys of a session with a correction.\<close>

definition session_keys :: "u8 list" where
  "session_keys = bytes_of ''vee'' @ [8] @ bytes_of ''rsion'' @ [10]"

definition kb_session :: keyboard where
  "kb_session = kb_example\<lparr>KeyboardBuffer := session_keys @ replicate 118 0, KeyboardReadIndex := 0, KeyboardWriteIndex := 10\<rparr>"

lemma kb_session_facts: "kb_inv kb_session" "kb_pending kb_session = session_keys"
  by (simp_all add: kb_session_def session_keys_def kb_inv_def kb_pending_def kb_count_def bytes_of_def upt_rec)

definition text_line :: "text_screen \<Rightarrow> nat \<Rightarrow> nat \<Rightarrow> u8 option list" where
  "text_line t y n = map (\<lambda>x. text_cell t (x, y)) [0..<n]"

lemma session_text:
  "\<exists>t0 t. put_all text_put shell_prompt (text_blank 160 90) = Some t0 \<and> text_session session_keys ([], t0) = Some ([], t) \<and>
     text_line t 0 14 = map Some (bytes_of ''eyaX> version '') \<and> text_line t 1 20 = map Some (bytes_of ''eyaX kernel beta 0.1'') \<and>
     text_line t 2 7 = map Some (bytes_of ''eyaX>  '')"
proof -
  have "case put_all text_put shell_prompt (text_blank 160 90) of None \<Rightarrow> False
    | Some t0 \<Rightarrow> (case text_session session_keys ([], t0) of None \<Rightarrow> False
    | Some (line, t) \<Rightarrow> line = [] \<and> text_line t 0 14 = map Some (bytes_of ''eyaX> version '') \<and>
     text_line t 1 20 = map Some (bytes_of ''eyaX kernel beta 0.1'') \<and> text_line t 2 7 = map Some (bytes_of ''eyaX>  ''))"
    by code_simp
  then show ?thesis by (auto split: option.splits)
qed

theorem shell_screen_is_text_witness:
  "\<exists>con kb' sh' con'. eX_Shell_Update kb_session (shell_example, con) = Some (kb', sh', con') \<and> shell_line sh' = [] \<and>
     (\<forall>x < 20. shows_char con' x 1 (bytes_of ''eyaX kernel beta 0.1'' ! x))"
proof -
  let ?con = "eX_Clear wide_console"
  have wide: "screen_ok wide_console" "screen_cols wide_console = 160" "screen_rows wide_console = 90"
    by (simp_all add: screen_ok_def screen_cols_def screen_rows_def wide_console_def sample_console_def rgb_framebuffer_def stride_def)
  then have blank: "paints (\<lambda>_. True) wide_console ?con (text_blank 160 90)"
    using paints_cleared [of wide_console "\<lambda>_. True"] by simp
  obtain t0 t where t: "put_all text_put shell_prompt (text_blank 160 90) = Some t0"
      "text_session session_keys ([], t0) = Some ([], t)" "text_line t 1 20 = map Some (bytes_of ''eyaX kernel beta 0.1'')"
    using session_text by blast
  let ?con0 = "fold eX_PrintChar shell_prompt ?con"
  have "shows_text 160 90 ?con0 t0"
    using paints_shows [OF ps.view_put_all [OF blank]] t(1) wide by simp
  from shell_screen_is_text [OF kb_session_facts(1) shell_example_inv this] obtain kb' sh' con' where
    upd: "eX_Shell_Update kb_session (shell_example, ?con0) = Some (kb', sh', con')" "shell_line sh' = []" "shows_text 160 90 con' t"
    using t(2) unfolding kb_session_facts(2) shell_example_line by blast
  have "shows_char con' x 1 (bytes_of ''eyaX kernel beta 0.1'' ! x)" if "x < 20" for x
  proof -
    have "text_line t 1 20 ! x = text_cell t (x, 1)" using that by (simp add: text_line_def)
    moreover have "map Some (bytes_of ''eyaX kernel beta 0.1'') ! x = Some (bytes_of ''eyaX kernel beta 0.1'' ! x)"
      using that by (intro nth_map) (simp add: bytes_of_def)
    ultimately have "text_cell t (x, 1) = Some (bytes_of ''eyaX kernel beta 0.1'' ! x)" using t(3) by simp
    then show ?thesis using upd(3) by (simp add: shows_text_def)
  qed
  with upd show ?thesis by blast
qed

end
