(* ===== verification/Eyax_Log.thy ===== *)
theory Eyax_Log
  imports Eyax_Kernel Eyax_Screen
begin

text \<open>
  What \<^verbatim>\<open>kmain\<close> of \<^verbatim>\<open>src/main.c\<close> prints until its loop starts: the lines of the boot log as a function of
  the memory map, the registers and what the devices answer, and the proof that the console holds
  exactly these lines after the boot.
\<close>

section \<open>The lines of the boot log\<close>

abbreviation hex_text :: "u32 \<Rightarrow> u8 list" where
  "hex_text v \<equiv> number_text True 16 (unat v)"

abbreviation small_hex_text :: "u32 \<Rightarrow> u8 list" where
  "small_hex_text v \<equiv> number_text False 16 (unat v)"

abbreviation dec_text :: "u32 \<Rightarrow> u8 list" where
  "dec_text v \<equiv> number_text False 10 (unat v)"

definition unlines :: "u8 list list \<Rightarrow> u8 list" where
  "unlines ls = concat (map (\<lambda>l. l @ [10]) ls)"

lemma unlines_simps [simp]:
  "unlines [] = []" "unlines (l # ls) = l @ 10 # unlines ls" "unlines (ls @ ls') = unlines ls @ unlines ls'"
  by (simp_all add: unlines_def)

text \<open>
  What devices answer to a sequence of port accesses, and the accesses of the boot: the acknowledgement of
  the test interrupt, both interrupt controllers, the timer, its count twice and once more without the
  high byte, the mask, the request register, and status and mask for the keyboard.
\<close>

datatype port_access = Write u16 u8 | Read u16

fun answers :: "'w devices \<Rightarrow> port_access list \<Rightarrow> 'w \<Rightarrow> u8 list" where
  "answers dev [] w = []"
| "answers dev (Write port v # accesses) w = answers dev accesses (dev_outb dev port v w)"
| "answers dev (Read port # accesses) w =
     (let (b, w) = dev_inb dev port w in b # answers dev accesses w)"

definition boot_accesses :: "port_access list" where
  "boot_accesses = [Write 0x20 0x20,
     Write 0x20 0x11, Write 0xA0 0x11, Write 0x21 0x20, Write 0xA1 0x28, Write 0x21 0x04, Write 0xA1 0x02,
     Write 0x21 0x01, Write 0xA1 0x01, Write 0x21 0xFC, Write 0xA1 0xFF,
     Write 0x43 0x36, Write 0x40 0x9B, Write 0x40 0x2E,
     Write 0x43 0, Read 0x40, Read 0x40, Write 0x43 0, Read 0x40, Read 0x40, Write 0x43 0, Read 0x40, Read 0x21,
     Write 0x20 0x0A, Read 0x20, Read 0x64, Read 0x21]"

text \<open>The values among the answers; a count is read with its low byte first.\<close>

record boot_readings =
  read_count1 :: u16
  read_count2 :: u16
  read_mask :: u8
  read_pit :: u8
  read_irr :: u8
  read_status :: u8
  read_kbc_mask :: u8

definition readings_of :: "u8 list \<Rightarrow> boot_readings" where
  "readings_of bs = \<lparr>read_count1 = word_of_nat (256 * unat (bs ! 1) + unat (bs ! 0)),
     read_count2 = word_of_nat (256 * unat (bs ! 3) + unat (bs ! 2)), read_mask = bs ! 5, read_pit = bs ! 4,
     read_irr = bs ! 6, read_status = bs ! 7, read_kbc_mask = bs ! 8\<rparr>"

definition boot_answers :: "'w devices \<Rightarrow> 'w \<Rightarrow> boot_readings" where
  "boot_answers dev w = readings_of (answers dev boot_accesses w)"

definition log_gdt :: "u16 \<Rightarrow> u8 list list" where
  "log_gdt cs = [bytes_of ''Before GDT: CS = 0x'' @ hex_text (ucast cs), bytes_of ''After GDT: CS = 0x'' @ hex_text 8]"

definition log_entry :: "limine_memmap_entry \<Rightarrow> u8 list" where
  "log_entry e = bytes_of ''Type: '' @ dec_text (ucast (me_type e)) @ bytes_of ''  Base: 0x'' @ hex_text (ucast (me_base e)) @
     bytes_of ''  Length: 0x'' @ hex_text (ucast (me_length e))"

definition usable_bytes :: "limine_memmap_entry list \<Rightarrow> u64" where
  "usable_bytes es = sum_list (map me_length (filter (\<lambda>e. me_type e = LIMINE_MEMMAP_USABLE) es))"

definition log_memory :: "limine_memmap_entry list \<Rightarrow> u8 list list" where
  "log_memory es = [[], bytes_of ''Memory map:''] @ map log_entry es @
     [bytes_of ''Initializing the Physical Memory Manager... Success!'', bytes_of ''PMM: %lu free pages (%lu KiB)'',
      bytes_of ''Total usable memory: '' @ dec_text (ucast (usable_bytes es)) @ bytes_of '' bytes'']"

definition log_timers :: "u32 \<Rightarrow> boot_readings \<Rightarrow> u8 list list" where
  "log_timers pages r = [bytes_of ''IDT test returned.'', bytes_of ''PPA initialized. Free pages: '' @ dec_text pages,
     bytes_of ''PIT: '' @ dec_text (ucast (read_count1 r)) @ bytes_of '' -> '' @ dec_text (ucast (read_count2 r)),
     bytes_of ''PIC mask: 0x'' @ hex_text (ucast (read_mask r)), bytes_of ''PIT read: 0x'' @ hex_text (ucast (read_pit r)),
     bytes_of ''PIC IRR: 0x'' @ hex_text (ucast (read_irr r)), bytes_of ''KBC STATUS: 0x'' @ small_hex_text (ucast (read_status r)),
     bytes_of ''PIC MASK: 0x'' @ small_hex_text (ucast (read_kbc_mask r))]"

definition log_services :: "u64 \<Rightarrow> u8 list list" where
  "log_services offset = [bytes_of ''Initializing the ZMM memory manager... Success!'',
     bytes_of ''Initializing the ELF loader... HHDM offset: 0x'' @ hex_text (ucast offset),
     bytes_of ''HHDM offset high: %0X'', bytes_of ''HHDM offset low: %0X'']"

definition boot_log :: "u16 \<Rightarrow> limine_memmap_entry list \<Rightarrow> u64 \<Rightarrow> u32 \<Rightarrow> boot_readings \<Rightarrow> u8 list list" where
  "boot_log cs es offset pages r = log_gdt cs @ log_memory es @ [bytes_of ''Testing IDT...'', bytes_of ''IRQ0 FIRED!''] @
     log_timers pages r @ log_services offset @ [bytes_of ''Tests completed'', bytes_of ''eyaX kernel, beta 0.1'', []]"

section \<open>Each phase prints its lines\<close>

text \<open>A phase that prints lines and keeps the page allocator, whose counter a later phase prints.\<close>

definition printed :: "u8 list list \<Rightarrow> 'w kernel \<Rightarrow> 'w kernel \<Rightarrow> bool" where
  "printed ls k k' \<longleftrightarrow> k_console k' = fold eX_PrintChar (unlines ls) (k_console k) \<and> k_ppa k' = k_ppa k"

lemma printed_trans: "printed ls k k' \<Longrightarrow> printed ls' k' k'' \<Longrightarrow> printed (ls @ ls') k k''"
  by (simp add: printed_def)

lemma kprint_steps:
  "kprint [0] args k = Some k"
  "kprint (10 # format) args k = kprint format args (k\<lparr>k_console := eX_PrintChar 10 (k_console k)\<rparr>)"
  "CHR 0x00 \<notin> set s \<Longrightarrow> CHR ''%'' \<notin> set s \<Longrightarrow>
     kprint (bytes_of s @ format) args k = kprint format args (k\<lparr>k_console := fold eX_PrintChar (bytes_of s) (k_console k)\<rparr>)"
  "kprint (bytes_of ''%X'' @ format) (ArgInt v # args) k =
     kprint format args (k\<lparr>k_console := fold eX_PrintChar (hex_text (ucast v)) (k_console k)\<rparr>)"
  "kprint (bytes_of ''%x'' @ format) (ArgInt v # args) k =
     kprint format args (k\<lparr>k_console := fold eX_PrintChar (small_hex_text (ucast v)) (k_console k)\<rparr>)"
  "kprint (bytes_of ''%u'' @ format) (ArgInt v # args) k =
     kprint format args (k\<lparr>k_console := fold eX_PrintChar (dec_text (ucast v)) (k_console k)\<rparr>)"
  by (simp_all add: kprint_def eX_Print_bytes eX_Print_numbers)

lemma kprint_unknown:
  "kprint (bytes_of ''PMM: %lu free pages (%lu KiB)'' @ [10, 0]) args k =
     Some (k\<lparr>k_console := fold eX_PrintChar (bytes_of ''PMM: %lu free pages (%lu KiB)'' @ [10]) (k_console k)\<rparr>)"
  "kprint (bytes_of ''HHDM offset high: %0X'' @ [10, 0]) args k =
     Some (k\<lparr>k_console := fold eX_PrintChar (bytes_of ''HHDM offset high: %0X'' @ [10]) (k_console k)\<rparr>)"
  "kprint (bytes_of ''HHDM offset low: %0X'' @ [10, 0]) args k =
     Some (k\<lparr>k_console := fold eX_PrintChar (bytes_of ''HHDM offset low: %0X'' @ [10]) (k_console k)\<rparr>)"
  unfolding kprint_def eX_Print_pmm_line eX_Print_hhdm_lines by simp_all

lemma arg_u32:
  "(ucast (ucast (ucast v :: u32) :: u64) :: u32) = ucast v"
  "(ucast (ucast (b :: u8) :: u64) :: u32) = ucast b" "(ucast (ucast (h :: u16) :: u64) :: u32) = ucast h"
  by (auto simp: bit_eq_iff bit_ucast_iff)

lemmas kprint_simps = kprint_steps kprint_unknown arg_u32

lemma kmain_gdt_prints:
  assumes "kmain_gdt boot k = Some (Running k')"
  shows "k_console k' = fold eX_PrintChar (unlines (log_gdt (reg_cs (k_cpu k)))) (eX_Clear (k_console k)) \<and> k_ppa k' = k_ppa k"
  using assms
  by (auto simp: kmain_gdt_def kprint_simps log_gdt_def eX_ReadCS_def eX_GDT_Init_def eX_GDT_Load_def Let_def)

lemma kmain_map_line_prints:
  "kmain_map_line e (tot, k) =
     Some (if me_type e = LIMINE_MEMMAP_USABLE then tot + me_length e else tot,
       k\<lparr>k_console := fold eX_PrintChar (unlines [log_entry e]) (k_console k)\<rparr>)"
  by (simp add: kmain_map_line_def kprint_simps log_entry_def)

lemma usable_bytes_snoc:
  "usable_bytes (es @ [e]) = (if me_type e = LIMINE_MEMMAP_USABLE then usable_bytes es + me_length e else usable_bytes es)"
  by (simp add: usable_bytes_def)

lemma kmain_memory_map_prints:
  assumes ok: "memmap_ok response es"
  shows "kmain_memory_map response k = Some (usable_bytes es,
    k\<lparr>k_console := fold eX_PrintChar (unlines ([[], bytes_of ''Memory map:''] @ map log_entry es)) (k_console k)\<rparr>)"
proof -
  define k1 where "k1 = k\<lparr>k_console := fold eX_PrintChar (unlines [[], bytes_of ''Memory map:'']) (k_console k)\<rparr>"
  let ?state = "\<lambda>n. (usable_bytes (take n es), k1\<lparr>k_console := fold eX_PrintChar (unlines (map log_entry (take n es))) (k_console k1)\<rparr>)"
  have len: "unat (entry_count response) = length es" using ok by (simp add: memmap_ok_def)
  have "kprint ([10] @ bytes_of ''Memory map:'' @ [10, 0]) [] k = Some k1" by (simp add: kprint_simps k1_def)
  moreover have "\<exists>s. for_range_opt 0 (entry_count response) (\<lambda>i s. do {
      entry \<leftarrow> memmap_entry response i;
      kmain_map_line entry s
    }) (0, k1) = Some s \<and> s = ?state (unat (entry_count response))"
  proof (rule for_range_opt_inv [where P = "\<lambda>j s. s = ?state (unat j)"])
    fix j s
    assume j: "j < entry_count response" and s: "s = ?state (unat j)"
    have "unat (j + 1) = unat j + 1" "unat j < length es"
      using j len by (auto simp: word_less_nat_alt unat_Suc_less [OF j])
    then show "\<exists>s'. Option.bind (memmap_entry response j) (\<lambda>entry. kmain_map_line entry s) = Some s' \<and> s' = ?state (unat (j + 1))"
      by (simp add: memmap_ok_entry [OF ok j] s kmain_map_line_prints take_Suc_conv_app_nth usable_bytes_snoc)
  qed (simp_all add: usable_bytes_def)
  ultimately show ?thesis by (simp add: kmain_memory_map_def len k1_def)
qed

lemma kbugcheck_not_running: "kbugcheck exception vector k \<noteq> Some (Running k')"
  by (auto simp: kbugcheck_def hcf_def bind_eq_Some_conv split: outcome.splits)

lemma kmain_pmm_prints:
  assumes "kmain_pmm response tot k = Some (Running k')"
  shows "printed [bytes_of ''Initializing the Physical Memory Manager... Success!'', bytes_of ''PMM: %lu free pages (%lu KiB)'',
    bytes_of ''Total usable memory: '' @ dec_text (ucast tot) @ bytes_of '' bytes''] k k'"
proof -
  have "bytes_of ''Initializing the Physical Memory Manager... Success!'' =
      bytes_of ''Initializing the Physical Memory Manager... '' @ bytes_of ''Success!''" by (simp add: bytes_of_def)
  then show ?thesis
    using assms kbugcheck_not_running unfolding printed_def
    by (auto simp: kmain_pmm_def kprint_simps bind_eq_Some_conv Let_def split: if_splits)
qed

lemma kmain_memory_prints:
  assumes "req_response (eX_MemoryMapRequest boot) = Some response" and ok: "memmap_ok response es"
    and "kmain_memory boot k = Some (Running k')"
  shows "printed (log_memory es) k k'"
proof -
  let ?k1 = "k\<lparr>k_console := fold eX_PrintChar (unlines ([[], bytes_of ''Memory map:''] @ map log_entry es)) (k_console k)\<rparr>"
  have "kmain_pmm response (usable_bytes es) ?k1 = Some (Running k')"
    using assms(1,3) kmain_memory_map_prints [OF ok, of k] by (simp add: kmain_memory_def)
  from kmain_pmm_prints [OF this] show ?thesis by (simp add: printed_def log_memory_def)
qed

text \<open>The two bytes of a count make up the count.\<close>

lemma count_bytes: "(ucast (push_bit 8 (ucast high :: u32) OR ucast low) :: u16) = word_of_nat (256 * unat high + unat low)"
  for high low :: u8
proof -
  have "\<not> bit (push_bit 8 (ucast high) :: u32) n \<or> \<not> bit (ucast low :: u32) n" for n
    by (auto simp: bit_push_bit_iff bit_ucast_iff dest: bit_imp_le_length)
  then have "push_bit 8 (ucast high :: u32) OR ucast low = push_bit 8 (ucast high) + ucast low"
    by (rule disjunctive_add [symmetric])
  moreover have "push_bit 8 (ucast high :: u32) = word_of_nat (256 * unat high)"
    by (simp add: push_bit_eq_mult)
  moreover have "(ucast low :: u32) = word_of_nat (unat low)" by simp
  moreover have "(ucast (word_of_nat n :: u32) :: u16) = word_of_nat n" for n by transfer (simp add: take_bit_take_bit)
  ultimately show ?thesis by (simp only: of_nat_add [symmetric])
qed

lemma answers_set_up:
  "answers dev boot_accesses w = answers dev (drop 15 boot_accesses)
     (dev_outb dev 0x43 0 (eX_PIT_Init dev (eX_PIC_Init dev (dev_outb dev 0x20 0x20 w))))"
  by (simp add: boot_accesses_def eX_PIC_Init_def eX_PIT_Init_def eX_PIT_FREQUENCY_def eX_Outb_def Let_def)

text \<open>The phase after the first interrupt reads what the devices answer.\<close>

lemma kmain_timers_prints:
  assumes run: "kmain_timers dev k = Some (Running k')" and w: "k_world k = dev_outb dev 0x20 0x20 w"
  shows "printed (log_timers (ucast (eX_FreePageCount (k_ppa k))) (boot_answers dev w)) k k'"
proof -
  obtain low1 w1 where r1: "dev_inb dev 0x40 (dev_outb dev 0x43 0 (eX_PIT_Init dev (eX_PIC_Init dev (k_world k)))) = (low1, w1)"
    by fastforce
  obtain high1 w2 where r2: "dev_inb dev 0x40 w1 = (high1, w2)" by fastforce
  obtain low2 w3 where r3: "dev_inb dev 0x40 (dev_outb dev 0x43 0 w2) = (low2, w3)" by fastforce
  obtain high2 w4 where r4: "dev_inb dev 0x40 w3 = (high2, w4)" by fastforce
  obtain pit w5 where r5: "dev_inb dev 0x40 (dev_outb dev 0x43 0 w4) = (pit, w5)" by fastforce
  obtain mask w6 where r6: "dev_inb dev 0x21 w5 = (mask, w6)" by fastforce
  obtain irr w7 where r7: "dev_inb dev 0x20 (dev_outb dev 0x20 0x0A w6) = (irr, w7)" by fastforce
  obtain status w8 where r8: "dev_inb dev 0x64 w7 = (status, w8)" by fastforce
  obtain kmask w9 where r9: "dev_inb dev 0x21 w8 = (kmask, w9)" by fastforce
  note reads = r1 r2 r3 r4 r5 r6 r7 r8 r9
  have "answers dev boot_accesses w = [low1, high1, low2, high2, pit, mask, irr, status, kmask]"
    unfolding answers_set_up w [symmetric] by (simp add: boot_accesses_def reads)
  then have "boot_answers dev w = \<lparr>read_count1 = word_of_nat (256 * unat high1 + unat low1),
      read_count2 = word_of_nat (256 * unat high2 + unat low2), read_mask = mask, read_pit = pit, read_irr = irr,
      read_status = status, read_kbc_mask = kmask\<rparr>"
    by (simp add: boot_answers_def readings_of_def)
  then show ?thesis
    using run by (auto simp: kmain_timers_def pit_count_def eX_Inb_def eX_Outb_def eX_PIC_ReadIRR_def count_bytes
        eX_Keyboard_GetControllerStatus_def eX_Keyboard_GetPICMask_def eX_Keyboard_Inb_def eX_KEYBOARD_STATUS_PORT_def
        kprint_simps Let_def reads printed_def log_timers_def)
qed

lemma kmain_services_prints:
  assumes "req_response (eX_HHDMRequest boot) = Some response" and "kmain_services boot k = Some (Running k')"
  shows "printed (log_services (hhdm_offset response)) k k'"
proof -
  have "bytes_of ''Initializing the ZMM memory manager... Success!'' =
      bytes_of ''Initializing the ZMM memory manager... '' @ bytes_of ''Success!''"
    "bytes_of ''Initializing the ELF loader... HHDM offset: 0x'' =
      bytes_of ''Initializing the ELF loader... '' @ bytes_of ''HHDM offset: 0x''" by (simp_all add: bytes_of_def)
  then show ?thesis
    using assms(2) unfolding printed_def
    by (auto simp: kmain_services_def assms(1) elf_init_def kprint_simps Let_def log_services_def)
qed

lemma kmain_shell_prints:
  assumes "kmain_shell k = Some (Running k')"
  shows "k_console k' = fold eX_PrintChar shell_prompt
    (fold eX_PrintChar (unlines [bytes_of ''Tests completed'', bytes_of ''eyaX kernel, beta 0.1'', []]) (k_console k)) \<and> k_ppa k' = k_ppa k"
  using assms by (auto simp: kmain_shell_def kprint_simps eX_Shell_Init_eq Let_def)

lemma kmain_idt_prints:
  assumes run: "kmain_idt dev boot k = Some (Running k')" and len: "length (eX_IDT (k_tables k)) = 256" and "k_ticks k = 0"
  shows "printed [bytes_of ''Testing IDT...'', bytes_of ''IRQ0 FIRED!''] k k'"
proof -
  obtain t c where idt: "eX_IDT_Init (boot_symbols boot) (k_tables k, k_cpu k) = (t, c)" by fastforce
  have "gate_target t 0x20 = Some (0x08, addr_TimerHandler (boot_symbols boot))"
    using eX_IDT_Init_gates(1) [OF len idt] by simp
  then show ?thesis
    using run assms(3) unfolding printed_def
    by (auto simp: kmain_idt_def idt kprint_simps software_interrupt_def eX_TimerHandler_eq)
qed

section \<open>What the phases do to the devices\<close>

lemma kmain_worlds:
  "kmain_gdt boot k = Some (Running k') \<Longrightarrow> k_world k' = k_world k"
  "kmain_services boot k = Some (Running k') \<Longrightarrow> k_world k' = k_world k"
  "kmain_shell k = Some (Running k') \<Longrightarrow> k_world k' = k_world k"
  by (auto simp: kmain_gdt_def kmain_services_def kmain_shell_def kprint_simps elf_init_def eX_Shell_Init_eq Let_def
      kbugcheck_not_running split: prod.splits option.splits)

lemma kmain_memory_world:
  assumes "req_response (eX_MemoryMapRequest boot) = Some response" and "memmap_ok response es"
    and "kmain_memory boot k = Some (Running k')"
  shows "k_world k' = k_world k"
  using assms(3) kmain_memory_map_prints [OF assms(2), of k]
  by (auto simp: kmain_memory_def assms(1) kmain_pmm_def kprint_def Let_def bind_eq_Some_conv kbugcheck_not_running
      split: if_splits)

lemma kmain_idt_world:
  assumes run: "kmain_idt dev boot k = Some (Running k')" and len: "length (eX_IDT (k_tables k)) = 256"
  shows "k_world k' = dev_outb dev 0x20 0x20 (k_world k)"
proof -
  obtain t c where idt: "eX_IDT_Init (boot_symbols boot) (k_tables k, k_cpu k) = (t, c)" by fastforce
  have "gate_target t 0x20 = Some (0x08, addr_TimerHandler (boot_symbols boot))"
    using eX_IDT_Init_gates(1) [OF len idt] by simp
  then show ?thesis
    using run by (auto simp: kmain_idt_def idt kprint_simps software_interrupt_def eX_TimerHandler_eq Let_def)
qed

section \<open>The whole log\<close>

lemma and_then_running: "and_then r f = Some (Running s) \<longleftrightarrow> (\<exists>s0. r = Some (Running s0) \<and> f s0 = Some (Running s))"
  by (auto simp: and_then_def split: option.split outcome.split)

lemma reaches_running_iff: "reaches (Some (Running s)) Q \<longleftrightarrow> Q s"
  by (simp add: reaches_def)

text \<open>The phases of a boot that reaches the loop, and what the interrupt table finds.\<close>

lemma kmain_boot_phases:
  assumes ok: "boot_ok boot fb es" and bss: "kernel_bss k" and run: "kmain_boot dev boot k = Some (Running k')"
  obtains s2 s3 s4 s5 s6 where "kmain_gdt boot (k\<lparr>k_console := (k_console k)\<lparr>Framebuffer := fb\<rparr>\<rparr>) = Some (Running s2)"
    "kmain_memory boot s2 = Some (Running s3)" "kmain_idt dev boot s3 = Some (Running s4)"
    "kmain_timers dev s4 = Some (Running s5)" "kmain_services boot s5 = Some (Running s6)"
    "kmain_shell s6 = Some (Running k')" "length (eX_IDT (k_tables s3)) = 256" "k_ticks s3 = 0"
proof -
  obtain s1 s2 s3 s4 s5 s6 where
    s1: "kmain_checks boot k = Some (Running s1)" and s2: "kmain_gdt boot s1 = Some (Running s2)" and
    s3: "kmain_memory boot s2 = Some (Running s3)" and rest: "kmain_idt dev boot s3 = Some (Running s4)"
      "kmain_timers dev s4 = Some (Running s5)" "kmain_services boot s5 = Some (Running s6)"
      "kmain_shell s6 = Some (Running k')"
    using run unfolding kmain_boot_def and_then_running by blast
  obtain mr where mr: "req_response (eX_MemoryMapRequest boot) = Some mr" "memmap_ok mr es" "length es \<le> 2 ^ 24"
    using ok by (auto simp: boot_ok_def)
  have k1: "s1 = k\<lparr>k_console := (k_console k)\<lparr>Framebuffer := fb\<rparr>\<rparr>"
    using kmain_checks_reaches [OF ok, of k] by (simp add: s1 reaches_running_iff)
  obtain t1 c1 where gdt: "eX_GDT_Init (boot_symbols boot) (k_tables k, k_cpu k) = (t1, c1)" by fastforce
  have "boot_stage k fb (k_tables k) (k_cpu k) 0 blocks_bss s1" using bss by (simp add: k1 boot_stage_def kernel_bss_def)
  from kmain_gdt_stage [OF this gdt] have "boot_stage k fb t1 c1 0 blocks_bss s2" by (simp add: s2 reaches_running_iff)
  from kmain_memory_stage [OF this mr] have "boot_stage k fb t1 c1 0 blocks_bss s3" by (simp add: s3 reaches_running_iff)
  moreover have "length (eX_IDT t1) = 256" using gdt bss by (auto simp: eX_GDT_Init_def eX_GDT_Load_def Let_def kernel_bss_def)
  ultimately have "length (eX_IDT (k_tables s3)) = 256" "k_ticks s3 = 0" by (simp_all add: boot_stage_def)
  with s2 [unfolded k1] s3 rest show thesis by (rule that)
qed

lemma kmain_boot_prints:
  assumes ok: "boot_ok boot fb es" and bss: "kernel_bss k" and hr: "req_response (eX_HHDMRequest boot) = Some hr"
    and run: "kmain_boot dev boot k = Some (Running k')"
  shows "k_console k' = fold eX_PrintChar
    (unlines (boot_log (reg_cs (k_cpu k)) es (hhdm_offset hr) (ucast (eX_FreePageCount (k_ppa k))) (boot_answers dev (k_world k))) @
      shell_prompt)
    (eX_Clear ((k_console k)\<lparr>Framebuffer := fb\<rparr>))"
proof (rule kmain_boot_phases [OF ok bss run])
  fix s2 s3 s4 s5 s6
  assume s2: "kmain_gdt boot (k\<lparr>k_console := (k_console k)\<lparr>Framebuffer := fb\<rparr>\<rparr>) = Some (Running s2)" and
    s3: "kmain_memory boot s2 = Some (Running s3)" and s4: "kmain_idt dev boot s3 = Some (Running s4)" and
    s5: "kmain_timers dev s4 = Some (Running s5)" and s6: "kmain_services boot s5 = Some (Running s6)" and
    s7: "kmain_shell s6 = Some (Running k')" and idt: "length (eX_IDT (k_tables s3)) = 256" "k_ticks s3 = 0"
  obtain mr where mr: "req_response (eX_MemoryMapRequest boot) = Some mr" "memmap_ok mr es"
    using ok by (auto simp: boot_ok_def)
  have "k_world s4 = dev_outb dev 0x20 0x20 (k_world k)"
    using kmain_worlds(1) [OF s2] kmain_memory_world [OF mr s3] kmain_idt_world [OF s4 idt(1)] by simp
  from kmain_timers_prints [OF s5 this] show ?thesis
    using kmain_gdt_prints [OF s2] kmain_memory_prints [OF mr s3] kmain_idt_prints [OF s4 idt]
      kmain_services_prints [OF hr s6] kmain_shell_prints [OF s7]
    by (simp add: printed_def boot_log_def)
qed

section \<open>The log fits on a screen\<close>

lemma length_number_text:
  assumes "2 \<le> b" and "n < b ^ k" and "0 < k"
  shows "length (number_text up b n) \<le> k"
  using length_digits_lsb [OF assms(1,2)] assms(3) by (simp add: number_text_def)

lemma printable_digits: "list_all printable (take 16 (digit_chars up))"
  by (cases up) (simp_all add: digit_chars_def cstr_def bytes_of_def)

lemma printable_number_text:
  assumes "2 \<le> b" and "b \<le> 16" and c: "c \<in> set (number_text up b n)"
  shows "printable c"
proof (cases "n = 0")
  case True
  then show ?thesis using c by (simp add: number_text_def)
next
  case False
  then obtain d where d: "d \<in> set (digits_lsb b n)" "c = digit_chars up ! d" using c by (auto simp: number_text_def)
  have "d < 16" using digits_lsb_less [OF assms(1) d(1)] assms(2) by simp
  then have at: "take 16 (digit_chars up) ! d = c" "d < length (take 16 (digit_chars up))" by (simp_all add: d(2))
  have "\<forall>i < length (take 16 (digit_chars up)). printable (take 16 (digit_chars up) ! i)"
    using printable_digits [of up] unfolding list_all_length by blast
  from this [rule_format, OF at(2)] show ?thesis unfolding at(1) .
qed

text \<open>A line of printable characters for a screen of 144 columns.\<close>

definition line_fits :: "u8 list \<Rightarrow> bool" where
  "line_fits l \<longleftrightarrow> list_all printable l \<and> length l \<le> 144"

lemma number_fits:
  "list_all printable (hex_text v)" "list_all printable (small_hex_text v)" "list_all printable (dec_text v)"
  "length (hex_text v) \<le> 8" "length (small_hex_text v) \<le> 8" "length (dec_text v) \<le> 10"
proof -
  have "unat v < 4294967296" using unsigned_less [of v, where ?'a = nat] by simp
  moreover have "(4294967296 :: nat) \<le> 16 ^ 8" "(4294967296 :: nat) \<le> 10 ^ 10" by simp_all
  ultimately have v: "unat v < 16 ^ 8" "unat v < 10 ^ 10" by (blast intro: less_le_trans)+
  show "length (hex_text v) \<le> 8" "length (small_hex_text v) \<le> 8" "length (dec_text v) \<le> 10"
    using length_number_text [OF _ v(1)] length_number_text [OF _ v(2)] by simp_all
  show "list_all printable (hex_text v)" "list_all printable (small_hex_text v)" "list_all printable (dec_text v)"
    unfolding list_all_iff by (intro ballI printable_number_text; simp)+
qed

lemma number_lengths:
  "10 \<le> n \<Longrightarrow> length (hex_text v) \<le> n" "10 \<le> n \<Longrightarrow> length (small_hex_text v) \<le> n" "10 \<le> n \<Longrightarrow> length (dec_text v) \<le> n"
  "20 \<le> n \<Longrightarrow> length (dec_text v) + length (dec_text w) \<le> n"
  using number_fits [of v] number_fits(6) [of w] by linarith+

lemma hex_8: "number_text True 16 8 = [chr CHR ''8'']"
  by (simp add: number_text_def digits_lsb.simps digit_chars_def cstr_def bytes_of_def)

lemma log_entry_fits: "line_fits (log_entry e)"
  unfolding line_fits_def log_entry_def using number_fits [of "ucast (me_type e)"]
    number_fits [of "ucast (me_base e)"] number_fits [of "ucast (me_length e)"]
  by (simp add: bytes_of_def)

lemma boot_log_fits: "list_all line_fits (boot_log cs es offset pages r)"
proof -
  have "list_all line_fits (map log_entry es)" by (simp add: list_all_iff log_entry_fits)
  then show ?thesis
    by (simp add: boot_log_def log_gdt_def log_memory_def log_timers_def log_services_def)
      (simp add: line_fits_def bytes_of_def number_fits(1-3) number_lengths hex_8)
qed

lemma length_boot_log: "length (boot_log cs es offset pages r) = 24 + length es"
  by (simp add: boot_log_def log_gdt_def log_memory_def log_timers_def log_services_def)

text \<open>The text screen after the boot.\<close>

definition boot_text :: "nat \<Rightarrow> nat \<Rightarrow> u8 list list \<Rightarrow> text_screen option" where
  "boot_text cols rows ls = put_all text_put (unlines ls @ shell_prompt) (text_blank cols rows)"

lemma boot_text_fits:
  assumes "144 \<le> cols" and "length ls < rows" and "list_all line_fits ls"
  shows "\<exists>t. boot_text cols rows ls = Some t \<and> editing ([], t) \<and> text_row t = length ls \<and> text_size t = (cols, rows)"
proof -
  let ?blank = "text_blank cols rows"
  have "\<exists>t1. put_all text_put (concat (map (\<lambda>l. l @ [10]) ls)) ?blank = Some t1 \<and> text_col t1 = 0 \<and>
      text_row t1 = text_row ?blank + length ls \<and> text_size t1 = text_size ?blank"
    using assms by (intro put_all_lines) (auto simp: text_blank_def line_fits_def list_all_iff)
  then obtain t1 where t1: "put_all text_put (unlines ls) ?blank = Some t1" "text_col t1 = 0" "text_row t1 = length ls"
      "text_size t1 = (cols, rows)"
    by (auto simp: unlines_def text_blank_def text_size_def)
  have "\<exists>t. put_all text_put shell_prompt t1 = Some t \<and> editing ([], t) \<and> text_row t = text_row t1 \<and> text_size t = text_size t1"
    using t1(2-4) assms(1,2) by (intro text_prompt_fits) (simp_all add: text_size_def)
  then show ?thesis using t1 by (auto simp: boot_text_def)
qed

text \<open>Printing puts a text without line breaks into its row, and lines into theirs.\<close>

lemma put_all_text_cells:
  assumes "put_all text_put s t = Some t'" and "10 \<notin> set s"
  shows "text_row t' = text_row t \<and> text_cell t' = (\<lambda>(x, y).
    if y = text_row t \<and> text_col t \<le> x \<and> x < text_col t + length s then Some (s ! (x - text_col t)) else text_cell t (x, y))"
  using assms
proof (induction s arbitrary: t)
  case (Cons c s)
  define t1 where "t1 = t\<lparr>text_cell := (text_cell t)((text_col t, text_row t) \<mapsto> c), text_col := text_col t + 1\<rparr>"
  have "text_put c t = Some t1" using Cons.prems by (auto simp: text_put_def t1_def bind_eq_Some_conv split: if_splits)
  then have IH: "text_row t' = text_row t1 \<and> text_cell t' = (\<lambda>(x, y). if y = text_row t1 \<and> text_col t1 \<le> x \<and>
      x < text_col t1 + length s then Some (s ! (x - text_col t1)) else text_cell t1 (x, y))"
    using Cons.prems by (intro Cons.IH) simp_all
  have "(c # s) ! (x - text_col t) = s ! (x - Suc (text_col t))" if "Suc (text_col t) \<le> x" for x
    using that by (simp add: nth_Cons' Suc_diff_Suc [symmetric])
  then show ?case using IH by (auto simp: t1_def fun_eq_iff)
qed (auto simp: fun_eq_iff)

lemma put_all_lines_cells:
  assumes "put_all text_put (unlines ls @ s) t = Some t'" and "\<forall>l \<in> set ls. 10 \<notin> set l" and "10 \<notin> set s" and "text_col t = 0"
  shows "(\<forall>j < length ls. text_line t' (text_row t + j) (length (ls ! j)) = map Some (ls ! j)) \<and>
    text_line t' (text_row t + length ls) (length s) = map Some s \<and>
    (\<forall>x y. y < text_row t \<longrightarrow> text_cell t' (x, y) = text_cell t (x, y))"
  using assms
proof (induction ls arbitrary: t)
  case Nil
  then show ?case using put_all_text_cells [of s t t'] by (auto simp: text_line_def intro!: nth_equalityI)
next
  case (Cons l ls)
  obtain t1 t2 where t1: "put_all text_put l t = Some t1" and t2: "text_put 10 t1 = Some t2"
      and rest: "put_all text_put (unlines ls @ s) t2 = Some t'"
    using Cons.prems(1) by (auto simp: bind_eq_Some_conv)
  have l: "text_row t1 = text_row t" "text_cell t1 = (\<lambda>(x, y). if y = text_row t \<and> x < length l then Some (l ! x) else text_cell t (x, y))"
    using put_all_text_cells [OF t1] Cons.prems(2,4) by (simp_all add: fun_eq_iff)
  have t2: "text_row t2 = text_row t + 1" "text_cell t2 = text_cell t1" "text_col t2 = 0"
    using t2 l(1) by (auto simp: text_put_def split: if_splits)
  note IH = Cons.IH [OF rest _ Cons.prems(3) t2(3), unfolded t2(1)]
  have below: "text_cell t' (x, y) = text_cell t1 (x, y)" if "y \<le> text_row t" for x y
    using IH Cons.prems(2) that t2(2) by simp
  have "text_line t' (text_row t) (length l) = map Some l"
    by (auto simp: text_line_def below l(2) intro!: nth_equalityI)
  moreover have "text_cell t' (x, y) = text_cell t (x, y)" if "y < text_row t" for x y
    using that by (simp add: below l(2))
  moreover have "text_line t' (text_row t + j) (length ((l # ls) ! j)) = map Some ((l # ls) ! j)" if "j < length (l # ls)" for j
    using that calculation(1) IH Cons.prems(2) by (cases j) auto
  ultimately show ?case using IH Cons.prems(2) by simp
qed

lemma boot_text_lines:
  assumes "boot_text cols rows ls = Some t" and "list_all line_fits ls"
  shows "j < length ls \<Longrightarrow> text_line t j (length (ls ! j)) = map Some (ls ! j)"
    and "text_line t (length ls) 6 = map Some shell_prompt"
proof -
  have "\<forall>l \<in> set ls. 10 \<notin> set l" using assms(2) by (auto simp: list_all_iff line_fits_def)
  moreover have "10 \<notin> set shell_prompt" using shell_prompt_facts(2) by blast
  ultimately show "j < length ls \<Longrightarrow> text_line t j (length (ls ! j)) = map Some (ls ! j)"
    "text_line t (length ls) 6 = map Some shell_prompt"
    using put_all_lines_cells [OF assms(1) [unfolded boot_text_def]] by (simp_all add: text_blank_def shell_prompt_facts(1))
qed

text \<open>The console paints this text.\<close>

lemma boot_text_painted:
  assumes "screen_ok con" and "boot_text (screen_cols con) (screen_rows con) ls = Some t"
  shows "paints (\<lambda>v. v = Background con) con (fold eX_PrintChar (unlines ls @ shell_prompt) (eX_Clear con)) t"
  by (rule ps.view_put_all [OF paints_cleared [OF assms(1)] assms(2) [unfolded boot_text_def]]) simp

end
