(* ===== verification/Eyax_Pc.thy ===== *)
theory Eyax_Pc
  imports Eyax_Loop Eyax_Log
begin

text \<open>
  What \<^verbatim>\<open>kmain\<close> of \<^verbatim>\<open>src/main.c\<close> writes to the ports, as seen by whatever watches them, and the kernel on a
  machine whose ports lead to two interrupt controllers of type 8259: how the boot leaves them
  programmed, that the running kernel keeps them so, and where an interrupt of their lines ends up.
\<close>

section \<open>Watching the ports\<close>

text \<open>
  A part of the devices that follows the writes to the ports and that reading does not change. The
  lemmas give the writes of every operation of the boot, in order.
\<close>

locale port_watcher =
  fixes dev :: "'w devices" and view :: "'w \<Rightarrow> 's" and follow :: "u16 \<times> u8 \<Rightarrow> 's \<Rightarrow> 's"
  assumes view_outb: "view (dev_outb dev port v w) = follow (port, v) (view w)"
    and view_inb: "view (snd (dev_inb dev port w)) = view w"
begin

lemma view_eX_Outb [simp]: "view (eX_Outb dev port v w) = follow (port, v) (view w)"
  by (simp add: eX_Outb_def view_outb)

lemma view_read:
  "eX_Inb dev port w = (b, w') \<Longrightarrow> view w' = view w" "eX_Keyboard_Inb dev port w = (b, w') \<Longrightarrow> view w' = view w"
  using view_inb [of port w] by (simp_all add: eX_Inb_def eX_Keyboard_Inb_def)

lemma view_eX_PIC_Init: "view (eX_PIC_Init dev w) = fold follow
    [(0x20, 0x11), (0xA0, 0x11), (0x21, 0x20), (0xA1, 0x28), (0x21, 0x04), (0xA1, 0x02), (0x21, 0x01), (0xA1, 0x01),
     (0x21, 0xFC), (0xA1, 0xFF)] (view w)"
  by (simp add: eX_PIC_Init_def Let_def)

lemma view_eX_PIT_Init: "view (eX_PIT_Init dev w) = fold follow [(0x43, 0x36), (0x40, 0x9B), (0x40, 0x2E)] (view w)"
  by (simp add: eX_PIT_Init_def Let_def eX_PIT_FREQUENCY_def)

lemma view_pit_count: "pit_count dev w = (c, w') \<Longrightarrow> view w' = follow (0x43, 0) (view w)"
  by (auto simp: pit_count_def Let_def dest!: view_read split: prod.splits)

lemma view_eX_PIC_ReadIRR: "eX_PIC_ReadIRR dev w = (b, w') \<Longrightarrow> view w' = follow (0x20, 0x0A) (view w)"
  by (auto simp: eX_PIC_ReadIRR_def dest!: view_read)

lemma view_kmain_timers:
  assumes "kmain_timers dev k = Some (Running k')"
  shows "view (k_world k') = fold follow
    ([(0x20, 0x11), (0xA0, 0x11), (0x21, 0x20), (0xA1, 0x28), (0x21, 0x04), (0xA1, 0x02), (0x21, 0x01), (0xA1, 0x01),
      (0x21, 0xFC), (0xA1, 0xFF), (0x43, 0x36), (0x40, 0x9B), (0x40, 0x2E), (0x43, 0), (0x43, 0), (0x43, 0),
      (0x20, 0x0A)]) (view (k_world k))"
proof -
  obtain c1 w1 where r1: "pit_count dev (eX_PIT_Init dev (eX_PIC_Init dev (k_world k))) = (c1, w1)" by fastforce
  obtain c2 w2 where r2: "pit_count dev w1 = (c2, w2)" by fastforce
  obtain pit w3 where r3: "eX_Inb dev 0x40 (eX_Outb dev 0x43 0x00 w2) = (pit, w3)" by fastforce
  obtain m w4 where r4: "eX_Inb dev 0x21 w3 = (m, w4)" by fastforce
  obtain irr w5 where r5: "eX_PIC_ReadIRR dev w4 = (irr, w5)" by fastforce
  obtain status w6 where r6: "eX_Keyboard_GetControllerStatus dev w5 = (status, w6)" by fastforce
  obtain kmask w7 where r7: "eX_Keyboard_GetPICMask dev w6 = (kmask, w7)" by fastforce
  have "k_world k' = w7"
    using assms by (auto simp: kmain_timers_def kprint_simps Let_def r1 r2 r3 r4 r5 r6 r7)
  moreover have "view w7 = view w6" "view w6 = view w5" "view w4 = view w3" "view w3 = follow (0x43, 0) (view w2)"
    using r7 r6 r4 view_read(1) [OF r3]
    by (auto simp: eX_Keyboard_GetPICMask_def eX_Keyboard_GetControllerStatus_def dest: view_read)
  ultimately show ?thesis
    using view_pit_count [OF r1] view_pit_count [OF r2] view_eX_PIC_ReadIRR [OF r5]
    by (simp add: view_eX_PIC_Init view_eX_PIT_Init)
qed

end

section \<open>The writes of the whole boot\<close>

definition boot_writes :: "(u16 \<times> u8) list" where
  "boot_writes = [(0x20, 0x20),
     (0x20, 0x11), (0xA0, 0x11), (0x21, 0x20), (0xA1, 0x28), (0x21, 0x04), (0xA1, 0x02), (0x21, 0x01), (0xA1, 0x01),
     (0x21, 0xFC), (0xA1, 0xFF),
     (0x43, 0x36), (0x40, 0x9B), (0x40, 0x2E), (0x43, 0), (0x43, 0), (0x43, 0), (0x20, 0x0A)]"

lemma kmain_boot_view:
  assumes w: "port_watcher dev view follow" and ok: "boot_ok boot fb es" and bss: "kernel_bss k"
    and run: "kmain_boot dev boot k = Some (Running k')"
  shows "view (k_world k') = fold follow boot_writes (view (k_world k))"
proof (rule kmain_boot_phases [OF ok bss run])
  fix s2 s3 s4 s5 s6
  assume s2: "kmain_gdt boot (k\<lparr>k_console := (k_console k)\<lparr>Framebuffer := fb\<rparr>\<rparr>) = Some (Running s2)" and
    s3: "kmain_memory boot s2 = Some (Running s3)" and s4: "kmain_idt dev boot s3 = Some (Running s4)" and
    s5: "kmain_timers dev s4 = Some (Running s5)" and s6: "kmain_services boot s5 = Some (Running s6)" and
    s7: "kmain_shell s6 = Some (Running k')" and idt: "length (eX_IDT (k_tables s3)) = 256"
  obtain mr where mr: "req_response (eX_MemoryMapRequest boot) = Some mr" "memmap_ok mr es"
    using ok by (auto simp: boot_ok_def)
  show ?thesis
    using kmain_worlds(1) [OF s2] kmain_memory_world [OF mr s3] kmain_idt_world [OF s4 idt]
      port_watcher.view_kmain_timers [OF w s5] kmain_worlds(2) [OF s6] kmain_worlds(3) [OF s7]
      port_watcher.view_outb [OF w]
    by (simp add: boot_writes_def)
qed

text \<open>The recording devices of \<open>Eyax_Ports\<close> watch the ports, and so does whatever follows their record.\<close>

interpretation rec: port_watcher trace_devices writes "\<lambda>x xs. xs @ [x]"
  by unfold_locales (simp_all add: trace_devices_def split: list.split)

lemma fold_record [simp]: "fold (\<lambda>x xs. xs @ [x]) zs ys = ys @ zs"
  by (induction zs arbitrary: ys) simp_all

section \<open>The running kernel\<close>

lemma loop_step_view:
  assumes w: "port_watcher dev view follow" and "loop_step dev (p, k) = Some (p', k')"
  shows "view (k_world k') = view (k_world k) \<and> k_tables k' = k_tables k \<and> k_cpu k' = k_cpu k"
  using assms(2)
  by (cases p) (auto simp: bind_eq_Some_conv Let_def dest: port_watcher.view_read(2) [OF w] split: prod.splits if_splits)

lemma timer_interrupt_effect:
  assumes "gate_target (k_tables k) 0x20 = Some (0x08, addr_TimerHandler syms)"
    and "software_interrupt dev syms 0x20 k = Some (Running k')"
  shows "k_world k' = dev_outb dev 0x20 0x20 (k_world k) \<and> k_tables k' = k_tables k \<and> k_cpu k' = k_cpu k"
  using assms by (auto simp: software_interrupt_def eX_TimerHandler_eq)

text \<open>A run without arriving bytes acknowledges its timer interrupts and leaves tables and registers alone.\<close>

lemma kernel_trace_view:
  assumes w: "port_watcher dev view follow" and run: "kernel_trace dev q syms s0 tr s" and "\<not> list_ex is_arrival tr"
    and gate: "gate_target (k_tables (snd s0)) 0x20 = Some (0x08, addr_TimerHandler syms)"
  shows "view (k_world (snd s)) = fold follow (replicate (ticks tr) (0x20, 0x20)) (view (k_world (snd s0))) \<and>
    k_tables (snd s) = k_tables (snd s0) \<and> k_cpu (snd s) = k_cpu (snd s0)"
  using run assms(3)
proof (induction rule: kernel_trace.induct)
  case (snoc tr s e s')
  then have IH: "view (k_world (snd s)) = fold follow (replicate (ticks tr) (0x20, 0x20)) (view (k_world (snd s0)))"
      "k_tables (snd s) = k_tables (snd s0)" "k_cpu (snd s) = k_cpu (snd s0)" and e: "\<not> is_arrival e" by simp_all
  from snoc.hyps(2) show ?case
  proof cases
    case code
    then show ?thesis
      using loop_step_view [OF w, of "fst s" "snd s" "fst s'" "snd s'"] IH loop_event_code(1) [of dev s] by simp
  next
    case (tick k k' p)
    have "fold follow (replicate (ticks tr + 1) (0x20, 0x20)) v = follow (0x20, 0x20) (fold follow (replicate (ticks tr) (0x20, 0x20)) v)" for v
      unfolding replicate_add by simp
    then show ?thesis
      using timer_interrupt_effect [of k syms dev k'] IH tick gate port_watcher.view_outb [OF w] by simp
  next
    case arrive
    then show ?thesis using e by (simp add: is_arrival_def)
  qed
qed (simp add: ticks_def)

section \<open>Two interrupt controllers behind the ports\<close>

text \<open>Lines 0 and 1 of the first controller are enabled, and its vectors start at 0x20.\<close>

definition pics_programmed :: "pic8259 \<times> pic8259 \<Rightarrow> bool" where
  "pics_programmed = (\<lambda>(master, slave). pic_awaits master = 0 \<and> pic_offset master = 0x20 \<and> pic_mask master = 0xFC \<and>
     pic_awaits slave = 0 \<and> pic_offset slave = 0x28 \<and> pic_mask slave = 0xFF)"

lemma boot_writes_program: "pics_programmed (fold pic_write boot_writes (master, slave))"
  by (simp add: boot_writes_def pic_write_def pic_command_def pic_data_def pics_programmed_def)

lemma acknowledged_programmed:
  "pics_programmed ps \<Longrightarrow> pics_programmed (fold pic_write (replicate n (0x20, 0x20)) ps)"
  by (induction n arbitrary: ps) (simp_all add: pic_write_def pic_command_def split: prod.split)

text \<open>The line of a controller that is enabled, as the vector that it interrupts with.\<close>

definition line_vector :: "pic8259 \<Rightarrow> nat \<Rightarrow> u8 option" where
  "line_vector p line = (if line < 8 \<and> \<not> bit (pic_mask p) line then Some (pic_offset p + of_nat line) else None)"

lemma programmed_vectors:
  assumes "pics_programmed ps"
  shows "line_vector (fst ps) line = (if line = 0 then Some 0x20 else if line = 1 then Some 0x21 else None)"
    and "line_vector (snd ps) line = None"
proof -
  have "\<forall>line < 8. \<not> bit (0xFC :: u8) line \<longleftrightarrow> line = 0 \<or> line = 1" "\<forall>line < 8. bit (0xFF :: u8) line" by code_simp+
  then show "line_vector (fst ps) line = (if line = 0 then Some 0x20 else if line = 1 then Some 0x21 else None)"
      "line_vector (snd ps) line = None"
    using assms by (auto simp: pics_programmed_def line_vector_def split: prod.splits)
qed

text \<open>The controllers of a running kernel before the first key.\<close>

lemma running_pics:
  assumes w: "port_watcher dev pics pic_write" and boot: "boot_ok boot fb es" "kernel_bss k"
    and run: "kmain_boot dev boot k = Some (Running k0)"
    and trace: "kernel_trace dev q (boot_symbols boot) (Poll_Status, k0) tr (p, k')" "\<not> list_ex is_arrival tr"
  shows "pics_programmed (pics (k_world k'))" and "k_tables k' = k_tables k0" and "k_cpu k' = k_cpu k0"
    and "booted boot fb es k0"
proof -
  show k0: "booted boot fb es k0" using kmain_boot_reaches [OF boot, of dev] by (simp add: run reaches_def)
  then have gate: "gate_target (k_tables (snd (Poll_Status, k0))) 0x20 = Some (0x08, addr_TimerHandler (boot_symbols boot))"
    by (simp add: booted_def)
  note after = kernel_trace_view [OF w trace gate]
  have "pics_programmed (pics (k_world k0))"
    using boot_writes_program [of "fst (pics (k_world k))" "snd (pics (k_world k))"]
    by (simp add: kmain_boot_view [OF w boot run])
  then show "pics_programmed (pics (k_world k'))" using after acknowledged_programmed by simp
  show "k_tables k' = k_tables k0" "k_cpu k' = k_cpu k0" using after by simp_all
qed

section \<open>A machine with controllers and a keyboard\<close>

record pc =
  pc_pics :: "pic8259 \<times> pic8259"
  pc_keys :: "u8 list"

text \<open>Ports without a device read as zero.\<close>

definition pc_devices :: "pc devices" where
  "pc_devices = \<lparr>
     dev_inb = (\<lambda>port w. if port = 0x64 then (if pc_keys w = [] then 0 else 1, w)
       else if port = 0x60 then (case pc_keys w of [] \<Rightarrow> (0, w) | b # bs \<Rightarrow> (b, w\<lparr>pc_keys := bs\<rparr>))
       else if port = 0x21 then (pic_mask (fst (pc_pics w)), w)
       else if port = 0xA1 then (pic_mask (snd (pc_pics w)), w)
       else (0, w)),
     dev_outb = (\<lambda>port v w. w\<lparr>pc_pics := pic_write (port, v) (pc_pics w)\<rparr>)\<rparr>"

interpretation pc: port_watcher pc_devices pc_pics pic_write
  by unfold_locales (simp_all add: pc_devices_def split: list.split)

lemma pc_devices_keys: "kbc_queue pc_devices pc_keys" "pc_keys (dev_outb pc_devices port v w) = pc_keys w"
  by (simp_all add: kbc_queue_def pc_devices_def)

end
