(* ===== verification/Eyax_Requests.thy ===== *)
theory Eyax_Requests
  imports Eyax_Kernel "HOL-Library.Multiset"
begin

text \<open>
  The section of the kernel image that the boot loader searches: the markers, the base revision and
  the requests of \<^verbatim>\<open>src/main.c\<close> as 64-bit words, in the order that the linker script gives to the
  sections, \<^verbatim>\<open>.limine_requests_start\<close>, \<^verbatim>\<open>.limine_requests\<close> and \<^verbatim>\<open>.limine_requests_end\<close>. The order of the
  objects of the middle one and the zero words that align them are left to compiler and linker.
\<close>

section \<open>The words of the section\<close>

text \<open>\<^verbatim>\<open>id\<close>, \<^verbatim>\<open>revision\<close> and \<^verbatim>\<open>response\<close>, which holds an address.\<close>

definition request_words :: "'r limine_request \<Rightarrow> u64 \<Rightarrow> u64 list" where
  "request_words r address = req_id r @ [req_revision r, address]"

definition revision_words :: "u64 \<times> u64 \<times> u64 \<Rightarrow> u64 list" where
  "revision_words = (\<lambda>(a, b, c). [a, b, c])"

text \<open>The objects of \<^verbatim>\<open>.limine_requests\<close> in the image: nobody has answered.\<close>

definition image_objects :: "boot \<Rightarrow> u64 list list" where
  "image_objects boot = [revision_words (limine_base_revision boot), request_words (framebuffer_request boot) 0,
     request_words (eX_HHDMRequest boot) 0, request_words (eX_MemoryMapRequest boot) 0]"

text \<open>Every object is followed by some zero words.\<close>

definition requests_section :: "(u64 list \<times> nat) list \<Rightarrow> u64 list" where
  "requests_section objs = LIMINE_REQUESTS_START_MARKER @ concat (map (\<lambda>(ws, n). ws @ replicate n 0) objs) @
     LIMINE_REQUESTS_END_MARKER"

text \<open>The positions at which some words are found, and what identifies an object.\<close>

definition found_at :: "u64 list \<Rightarrow> u64 list \<Rightarrow> nat list" where
  "found_at ws section_words = filter (\<lambda>i. take (length ws) (drop i section_words) = ws) [0..<length section_words]"

definition object_id :: "u64 list \<Rightarrow> u64 list" where
  "object_id ws = (if length ws = 3 then take 2 ws else take 4 ws)"

section \<open>Finding words\<close>

lemma found_at_iff: "i \<in> set (found_at ws xs) \<longleftrightarrow> i < length xs \<and> take (length ws) (drop i xs) = ws"
  by (auto simp: found_at_def)

lemma distinct_set_single: "set xs = {x} \<Longrightarrow> distinct xs \<Longrightarrow> xs = [x]"
  by (cases xs; cases "tl xs") auto

text \<open>Words of which one occurs nowhere else are found once.\<close>

lemma found_at_once:
  assumes "ws = as @ u # bs" and "xs = ys @ ws @ zs" and "u \<notin> set ys" "u \<notin> set zs" "u \<notin> set as" "u \<notin> set bs"
  shows "found_at ws xs = [length ys]"
proof -
  have only: "j = length ys + length as" if "j < length xs" "xs ! j = u" for j
  proof (rule ccontr)
    assume no: "j \<noteq> length ys + length as"
    have "xs ! j \<in> set ys \<union> set as \<union> set bs \<union> set zs"
      using that(1) no unfolding assms(1,2)
      by (auto simp: nth_append nth_Cons' not_less less_diff_conv2 intro!: nth_mem)
    then show False using that(2) assms(3-6) by blast
  qed
  have "set (found_at ws xs) = {length ys}"
  proof (intro set_eqI iffI)
    fix i
    assume "i \<in> set (found_at ws xs)"
    then have i: "i < length xs" "take (length ws) (drop i xs) = ws" by (auto simp: found_at_iff)
    have "length (take (length ws) (drop i xs)) = length ws" unfolding i(2) ..
    then have len: "i + length as < length xs" using i(1) by (simp add: assms(1))
    have "xs ! (i + length as) = take (length ws) (drop i xs) ! length as"
      using len by (simp add: assms(1))
    then have "xs ! (i + length as) = u" unfolding i(2) by (simp add: assms(1))
    with only [OF len] show "i \<in> {length ys}" by simp
  qed (auto simp: found_at_iff assms(1,2))
  moreover have "distinct (found_at ws xs)" by (simp add: found_at_def)
  ultimately show ?thesis by (rule distinct_set_single)
qed

section \<open>The objects of the image\<close>

text \<open>A word of each object that no other object and no marker contains.\<close>

definition object_key :: "u64 list \<Rightarrow> nat" where
  "object_key ws = (if length ws = 3 then 0 else 2)"

definition image_words :: "u64 list list" where
  "image_words = [revision_words (LIMINE_BASE_REVISION 6), LIMINE_FRAMEBUFFER_REQUEST_ID @ [0, 0],
     LIMINE_HHDM_REQUEST_ID @ [0, 0], LIMINE_MEMMAP_REQUEST_ID @ [0, 0]]"

lemma image_objects_eq: "image_objects (boot_image syms) = image_words"
  by (simp add: image_objects_def boot_image_def image_words_def request_words_def)

lemma image_words_keys:
  "\<forall>ws \<in> set image_words. object_key ws < length (object_id ws) \<and> ws ! object_key ws \<noteq> 0 \<and>
     ws ! object_key ws \<notin> set (LIMINE_REQUESTS_START_MARKER @ LIMINE_REQUESTS_END_MARKER) \<and>
     ws ! object_key ws \<notin> set (take (object_key ws) ws) \<and> ws ! object_key ws \<notin> set (drop (object_key ws + 1) ws) \<and>
     (\<forall>ws' \<in> set image_words. ws ! object_key ws \<in> set ws' \<longrightarrow> ws' = ws)"
  by code_simp

lemma image_words_distinct: "distinct image_words"
  by code_simp

text \<open>The key splits an object, and the part that identifies it.\<close>

lemma object_split:
  assumes "ws \<in> set image_words"
  obtains as u bs cs where "object_id ws = as @ u # bs" "ws = as @ u # bs @ cs" "u \<noteq> 0" "u = ws ! object_key ws"
    "u \<notin> set LIMINE_REQUESTS_START_MARKER" "u \<notin> set LIMINE_REQUESTS_END_MARKER" "u \<notin> set as" "u \<notin> set bs" "u \<notin> set cs"
proof -
  note defs = object_id_def object_key_def LIMINE_COMMON_MAGIC_def LIMINE_REQUESTS_START_MARKER_def
    LIMINE_REQUESTS_END_MARKER_def
  consider "ws = [0xf9562b2d5c95a6c8, 0x6a7b384944536bdc, 6]"
    | "ws = LIMINE_COMMON_MAGIC @ [0x9d5827dcd881dd75, 0xa3148604f6fab11b, 0, 0]"
    | "ws = LIMINE_COMMON_MAGIC @ [0x48dcf1cb8ad2b852, 0x63984e959a98244b, 0, 0]"
    | "ws = LIMINE_COMMON_MAGIC @ [0x67cf3d9d378a806f, 0xe304acdfc50c3c62, 0, 0]"
    using assms by (auto simp: image_words_def revision_words_def LIMINE_BASE_REVISION_def LIMINE_FRAMEBUFFER_REQUEST_ID_def
        LIMINE_HHDM_REQUEST_ID_def LIMINE_MEMMAP_REQUEST_ID_def)
  then show thesis
  proof cases
    case 1
    then show thesis by (intro that [of "[]" "0xf9562b2d5c95a6c8" "[0x6a7b384944536bdc]" "[6]"]) (simp_all add: defs)
  next
    case 2
    then show thesis
      by (intro that [of LIMINE_COMMON_MAGIC "0x9d5827dcd881dd75" "[0xa3148604f6fab11b]" "[0, 0]"]) (simp_all add: defs)
  next
    case 3
    then show thesis
      by (intro that [of LIMINE_COMMON_MAGIC "0x48dcf1cb8ad2b852" "[0x63984e959a98244b]" "[0, 0]"]) (simp_all add: defs)
  next
    case 4
    then show thesis
      by (intro that [of LIMINE_COMMON_MAGIC "0x67cf3d9d378a806f" "[0xe304acdfc50c3c62]" "[0, 0]"]) (simp_all add: defs)
  qed
qed

section \<open>Finding the objects in the section\<close>

definition padded :: "u64 list \<times> nat \<Rightarrow> u64 list" where
  "padded = (\<lambda>(ws, n). ws @ replicate n 0)"

lemma requests_section_padded:
  "requests_section objs = LIMINE_REQUESTS_START_MARKER @ concat (map padded objs) @ LIMINE_REQUESTS_END_MARKER"
  by (simp add: requests_section_def padded_def)

text \<open>An object in the section, with the objects before and after it, none of which contains its key.\<close>

lemma object_in_section:
  assumes objs: "mset (map fst objs) = mset image_words" and ws: "ws \<in> set image_words"
  obtains p n r where "objs = p @ (ws, n) # r" "\<And>ws' m. (ws', m) \<in> set (p @ r) \<Longrightarrow> ws' \<in> set image_words \<and> ws' \<noteq> ws"
proof -
  have set_objs: "set (map fst objs) = set image_words" using objs by (rule mset_eq_setD)
  have "ws \<in> fst ` set objs" using ws set_objs by simp
  then obtain n where "(ws, n) \<in> set objs" by (auto simp del: split_paired_All)
  then obtain p r where split: "objs = p @ (ws, n) # r" by (metis split_list)
  have dist: "distinct (map fst objs)" using mset_eq_imp_distinct_iff [OF objs] image_words_distinct by blast
  have "ws' \<in> set image_words \<and> ws' \<noteq> ws" if "(ws', m) \<in> set (p @ r)" for ws' m
  proof
    have "(ws', m) \<in> set objs" using that by (auto simp: split)
    from imageI [OF this, of fst] have "ws' \<in> set (map fst objs)" by simp
    then show "ws' \<in> set image_words" unfolding set_objs .
    have "ws \<notin> set (map fst (p @ r))" using dist by (simp add: split)
    moreover have "ws' \<in> set (map fst (p @ r))" using imageI [OF that, of fst] by (simp add: image_Un)
    ultimately show "ws' \<noteq> ws" by blast
  qed
  with split show thesis by (rule that)
qed

lemma word_not_in_padded:
  assumes "u \<noteq> 0" and "\<And>ws m. (ws, m) \<in> set objs \<Longrightarrow> u \<notin> set ws"
  shows "u \<notin> set (concat (map padded objs))"
proof
  assume "u \<in> set (concat (map padded objs))"
  then obtain ws m where "(ws, m) \<in> set objs" "u \<in> set (ws @ replicate m 0)" by (auto simp: padded_def)
  then show False using assms by (auto simp: set_replicate_conv_if split: if_splits)
qed

lemma object_found:
  assumes objs: "mset (map fst objs) = mset image_words" and ws: "ws \<in> set image_words"
  obtains ys zs p n r where "objs = p @ (ws, n) # r" "ws \<notin> fst ` set p" "ws \<notin> fst ` set r"
    "requests_section objs = ys @ ws @ zs" "ys = LIMINE_REQUESTS_START_MARKER @ concat (map padded p)"
    "zs = replicate n 0 @ concat (map padded r) @ LIMINE_REQUESTS_END_MARKER"
    "found_at (object_id ws) (requests_section objs) = [length ys]"
proof -
  obtain p n r where split: "objs = p @ (ws, n) # r"
      and others: "\<And>ws' m. (ws', m) \<in> set (p @ r) \<Longrightarrow> ws' \<in> set image_words \<and> ws' \<noteq> ws"
    using object_in_section [OF objs ws] by blast
  obtain as u bs cs where key: "object_id ws = as @ u # bs" "ws = as @ u # bs @ cs" "u \<noteq> 0" "u = ws ! object_key ws"
      "u \<notin> set LIMINE_REQUESTS_START_MARKER" "u \<notin> set LIMINE_REQUESTS_END_MARKER" "u \<notin> set as" "u \<notin> set bs" "u \<notin> set cs"
    using object_split [OF ws] by blast
  let ?ys = "LIMINE_REQUESTS_START_MARKER @ concat (map padded p)"
  let ?zs = "replicate n 0 @ concat (map padded r) @ LIMINE_REQUESTS_END_MARKER"
  have sec: "requests_section objs = ?ys @ ws @ ?zs" by (simp add: requests_section_padded split padded_def)
  have other_words: "u \<notin> set ws'" if "(ws', m) \<in> set (p @ r)" for ws' m
    using image_words_keys ws key(4) others [OF that] by blast
  have p: "u \<notin> set (concat (map padded p))"
    by (rule word_not_in_padded [OF key(3)]) (use other_words in \<open>simp, blast\<close>)
  have r: "u \<notin> set (concat (map padded r))"
    by (rule word_not_in_padded [OF key(3)]) (use other_words in \<open>simp, blast\<close>)
  have "found_at (object_id ws) (requests_section objs) = [length ?ys]"
  proof (rule found_at_once [OF key(1)])
    show "requests_section objs = ?ys @ object_id ws @ (cs @ ?zs)" unfolding sec key(1) by (subst key(2)) simp
    show "u \<notin> set ?ys" using key(5) p by simp
    show "u \<notin> set (cs @ ?zs)" using key(3,6,9) r by (simp add: set_replicate_conv_if)
  qed (rule key(7,8))+
  moreover have "ws \<notin> fst ` set p" "ws \<notin> fst ` set r" using others by fastforce+
  ultimately show thesis using that split sec by blast
qed

text \<open>The markers are found once as well.\<close>

lemma markers_found:
  assumes objs: "mset (map fst objs) = mset image_words"
  shows "found_at LIMINE_REQUESTS_START_MARKER (requests_section objs) = [0]"
    and "found_at LIMINE_REQUESTS_END_MARKER (requests_section objs) = [length (requests_section objs) - 2]"
proof -
  have free: "\<forall>ws \<in> set image_words. 0xf6b8f4b39de7d1ae \<notin> set ws \<and> 0xadc0e0531bb10d03 \<notin> set ws" by code_simp
  have mem: "ws \<in> set image_words" if "(ws, m) \<in> set objs" for ws m
    using imageI [OF that, of fst] mset_eq_setD [OF objs] by simp
  have start: "0xf6b8f4b39de7d1ae \<notin> set (concat (map padded objs))"
    by (rule word_not_in_padded) (simp, use free mem in blast)
  have stop: "0xadc0e0531bb10d03 \<notin> set (concat (map padded objs))"
    by (rule word_not_in_padded) (simp, use free mem in blast)
  have "found_at LIMINE_REQUESTS_START_MARKER (requests_section objs) = [length ([] :: u64 list)]"
  proof (rule found_at_once)
    show "LIMINE_REQUESTS_START_MARKER =
        [] @ 0xf6b8f4b39de7d1ae # [0xfab91a6940fcb9cf, 0x785c6ed015d3e316, 0x181e920a7852b9d9]"
      by (simp add: LIMINE_REQUESTS_START_MARKER_def)
    show "requests_section objs =
        [] @ LIMINE_REQUESTS_START_MARKER @ (concat (map padded objs) @ LIMINE_REQUESTS_END_MARKER)"
      by (simp add: requests_section_padded)
    show "0xf6b8f4b39de7d1ae \<notin> set (concat (map padded objs) @ LIMINE_REQUESTS_END_MARKER)"
      unfolding set_append using start by (simp add: LIMINE_REQUESTS_END_MARKER_def del: set_concat)
  qed simp_all
  then show "found_at LIMINE_REQUESTS_START_MARKER (requests_section objs) = [0]" by simp
  have "found_at LIMINE_REQUESTS_END_MARKER (requests_section objs) =
      [length (LIMINE_REQUESTS_START_MARKER @ concat (map padded objs))]"
  proof (rule found_at_once)
    show "LIMINE_REQUESTS_END_MARKER = [] @ 0xadc0e0531bb10d03 # [0x9572709f31764c62]"
      by (simp add: LIMINE_REQUESTS_END_MARKER_def)
    show "requests_section objs =
        (LIMINE_REQUESTS_START_MARKER @ concat (map padded objs)) @ LIMINE_REQUESTS_END_MARKER @ []"
      by (simp add: requests_section_padded)
    show "0xadc0e0531bb10d03 \<notin> set (LIMINE_REQUESTS_START_MARKER @ concat (map padded objs))"
      unfolding set_append using stop by (simp add: LIMINE_REQUESTS_START_MARKER_def del: set_concat)
  qed simp_all
  then show "found_at LIMINE_REQUESTS_END_MARKER (requests_section objs) = [length (requests_section objs) - 2]"
    by (simp add: requests_section_padded LIMINE_REQUESTS_END_MARKER_def)
qed

text \<open>Writing the sixth word of a request in the section answers that request and nothing else.\<close>

definition answer :: "u64 list \<Rightarrow> u64 \<Rightarrow> u64 list \<times> nat \<Rightarrow> u64 list \<times> nat" where
  "answer ws address = (\<lambda>(v, n). (if v = ws then ws[5 := address] else v, n))"

lemma answer_other: "ws \<notin> fst ` set objs \<Longrightarrow> map (answer ws address) objs = objs"
  by (induction objs) (auto simp: answer_def split: prod.splits)

lemma answer_in_section:
  assumes "ws \<notin> fst ` set p" and "ws \<notin> fst ` set r" and "length ws = 6"
  shows "(requests_section (p @ (ws, n) # r))[length (LIMINE_REQUESTS_START_MARKER @ concat (map padded p)) + 5 := address] =
    requests_section (map (answer ws address) (p @ (ws, n) # r))"
proof -
  let ?ys = "LIMINE_REQUESTS_START_MARKER @ concat (map padded p)"
  let ?zs = "replicate n 0 @ concat (map padded r) @ LIMINE_REQUESTS_END_MARKER"
  have "requests_section (p @ (ws, n) # r) = ?ys @ ws @ ?zs"
    "requests_section (p @ (ws[5 := address], n) # r) = ?ys @ ws[5 := address] @ ?zs"
    by (simp_all add: requests_section_padded padded_def)
  moreover have "map (answer ws address) (p @ (ws, n) # r) = p @ (ws[5 := address], n) # r"
    using answer_other [OF assms(1)] answer_other [OF assms(2)] by (simp add: answer_def)
  moreover have "(?ys @ ws @ ?zs)[length ?ys + 5 := address] = ?ys @ ws[5 := address] @ ?zs"
    using assms(3) by (simp only: list_update_append list_update_append1) simp
  ultimately show ?thesis by simp
qed

section \<open>Properties\<close>

text \<open>
  C26: whatever order and alignment compiler and linker choose, the boot loader finds each request of the
  kernel, the base revision and both markers at exactly one place of the section, and the word that it
  answers a request in is the response field of that request: it changes no other object.
\<close>

theorem requests_found_once:
  assumes "mset (map fst objs) = mset (image_objects (boot_image syms))"
  shows "(\<forall>ws \<in> set (image_objects (boot_image syms)). \<exists>i. found_at (object_id ws) (requests_section objs) = [i] \<and>
      take (length ws) (drop i (requests_section objs)) = ws \<and>
      (length ws = 6 \<longrightarrow> (\<forall>address. (requests_section objs)[i + 5 := address] = requests_section (map (answer ws address) objs)))) \<and>
    found_at LIMINE_REQUESTS_START_MARKER (requests_section objs) = [0] \<and>
    found_at LIMINE_REQUESTS_END_MARKER (requests_section objs) = [length (requests_section objs) - 2]"
proof -
  have objs: "mset (map fst objs) = mset image_words" using assms by (simp add: image_objects_eq)
  have "\<exists>i. found_at (object_id ws) (requests_section objs) = [i] \<and> take (length ws) (drop i (requests_section objs)) = ws \<and>
      (length ws = 6 \<longrightarrow> (\<forall>address. (requests_section objs)[i + 5 := address] = requests_section (map (answer ws address) objs)))"
    if "ws \<in> set image_words" for ws
  proof (rule object_found [OF objs that])
    fix ys zs p n r
    assume "objs = p @ (ws, n) # r" "ws \<notin> fst ` set p" "ws \<notin> fst ` set r" "requests_section objs = ys @ ws @ zs"
      "ys = LIMINE_REQUESTS_START_MARKER @ concat (map padded p)"
      "found_at (object_id ws) (requests_section objs) = [length ys]"
    then show ?thesis using answer_in_section [of ws p r n] by (intro exI [of _ "length ys"]) simp
  qed
  with markers_found [OF objs] show ?thesis unfolding image_objects_eq by blast
qed

text \<open>One possible section: the memory map request first, and a gap behind the framebuffer request.\<close>

theorem requests_found_once_witness:
  "found_at LIMINE_HHDM_REQUEST_ID (requests_section
     [(LIMINE_MEMMAP_REQUEST_ID @ [0, 0], 0), (revision_words (LIMINE_BASE_REVISION 6), 1),
      (LIMINE_FRAMEBUFFER_REQUEST_ID @ [0, 0], 2), (LIMINE_HHDM_REQUEST_ID @ [0, 0], 0)]) = [22]"
proof -
  let ?objs = "[(LIMINE_MEMMAP_REQUEST_ID @ [0, 0], 0), (revision_words (LIMINE_BASE_REVISION 6), 1),
      (LIMINE_FRAMEBUFFER_REQUEST_ID @ [0, 0], 2), (LIMINE_HHDM_REQUEST_ID @ [0, 0], 0)] :: (u64 list \<times> nat) list"
  let ?ws = "LIMINE_HHDM_REQUEST_ID @ [0, 0]"
  have "mset (map fst ?objs) = mset (image_objects (boot_image sample_symbols))"
    by (simp add: image_objects_eq image_words_def add_mset_commute)
  note found = requests_found_once [OF this, THEN conjunct1, rule_format, of ?ws]
  have "?ws \<in> set (image_objects (boot_image sample_symbols))" by (simp add: image_objects_eq image_words_def)
  then obtain i where i: "found_at (object_id ?ws) (requests_section ?objs) = [i]" using found by blast
  have "object_id ?ws = LIMINE_HHDM_REQUEST_ID" by code_simp
  moreover have "22 < length (requests_section ?objs) \<and> take 4 (drop 22 (requests_section ?objs)) = LIMINE_HHDM_REQUEST_ID \<and>
      length LIMINE_HHDM_REQUEST_ID = 4" by code_simp
  then have "22 \<in> set (found_at LIMINE_HHDM_REQUEST_ID (requests_section ?objs))" by (simp add: found_at_iff)
  ultimately show ?thesis using i by simp
qed

end
