(* ===== verification/Eyax_Tail.thy ===== *)
theory Eyax_Tail
  imports Eyax_Loop
begin

text \<open>
  The end of the boot, behind the instruction that enables interrupts: timer interrupts and arriving
  bytes may already come between the calls of \<^verbatim>\<open>kmain\<close> that start keyboard and shell. They could as well
  come at the head of the loop, so that the runs of the loop cover these moments too.
\<close>

section \<open>The end of the boot, call by call\<close>

datatype tail_point = Keyboard_Start | Interrupts_On | Tests_Completed | Banner | Shell_Start | Loop_Start

fun tail_step :: "tail_point \<times> 'w kernel \<Rightarrow> (tail_point \<times> 'w kernel) option" where
  "tail_step (Keyboard_Start, k) = Some (Interrupts_On, k\<lparr>k_keyboard := eX_Keyboard_Init (k_keyboard k)\<rparr>)"
| "tail_step (Interrupts_On, k) = Some (Tests_Completed, k\<lparr>k_cpu := (k_cpu k)\<lparr>reg_if := True\<rparr>\<rparr>)"
| "tail_step (Tests_Completed, k) = do {
     k \<leftarrow> kprint (bytes_of ''Tests completed'' @ [10, 0]) [] k;
     Some (Banner, k)
   }"
| "tail_step (Banner, k) = do {
     k \<leftarrow> kprint (bytes_of ''eyaX kernel, beta 0.1'' @ [10, 10, 0]) [] k;
     Some (Shell_Start, k)
   }"
| "tail_step (Shell_Start, k) = do {
     (sh, con) \<leftarrow> eX_Shell_Init (k_shell k, k_console k);
     Some (Loop_Start, k\<lparr>k_shell := sh, k_console := con\<rparr>)
   }"
| "tail_step (Loop_Start, k) = None"

text \<open>What an interrupt or a device does in between is what it does in the loop.\<close>

inductive boot_tail ::
  "'w devices \<Rightarrow> ('w \<Rightarrow> u8 list) \<Rightarrow> symbols \<Rightarrow> tail_point \<times> 'w kernel \<Rightarrow> event list \<Rightarrow> tail_point \<times> 'w kernel \<Rightarrow> bool"
  for dev q syms s0 where
  start: "boot_tail dev q syms s0 [] s0"
| code: "boot_tail dev q syms s0 tr s \<Longrightarrow> tail_step s = Some s' \<Longrightarrow> boot_tail dev q syms s0 tr s'"
| between: "boot_tail dev q syms s0 tr (p, k) \<Longrightarrow> e = Tick \<or> is_arrival e \<Longrightarrow>
    kernel_step dev q syms (Poll_Status, k) e (Poll_Status, k') \<Longrightarrow> boot_tail dev q syms s0 (tr @ [e]) (p, k')"

section \<open>The state that the rest leads to\<close>

fun tail_text :: "tail_point \<Rightarrow> u8 list" where
  "tail_text Loop_Start = []"
| "tail_text Shell_Start = shell_prompt"
| "tail_text Banner = bytes_of ''eyaX kernel, beta 0.1'' @ [10, 10] @ shell_prompt"
| "tail_text _ = bytes_of ''Tests completed'' @ [10] @ bytes_of ''eyaX kernel, beta 0.1'' @ [10, 10] @ shell_prompt"

definition tail_finish :: "tail_point \<Rightarrow> 'w kernel \<Rightarrow> 'w kernel" where
  "tail_finish p k = k\<lparr>k_keyboard := (if p = Keyboard_Start then eX_Keyboard_Init (k_keyboard k) else k_keyboard k),
     k_cpu := (if p \<in> {Keyboard_Start, Interrupts_On} then (k_cpu k)\<lparr>reg_if := True\<rparr> else k_cpu k),
     k_shell := (if p = Loop_Start then k_shell k else (k_shell k)\<lparr>ShellLength := 0\<rparr>),
     k_console := fold eX_PrintChar (tail_text p) (k_console k)\<rparr>"

text \<open>The calls that are left.\<close>

fun tail_left :: "tail_point \<Rightarrow> nat" where
  "tail_left Keyboard_Start = 5"
| "tail_left Interrupts_On = 4"
| "tail_left Tests_Completed = 3"
| "tail_left Banner = 2"
| "tail_left Shell_Start = 1"
| "tail_left Loop_Start = 0"

lemma tail_finish_loop [simp]: "tail_finish Loop_Start k = k"
  by (simp add: tail_finish_def)

lemma kmain_shell_finish: "kmain_shell k = Some (Running (tail_finish Keyboard_Start k))"
  by (simp add: kmain_shell_def kprint_def eX_Print_bytes eX_Shell_Init_eq Let_def tail_finish_def)

text \<open>Every call succeeds, and the rest leads to the same state as before.\<close>

lemma tail_step_finish:
  assumes "p \<noteq> Loop_Start"
  shows "\<exists>p' k'. tail_step (p, k) = Some (p', k') \<and> tail_finish p' k' = tail_finish p k \<and> tail_left p' < tail_left p"
  using assms by (cases p) (simp_all add: kprint_def eX_Print_bytes eX_Shell_Init_eq tail_finish_def)

lemma tail_step_finish_eq: "tail_step (p, k) = Some (p', k') \<Longrightarrow> tail_finish p' k' = tail_finish p k"
  using tail_step_finish [of p k] by (cases "p = Loop_Start") auto

lemma tail_step_keeps: "tail_step (p, k) = Some (p', k') \<Longrightarrow> k_tables k' = k_tables k \<and> k_ticks k' = k_ticks k"
  by (cases p) (auto simp: kprint_def eX_Print_bytes eX_Shell_Init_eq)

text \<open>Without further interrupts the loop is reached.\<close>

lemma tail_completes: "boot_tail dev q syms s0 tr (p, k) \<Longrightarrow> boot_tail dev q syms s0 tr (Loop_Start, tail_finish p k)"
proof (induction p arbitrary: k rule: measure_induct_rule [where f = tail_left])
  case (less p)
  show ?case
  proof (cases "p = Loop_Start")
    case False
    then obtain p' k' where step: "tail_step (p, k) = Some (p', k')" "tail_finish p' k' = tail_finish p k"
        "tail_left p' < tail_left p"
      using tail_step_finish by blast
    from less.IH [OF step(3) boot_tail.code [OF less.prems step(1)]] show ?thesis by (simp add: step(2))
  qed (use less.prems in simp)
qed

section \<open>Postponing what comes in between\<close>

text \<open>A timer interrupt or an arriving byte has the same effect before and after the rest.\<close>

lemma between_finish:
  assumes step: "kernel_step dev q syms (Poll_Status, k) e (Poll_Status, k')" and e: "e = Tick \<or> is_arrival e"
    and gate: "gate_target (k_tables k) 0x20 = Some (0x08, addr_TimerHandler syms)" and ticks: "k_ticks k \<noteq> 0"
  shows "kernel_step dev q syms (Poll_Status, tail_finish p k) e (Poll_Status, tail_finish p k') \<and>
    k_tables k' = k_tables k \<and> k_ticks k' = k_ticks k + (if e = Tick then 1 else 0)"
  using step
proof (cases rule: kernel_step.cases)
  case code
  then show ?thesis using e loop_event_code by metis
next
  case tick
  have gate': "gate_target (k_tables (tail_finish p k)) 0x20 = Some (0x08, addr_TimerHandler syms)"
    "k_ticks (tail_finish p k) \<noteq> 0" "reg_if (k_cpu (tail_finish p k))"
    using gate ticks tick by (simp_all add: tail_finish_def)
  have k': "k' = k\<lparr>k_ticks := k_ticks k + 1, k_world := dev_outb dev 0x20 0x20 (k_world k)\<rparr>"
    using tick software_interrupt_timer [OF gate ticks, of dev] by simp
  have "software_interrupt dev syms 0x20 (tail_finish p k) = Some (Running (tail_finish p k'))"
    unfolding software_interrupt_timer [OF gate'(1,2)] k' by (simp add: tail_finish_def)
  from kernel_step.tick [OF gate'(3) this]
  show ?thesis using k' tick by simp
next
  case (arrive w bs)
  then have "tail_finish p k' = (tail_finish p k)\<lparr>k_world := w\<rparr>" "q w = q (k_world (tail_finish p k)) @ bs"
    by (simp_all add: tail_finish_def)
  with kernel_step.arrive [OF this(2), of dev syms Poll_Status] arrive show ?thesis by simp
qed

lemma boot_tail_postponed:
  assumes run: "boot_tail dev q syms (p0, k0) tr (p, k)" and bound: "ticks tr + 1 < 2 ^ 64"
    and gate: "gate_target (k_tables k0) 0x20 = Some (0x08, addr_TimerHandler syms)" and one: "k_ticks k0 = 1"
  shows "kernel_trace dev q syms (Poll_Status, tail_finish p0 k0) tr (Poll_Status, tail_finish p k) \<and>
    k_tables k = k_tables k0 \<and> k_ticks k = of_nat (ticks tr + 1)"
  using run bound
proof (induction tr "(p, k)" arbitrary: p k rule: boot_tail.induct)
  case start
  then show ?case using kernel_trace.start one by simp
next
  case (code tr s p k)
  obtain p' k' where s: "s = (p', k')" by fastforce
  have "tail_finish p k = tail_finish p' k'" using code.hyps(3) tail_step_finish_eq unfolding s by blast
  moreover have "k_tables k = k_tables k' \<and> k_ticks k = k_ticks k'" using code.hyps(3) unfolding s by (rule tail_step_keeps)
  ultimately show ?case using code.hyps(2) [OF s code.prems] by simp
next
  case (between tr p k e k')
  have bound: "ticks tr + 1 < 2 ^ 64" using between.prems by (simp split: if_splits)
  note IH = between.hyps(2) [OF bound]
  have "k_ticks k \<noteq> 0" using IH of_nat_ticks_nonzero [OF bound] by simp
  with between_finish [OF between.hyps(4,3), of p] gate IH
  have "kernel_step dev q syms (Poll_Status, tail_finish p k) e (Poll_Status, tail_finish p k')"
    "k_tables k' = k_tables k" "k_ticks k' = k_ticks k + (if e = Tick then 1 else 0)" by simp_all
  with IH show ?case using kernel_trace.snoc by fastforce
qed

end
