(* ===== verification/Spec2Isabelle.thy ===== *)
theory Spec2Isabelle
  imports Eyax_Pc Eyax_Requests Eyax_Tail
begin

text \<open>
  \<^bold>\<open>A verification development for the eyaX kernel.\<close>

  eyaX is a small kernel for x86-64 that the Limine boot loader starts. Its C sources are under
  \<^verbatim>\<open>src/src\<close>: \<^verbatim>\<open>main.c\<close> (entry point, console, heap, descriptor tables, interrupts and a page
  allocator), \<^verbatim>\<open>keyboard.c\<close>, \<^verbatim>\<open>shell.c\<close>, \<^verbatim>\<open>pmm.c\<close>, \<^verbatim>\<open>elf.c\<close> and the interface \<^verbatim>\<open>limine.h\<close> of the boot
  loader. \<^verbatim>\<open>kmain\<close> checks what the boot loader provides, clears the screen, sets up the descriptor
  tables, the page bitmaps, the interrupt table, the interrupt controllers and the timer, the heap and
  the ELF loader, and then for ever polls the keyboard controller and lets the shell take the typed
  characters out of the ring buffer, edit the line and echo it on the console. The timer interrupt
  counts ticks.

  \<^bold>\<open>Conventions.\<close> Unsigned integers are words of their width, so that sums wrap as in C; \<^verbatim>\<open>int\<close> values of
  the heap are integers checked against 32 bits. A record stands for the static variables of a
  component, and an operation takes and returns it. \<open>None\<close> is the absence of a defined result: an access
  outside of an array, a signed overflow, a missing variadic argument, or a loop that does not end; a
  theorem that gives \<open>Some\<close> therefore also shows that none of these happens. \<open>Running\<close> and \<open>Halted\<close> tell
  whether \<^verbatim>\<open>hcf\<close> has been reached. Loops are \<open>for_range\<close> and \<open>for_range_opt\<close> of the prelude, functions
  with a measure, or, where the end depends on a device, partial functions into options; there is no
  fuel. The processor is a record of registers. The devices behind the ports, the data of the boot
  loader and the addresses assigned by the linker are arguments; what is assumed of them are the
  predicates \<open>kbc_queue\<close>, \<open>port_watcher\<close>, \<open>memmap_ok\<close>, \<open>sane_map\<close> and \<open>boot_ok\<close>, each with an instance that
  satisfies it.

  \<^bold>\<open>Theories.\<close>
  \<^item> \<open>Eyax_Prelude\<close>: integer types, C strings, counted loops with their invariant rules, word lemmas.
  \<^item> \<open>Eyax_Limine\<close> (\<^verbatim>\<open>limine.h\<close>): the requests that the kernel makes, their responses with every field, and the
    markers around the requests.
  \<^item> \<open>Eyax_Memory\<close> (\<^verbatim>\<open>memcpy\<close>, \<^verbatim>\<open>memset\<close>, \<^verbatim>\<open>memmove\<close>, \<^verbatim>\<open>memcmp\<close> of \<^verbatim>\<open>main.c\<close>): they do what the C standard asks
    for, overlapping objects included.
  \<^item> \<open>Eyax_Font\<close>, \<open>Eyax_Console\<close>, \<open>Eyax_Print\<close> (\<^verbatim>\<open>main.c\<close>): glyph table, \<^verbatim>\<open>eX_PutPixel\<close> to \<^verbatim>\<open>eX_Backspace\<close>, numbers and
    \<^verbatim>\<open>eX_Print\<close>. Printed text becomes visible, stays inside of the framebuffer while the cursor is on the
    screen, backspace undoes a character, numbers can be read back, and a format prints the text that
    it denotes.
  \<^item> \<open>Eyax_Zmm\<close> (\<^verbatim>\<open>heap_init\<close>, \<^verbatim>\<open>malloc\<close>, \<^verbatim>\<open>free\<close> of \<^verbatim>\<open>main.c\<close>): first fit, and no two live blocks overlap in any run.
    The locale \<open>range_allocator\<close> states what a client relies on; \<open>zmm\<close> interprets it on the block table.
  \<^item> \<open>Eyax_Ports\<close>, \<open>Eyax_Keyboard\<close> (\<^verbatim>\<open>keyboard.c\<close>): the ring buffer refines a queue of 127 characters, and
    polling turns the bytes of the controller into the characters that they type. The locales
    \<open>char_source\<close> and \<open>bounded_queue\<close> are the interface to the shell; \<open>kb\<close> interprets them on the ring.
  \<^item> \<open>Eyax_Shell\<close> (\<^verbatim>\<open>shell.c\<close>): the line buffer refines the line editor \<open>shell_step\<close>, and the bottom row of the
    screen shows prompt and line.
  \<^item> \<open>Eyax_Screen\<close>: a screen of characters with a cursor, and the line editor on it. The locale \<open>console_view\<close>
    states what a view of the console has to follow; \<open>ps\<close> interprets it on the whole video memory, so that every
    cell of the screen after a session can be computed with characters alone and everything outside of the
    screen is known to be unchanged (\<open>paints\<close>, \<open>render\<close>). A session stays inside of a screen of 144 columns, the
    longest answer, with six rows, those of help, for each key.
  \<^item> \<open>Eyax_Bitmap\<close>, \<open>Eyax_Pmm\<close> (\<^verbatim>\<open>pmm.c\<close>), \<open>Eyax_Ppa\<close> (\<^verbatim>\<open>eX_PPA_Init\<close> of \<^verbatim>\<open>main.c\<close>): both page allocators through the locale
    \<open>frame_bitmap\<close>, interpreted as \<open>pb\<close> and \<open>ppa\<close>: the frames that initialisation marks, what allocation and
    release do, and the consequences of an inverted test in \<^verbatim>\<open>pmm_alloc_page\<close> and of a wrong index in
    \<^verbatim>\<open>pmm_init\<close>, which leaves the bitmap for memory maps of more than 16777216 entries.
  \<^item> \<open>Eyax_Elf\<close> (\<^verbatim>\<open>elf.c\<close>): validation accepts exactly the executable images of an independent definition
    and never reads outside of the image.
  \<^item> \<open>Eyax_Cpu\<close> (\<^verbatim>\<open>main.c\<close>): descriptor tables, interrupt controllers, timer, handlers and stop screen: exactly
    three vectors have gates, \<^verbatim>\<open>eX_Sleep\<close> returns after its ticks, and a fault halts behind a message.
  \<^item> \<open>Eyax_Kernel\<close> (\<^verbatim>\<open>kmain\<close>): the phases of the boot, the endless loop, and runs as the inductive relation
    \<open>kernel_run\<close> of passes, timer interrupts and device activity.
  \<^item> \<open>Eyax_Log\<close> (\<^verbatim>\<open>kmain\<close>): the lines that the boot prints, as a function of the memory map, the registers and the
    answers of the devices to the list of port accesses \<open>boot_accesses\<close>; 24 lines and one for each entry of the
    map, none of more than 144 characters, each in its row of the screen.
  \<^item> \<open>Eyax_Loop\<close> (the loop of \<^verbatim>\<open>kmain\<close> with \<^verbatim>\<open>eX_Keyboard_Poll\<close> and \<^verbatim>\<open>eX_Shell_Update\<close>): the loop in small steps
    \<open>loop_step\<close>, one port read or one character at a time, whose runs without interrupts are the passes;
    and the runs \<open>kernel_trace\<close> in which timer interrupts and arriving bytes come between any two of them.
    The invariant \<open>trace_inv\<close> follows every byte from the controller to the line, those lost behind a full
    ring included; the measure \<open>work_left\<close> bounds the steps until nothing waits.
  \<^item> \<open>Eyax_Tail\<close> (the end of \<^verbatim>\<open>kmain\<close>'s boot): the calls between the instruction that enables interrupts and the
    loop, as the steps \<open>tail_step\<close>, with interrupts and bytes between them in the runs \<open>boot_tail\<close>. Whatever comes
    there can be postponed to the head of the loop, so that the runs of \<open>kernel_trace\<close> cover it.
  \<^item> \<open>Eyax_Pc\<close>: what the devices see of the kernel. The locale \<open>port_watcher\<close> is a view of the devices that changes
    with the port writes only; its lemmas follow it through the boot and the loop. \<open>rec\<close> interprets it on the list
    of all writes, which is \<open>boot_writes\<close> and an acknowledgement for each tick, and \<open>pc\<close> on two interrupt
    controllers, whose lines and vectors after the boot show what a pressed key does to the processor.
  \<^item> \<open>Eyax_Requests\<close> (\<^verbatim>\<open>main.c\<close>, \<^verbatim>\<open>limine.h\<close>): the words of the section with the requests, in any order and alignment
    of its objects; the boot loader finds each of them at one place.
  \<^item> This theory: the properties that span components. The boot initialises all of them or halts; from
    then on line and screen are what the line editor makes of the keys, however they and the interrupts
    are interleaved, and the whole screen is the text of the boot log and of the session; everything typed
    is handled in time; and every step keeps the state well-formed.

  \<^bold>\<open>Not modelled.\<close> The execution of the busy-wait loops in \<^verbatim>\<open>kmain\<close>, which read and write nothing; the stack
  frames of interrupts, and interrupts inside of a small step of the loop or of a call of the boot, whose
  handler shares only its port with them; what follows the interrupt that the keyboard controller raises
  itself, since it shuts the processor down, as \<open>Eyax_Pc\<close> prepares and this theory shows; the part of
  \<^verbatim>\<open>limine.h\<close> for requests that the kernel does not make; the size of the mapping behind the framebuffer
  (writes past the screen are shown as such, not as faults); the bytes of the heap, which no operation of
  the kernel accesses; the linker script and the build.
\<close>

section \<open>Properties\<close>

text \<open>
  C6: with what the boot protocol promises, \<^verbatim>\<open>kmain\<close> gets through all of its phases and enters its
  loop with every component initialised: the gates of the three interrupts, the page allocator with
  the usable frames of the memory map, one free heap block, the ELF loader, an empty keyboard ring
  without modifiers, an empty line behind a prompt at the start of a row, interrupts enabled, and one
  timer tick counted by the test of the interrupt table.
\<close>

theorem kmain_boots:
  assumes "boot_ok boot fb es" and "kernel_bss k"
  shows "\<exists>k'. kmain_boot dev boot k = Some (Running k') \<and> booted boot fb es k'"
  using kmain_boot_reaches [OF assms] by (simp add: reaches_def)

definition sample_framebuffer :: limine_framebuffer where
  "sample_framebuffer = rgb_framebuffer 0xFFFF8000FD000000 1280 720"

text \<open>The requests with answers: a framebuffer, a memory map and the offset of the higher half.\<close>

definition sample_boot :: boot where
  "sample_boot = (boot_image sample_symbols)\<lparr>limine_base_revision := LIMINE_BASE_REVISION 0,
     framebuffer_request := (framebuffer_request (boot_image sample_symbols))
       \<lparr>req_response := Some \<lparr>framebuffer_revision = 0, framebuffer_count = 1, framebuffers = [sample_framebuffer]\<rparr>\<rparr>,
     eX_HHDMRequest := (eX_HHDMRequest (boot_image sample_symbols))\<lparr>req_response := Some \<lparr>hhdm_revision = 0, hhdm_offset = 0xFFFF800000000000\<rparr>\<rparr>,
     eX_MemoryMapRequest := (eX_MemoryMapRequest (boot_image sample_symbols))\<lparr>req_response := Some sample_memmap\<rparr>\<rparr>"

text \<open>The static variables before the start, with devices in some state.\<close>

definition sample_state :: "'w \<Rightarrow> 'w kernel" where
  "sample_state w = \<lparr>k_console = sample_console, k_tables = tables_bss, k_cpu = sample_cpu, k_pmm = pmm_bss,
     k_ppa = ppa_bss,
     k_blocks = blocks_bss, k_elf = \<lparr>elf_initialized = False\<rparr>, k_keyboard = kb_example, k_shell = shell_example,
     k_ticks = 0, k_world = w\<rparr>"

definition sample_kernel :: "u8 list kernel" where
  "sample_kernel = sample_state [0x23, 0xA3]"

lemma sample_boot_ok: "boot_ok sample_boot sample_framebuffer [sample_entry]"
  by (simp add: boot_ok_def sample_boot_def LIMINE_BASE_REVISION_SUPPORTED_def LIMINE_BASE_REVISION_def sample_memmap_ok
      sample_framebuffer_def rgb_framebuffer_def)

lemma sample_state_bss: "kernel_bss (sample_state w)"
  by (simp add: kernel_bss_def sample_state_def tables_bss_def shell_example_def)

lemma sample_kernel_bss: "kernel_bss sample_kernel"
  unfolding sample_kernel_def by (rule sample_state_bss)

theorem kmain_boots_witness:
  "\<exists>k'. kmain_boot list_controller sample_boot sample_kernel = Some (Running k') \<and> k_ticks k' = 1 \<and>
     shell_line (k_shell k') = []"
  using kmain_boots [OF sample_boot_ok sample_kernel_bss, of list_controller] by (auto simp: booted_def)

text \<open>
  C7: with what the boot protocol promises, \<^verbatim>\<open>kmain\<close> clears the screen and
  prints exactly the lines of the boot log, in order, and the prompt: the code segment before and
  after the descriptor table, every entry of the memory map, the total of the usable ones, the message
  of the first timer interrupt, the page counter that nothing has set, what the devices answer to the
  port accesses of the boot (both timer counts, low byte first, the timer byte, the interrupt mask,
  the pending requests and the keyboard status, each in its line), and the offset of the higher half
  in the line of the ELF loader.
\<close>

theorem kmain_prints_boot_log:
  assumes "boot_ok boot fb es" and "kernel_bss k" and "req_response (eX_HHDMRequest boot) = Some hr"
  shows "\<exists>k'. kmain_boot dev boot k = Some (Running k') \<and> k_console k' = fold eX_PrintChar
    (unlines (boot_log (reg_cs (k_cpu k)) es (hhdm_offset hr) (ucast (eX_FreePageCount (k_ppa k))) (boot_answers dev (k_world k))) @
      shell_prompt)
    (eX_Clear ((k_console k)\<lparr>Framebuffer := fb\<rparr>))"
proof -
  obtain k' where "kmain_boot dev boot k = Some (Running k')"
    using kmain_boot_reaches [OF assms(1,2), of dev] by (auto simp: reaches_def)
  then show ?thesis using kmain_boot_prints [OF assms(1-3)] by blast
qed

text \<open>Devices of which every port that is read has its own queue of bytes.\<close>

definition sample_ports :: trace_world where
  "sample_ports = \<lparr>inputs = (\<lambda>port. if port = 0x40 then [0x9B, 0x2E, 0x10, 0x2E, 0x07] else if port = 0x21 then [0xFC, 0xFC]
     else if port = 0x20 then [0x02] else if port = 0x64 then [0x1C] else []), writes = []\<rparr>"

lemma sample_answers: "boot_answers trace_devices sample_ports = \<lparr>read_count1 = 11931, read_count2 = 11792,
    read_mask = 0xFC, read_pit = 0x07, read_irr = 0x02, read_status = 0x1C, read_kbc_mask = 0xFC\<rparr>"
  by (simp add: boot_answers_def boot_accesses_def readings_of_def sample_ports_def trace_devices_def)

theorem kmain_prints_boot_log_witness:
  "\<exists>k'. kmain_boot trace_devices sample_boot (sample_state sample_ports) = Some (Running k') \<and>
     k_console k' = fold eX_PrintChar (unlines (boot_log 0x28 [sample_entry] 0xFFFF800000000000 0
         \<lparr>read_count1 = 11931, read_count2 = 11792, read_mask = 0xFC, read_pit = 0x07, read_irr = 0x02,
          read_status = 0x1C, read_kbc_mask = 0xFC\<rparr>) @ shell_prompt)
       (eX_Clear (sample_console\<lparr>Framebuffer := sample_framebuffer\<rparr>))"
proof -
  have hr: "req_response (eX_HHDMRequest sample_boot) = Some \<lparr>hhdm_revision = 0, hhdm_offset = 0xFFFF800000000000\<rparr>"
    by (simp add: sample_boot_def)
  show ?thesis
    using kmain_prints_boot_log [OF sample_boot_ok sample_state_bss hr, of trace_devices sample_ports]
    by (simp add: sample_state_def ppa_bss_def sample_cpu_def sample_answers [unfolded sample_state_def])
qed

text \<open>
  C25: \<^verbatim>\<open>kmain\<close> halts before it touches the screen when the boot loader does not support the revision
  of the protocol, provides no framebuffer or no memory map, or a framebuffer without 32 bits per
  pixel: nothing but the pointer to the framebuffer has changed. When nobody answers the requests in
  its image it halts at once. It halts with a stop screen when the offset of the higher half is missing.
\<close>

theorem kmain_halts_on_bad_boot:
  "(boot_rejected boot \<longrightarrow>
     (\<exists>fb. kmain_boot dev boot k = Some (Halted (k\<lparr>k_console := (k_console k)\<lparr>Framebuffer := fb\<rparr>\<rparr>)))) \<and>
   kmain_boot dev (boot_image syms) k = Some (Halted k) \<and>
   (boot_ok (boot\<lparr>eX_HHDMRequest := r\<rparr>) fb es \<and> kernel_bss k \<and> req_response (eX_HHDMRequest boot) = None \<longrightarrow>
     (\<exists>k' con. kmain_boot dev boot k = Some (Halted k') \<and> k_console k' =
       fold eX_PrintChar (bugcheck_text (bytes_of ''HHDM request failed.'') 0xE3 0) (eX_Clear con)))"
proof (intro conjI impI)
  assume "boot_rejected boot"
  then obtain fb where "kmain_checks boot k = Some (Halted (k\<lparr>k_console := (k_console k)\<lparr>Framebuffer := fb\<rparr>\<rparr>))"
    using kmain_checks_halts by blast
  then show "\<exists>fb. kmain_boot dev boot k = Some (Halted (k\<lparr>k_console := (k_console k)\<lparr>Framebuffer := fb\<rparr>\<rparr>))"
    by (auto simp: kmain_boot_def and_then_def)
next
  show "kmain_boot dev (boot_image syms) k = Some (Halted k)"
    by (simp add: kmain_boot_def and_then_def kmain_checks_def hcf_def boot_image_def LIMINE_BASE_REVISION_def
        LIMINE_BASE_REVISION_SUPPORTED_def)
next
  assume "boot_ok (boot\<lparr>eX_HHDMRequest := r\<rparr>) fb es \<and> kernel_bss k \<and> req_response (eX_HHDMRequest boot) = None"
  then show "\<exists>k' con. kmain_boot dev boot k = Some (Halted k') \<and> k_console k' =
      fold eX_PrintChar (bugcheck_text (bytes_of ''HHDM request failed.'') 0xE3 0) (eX_Clear con)"
    using kmain_boot_halts by metis
qed

text \<open>A boot loader that does not answer the request for the higher half.\<close>

definition sample_boot_no_hhdm :: boot where
  "sample_boot_no_hhdm = sample_boot\<lparr>eX_HHDMRequest := eX_HHDMRequest (boot_image sample_symbols)\<rparr>"

theorem kmain_halts_on_bad_boot_witness:
  "\<exists>k' con. kmain_boot list_controller sample_boot_no_hhdm sample_kernel = Some (Halted k') \<and> k_console k' =
     fold eX_PrintChar (bugcheck_text (bytes_of ''HHDM request failed.'') 0xE3 0) (eX_Clear con)"
proof -
  have "sample_boot_no_hhdm\<lparr>eX_HHDMRequest := eX_HHDMRequest sample_boot\<rparr> = sample_boot"
    by (simp add: sample_boot_no_hhdm_def)
  moreover have "req_response (eX_HHDMRequest sample_boot_no_hhdm) = None"
    by (simp add: sample_boot_no_hhdm_def boot_image_def)
  ultimately show ?thesis
    using sample_boot_ok sample_kernel_bss kmain_halts_on_bad_boot [of sample_boot_no_hhdm list_controller sample_kernel] by metis
qed

text \<open>
  C2: from key to screen, with interrupts and keys at any moment. In every run of the booted kernel in
  which timer interrupts and arriving bytes come between any two steps of the loop, the middle of a
  pass included, the edited line and the whole screen are what the line editor makes of the characters
  taken from the ring; the controller itself raises no interrupt; every byte that arrived has been scanned or still waits; every character that the
  scanned bytes type has been taken or waits in order, except the counted ones that found the ring full;
  none is lost exactly when never more than 127 typed characters have been waiting; the ticks are
  counted; the code is never stuck; and while the screen has room its bottom row shows prompt and line.
\<close>

theorem interleaved_keys_to_screen:
  assumes "kbc_queue dev q" and "\<And>w. q (dev_outb dev 0x20 0x20 w) = q w" and "booted boot fb es k0"
    and "kernel_trace dev q (boot_symbols boot) (Poll_Status, k0) tr (p, k)" and "ticks tr + 1 < 2 ^ 64"
  shows "(shell_line (k_shell k), k_console k) = fold shell_step (taken tr) ([], k_console k0) \<and>
    q (k_world k0) @ arrived tr = scanned tr @ q (k_world k) \<and>
    subseq (taken tr @ kb_pending (k_keyboard k)) (typed False False False (scanned tr)) \<and>
    length (typed False False False (scanned tr)) = length (taken tr @ kb_pending (k_keyboard k)) + lost tr \<and>
    (lost tr = 0 \<longrightarrow> taken tr @ kb_pending (k_keyboard k) = typed False False False (scanned tr)) \<and>
    (lost tr = 0 \<longleftrightarrow> keeps_up tr) \<and>
    unat (k_ticks k) = ticks tr + 1 \<and> (\<exists>s'. loop_step dev (p, k) = Some s') \<and>
    (text_row_fits (k_console k0) 133 (unat (CursorY (k_console k0)) + 6 * length (taken tr)) \<longrightarrow>
      shell_visible (shell_line (k_shell k), k_console k))"
proof -
  let ?T = "typed False False False (scanned tr)" and ?P = "kb_pending (k_keyboard k)"
  note start = booted_trace_inv [OF assms(3), of q]
  have inv: "trace_inv q (boot_symbols boot) (k_console k0) (q (k_world k0)) tr (p, k)"
    by (rule trace_inv_run [OF assms(1,2,4) start assms(5)])
  then have line: "(shell_line (k_shell k), k_console k) = fold shell_step (taken tr) ([], k_console k0)"
    and bytes: "q (k_world k0) @ arrived tr = scanned tr @ q (k_world k)" and chars: "chars_inv tr (k_keyboard k)"
    and count: "k_ticks k = of_nat (ticks tr + 1)"
    unfolding trace_inv_def by blast+
  have sub: "subseq (taken tr @ ?P) ?T" and len: "length ?T = length (taken tr @ ?P) + lost tr"
    using chars unfolding chars_inv_def length_append by blast+
  have "lost tr = 0 \<longrightarrow> taken tr @ ?P = ?T"
    using len subseq_same_length [OF sub] by (simp del: length_kb_pending)
  moreover have "lost tr = 0 \<longleftrightarrow> keeps_up tr" by (rule lost_iff_backlog [OF assms(1,2,4) start assms(5)])
  moreover have "unat (k_ticks k) = ticks tr + 1"
    using assms(5) unfolding count by (simp add: unat_of_nat64 del: of_nat_Suc of_nat_add)
  moreover have "\<exists>s'. loop_step dev (p, k) = Some s'" using trace_inv_code [OF assms(1) inv] by blast
  ultimately show ?thesis using line bytes sub len booted_visible [OF assms(3), of "taken tr"] by metis
qed

text \<open>A booted sample, with the controller as a list of bytes, for runs of the loop.\<close>

lemma sample_booted: "\<exists>k0 :: u8 list kernel. booted sample_boot sample_framebuffer [sample_entry] k0"
  using kmain_boot_reaches [OF sample_boot_ok sample_kernel_bss] unfolding reaches_def by blast

lemma list_controller_eoi: "dev_outb list_controller 0x20 0x20 w = w"
  by (simp add: list_controller_def)

text \<open>
  The key h arrives between two steps, and a timer interrupt is taken after the driver has seen the
  status and before it reads the byte.
\<close>

lemma sample_trace:
  assumes "booted sample_boot sample_framebuffer [sample_entry] k0" and "k_world k0 = []"
  shows "\<exists>k. kernel_trace list_controller (\<lambda>q. q) (boot_symbols sample_boot) (Poll_Status, k0)
    [Arrive [0x23], Quiet, Tick, Scan 0x23 False, Quiet, Take (chr CHR ''h'')] (Shell_Get, k)"
proof -
  let ?dev = list_controller and ?t = "kernel_trace list_controller (\<lambda>q. q) (boot_symbols sample_boot) (Poll_Status, k0)"
  let ?k1 = "k0\<lparr>k_world := [0x23]\<rparr>"
  let ?k2 = "?k1\<lparr>k_ticks := k_ticks ?k1 + 1, k_world := dev_outb ?dev 0x20 0x20 (k_world ?k1)\<rparr>"
  note start = booted_trace_inv [OF assms(1), of "\<lambda>q. q"]
  have gate: "gate_target (k_tables ?k1) 0x20 = Some (0x08, addr_TimerHandler (boot_symbols sample_boot))"
    and cpu: "reg_if (k_cpu ?k1)" "k_ticks ?k1 \<noteq> 0" and kb0: "kb_inv (k_keyboard k0)" "kb_pending (k_keyboard k0) = []"
      "typed_by (k_keyboard k0) = typed False False False" and sh: "shell_inv (k_shell k0)"
    using assms(1) by (simp_all add: booted_def)
  have h: "typed False False False [0x23] = [chr CHR ''h'']" by code_simp
  obtain kb where kb: "eX_Keyboard_HandleScancode 0x23 (k_keyboard k0) = Some kb" "kb_inv kb" "kb_pending kb = [chr CHR ''h'']"
    using eX_Keyboard_HandleScancode_typed [OF kb0(1), where b = "0x23"] by (auto simp: kb0 h simp del: typed.simps)
  obtain kb' where kb': "eX_Keyboard_GetChar kb = Some (uint (chr CHR ''h''), kb')"
    using kb.getc_next [OF kb(2,3)] by blast
  obtain sh con where key: "eX_Shell_key (uint (chr CHR ''h'')) (k_shell k0, k_console k0) = Some (sh, con)"
    using eX_Shell_key_refines [OF sh] by blast
  let ?k3 = "?k2\<lparr>k_world := [], k_keyboard := kb\<rparr>"
  note snoc = kernel_trace.snoc [of ?dev "\<lambda>q. q"]
  have "?t ([] @ [Arrive [0x23]]) (Poll_Status, ?k1)"
    by (rule snoc [OF kernel_trace.start kernel_step.arrive]) (simp add: assms(2))
  from snoc [OF this kernel_step.code, of "(Poll_Data, ?k1)"]
  have "?t ([Arrive [0x23]] @ [Quiet]) (Poll_Data, ?k1)"
    by (simp add: list_controller_def eX_Keyboard_Inb_def)
  from snoc [OF this kernel_step.tick [OF cpu(1) software_interrupt_timer [OF gate cpu(2)]]]
  have "?t ([Arrive [0x23], Quiet] @ [Tick]) (Poll_Data, ?k2)" by simp
  from snoc [OF this kernel_step.code, of "(Poll_Status, ?k3)"]
  have "?t ([Arrive [0x23], Quiet, Tick] @ [Scan 0x23 False]) (Poll_Status, ?k3)"
    using kb(1) kb0(2) by (simp add: list_controller_def eX_Keyboard_Inb_def)
  from snoc [OF this kernel_step.code, of "(Shell_Get, ?k3)"]
  have "?t ([Arrive [0x23], Quiet, Tick, Scan 0x23 False] @ [Quiet]) (Shell_Get, ?k3)"
    by (simp add: list_controller_def eX_Keyboard_Inb_def)
  from snoc [OF this kernel_step.code, of "(Shell_Get, ?k3\<lparr>k_keyboard := kb', k_shell := sh, k_console := con\<rparr>)"]
  show ?thesis using kb(3) kb' key by (intro exI) simp
qed

theorem interleaved_keys_to_screen_witness:
  "\<exists>k0 k. booted sample_boot sample_framebuffer [sample_entry] k0 \<and>
     kernel_trace list_controller (\<lambda>q. q) (boot_symbols sample_boot) (Poll_Status, k0)
       [Arrive [0x23], Quiet, Tick, Scan 0x23 False, Quiet, Take (chr CHR ''h'')] (Shell_Get, k) \<and>
     shell_line (k_shell k) = bytes_of ''h'' \<and> k_console k = eX_PrintChar (chr CHR ''h'') (k_console k0) \<and> k_ticks k = 2"
proof -
  obtain k0 :: "u8 list kernel" where k0: "booted sample_boot sample_framebuffer [sample_entry] k0" using sample_booted by blast
  let ?k = "k0\<lparr>k_world := []\<rparr>" and ?tr = "[Arrive [0x23], Quiet, Tick, Scan 0x23 False, Quiet, Take (chr CHR ''h'')]"
  have b: "booted sample_boot sample_framebuffer [sample_entry] ?k" using k0 by (simp add: booted_def)
  obtain k where run: "kernel_trace list_controller (\<lambda>q. q) (boot_symbols sample_boot) (Poll_Status, ?k) ?tr (Shell_Get, k)"
    using sample_trace [OF b] by auto
  have tr: "taken ?tr = [chr CHR ''h'']" "ticks ?tr = 1" by (simp_all add: trace_defs)
  have "(shell_line (k_shell k), k_console k) = shell_step (chr CHR ''h'') ([], k_console ?k)" "unat (k_ticks k) = 2"
    using interleaved_keys_to_screen [OF list_controller_queue list_controller_eoi b run] unfolding tr by fastforce+
  moreover from this(2) have "k_ticks k = 2" by (simp add: word_unat_eq_iff)
  ultimately show ?thesis using b run by (intro exI [of _ ?k] exI [of _ k]) (simp add: shell_step_def bytes_of_def)
qed

text \<open>
  C3: from power-on to the last key. On a screen of 144 columns and a row for each line of the log and six for
  each character, every cell of the video memory is determined after any run of the kernel, from the start
  of \<^verbatim>\<open>kmain\<close> on and with interrupts and keys at any moment. The screen shows the boot log, with what the
  devices answered, followed by the session that the line editor makes of the characters taken so far, and
  background colour where there is no character. Outside of the screen the memory is as it was at power-on.
  The boot loader provides what its protocol promises.
\<close>

theorem screen_from_power_on:
  assumes "kbc_queue dev q" and "\<And>w. q (dev_outb dev 0x20 0x20 w) = q w" and boot: "boot_ok boot fb es" "kernel_bss k"
    and hr: "req_response (eX_HHDMRequest boot) = Some hr" and run: "kmain_boot dev boot k = Some (Running k0)"
    and "kernel_trace dev q (boot_symbols boot) (Poll_Status, k0) tr (p, k')" and "ticks tr + 1 < 2 ^ 64"
    and con: "con = (k_console k)\<lparr>Framebuffer := fb\<rparr>" "screen_ok con" and cols: "144 \<le> screen_cols con"
    and rows: "24 + length es + 6 * length (taken tr) < screen_rows con"
  defines "log \<equiv> boot_log (reg_cs (k_cpu k)) es (hhdm_offset hr) (ucast (eX_FreePageCount (k_ppa k))) (boot_answers dev (k_world k))"
  shows "\<exists>t0 t. boot_text (screen_cols con) (screen_rows con) log = Some t0 \<and>
    (\<forall>j < length log. text_line t0 j (length (log ! j)) = map Some (log ! j)) \<and>
    text_line t0 (length log) 6 = map Some shell_prompt \<and>
    text_session (taken tr) ([], t0) = Some (shell_line (k_shell k'), t) \<and> vram (k_console k') = render con t \<and>
    unat (CursorX (k_console k')) = text_col t \<and> unat (CursorY (k_console k')) = text_row t \<and>
    (\<forall>i. \<not> on_screen con i \<longrightarrow> vram (k_console k') i = vram (k_console k) i)"
proof -
  have "booted boot fb es k0" using kmain_boot_reaches [OF boot, of dev] by (simp add: run reaches_def)
  then have "trace_inv q (boot_symbols boot) (k_console k0) (q (k_world k0)) tr (p, k')"
    by (rule trace_inv_run [OF assms(1,2,7) booted_trace_inv assms(8)])
  then have line: "(shell_line (k_shell k'), k_console k') = fold shell_step (taken tr) ([], k_console k0)"
    unfolding trace_inv_def by blast
  have k0: "k_console k0 = fold eX_PrintChar (unlines log @ shell_prompt) (eX_Clear con)"
    unfolding log_def using kmain_boot_prints [OF boot hr run] con(1) by simp
  have fits: "list_all line_fits log" unfolding log_def by (rule boot_log_fits)
  have rows': "length log < screen_rows con" using rows by (simp add: log_def length_boot_log)
  obtain t0 where t0: "boot_text (screen_cols con) (screen_rows con) log = Some t0" "editing ([], t0)"
      "text_row t0 = 24 + length es" "text_size t0 = (screen_cols con, screen_rows con)"
    using boot_text_fits [OF cols rows' fits] by (auto simp: log_def length_boot_log)
  have painted: "paints (\<lambda>v. v = Background con) con (k_console k0) t0"
    unfolding k0 using con(2) t0(1) by (rule boot_text_painted)
  obtain line' t where t: "text_session (taken tr) ([], t0) = Some (line', t)"
    using text_session_fits [OF t0(2), of "taken tr"] t0(3,4) cols rows by (auto simp: text_size_def)
  then have *: "shell_line (k_shell k') = line'" "paints (\<lambda>v. v = Background con) con (k_console k') t"
    using text_session_painted [OF painted t] line by auto
  moreover have "unat (CursorX (k_console k')) = text_col t" "unat (CursorY (k_console k')) = text_row t"
    using *(2) by (simp_all add: paints_def)
  moreover have "vram (k_console k') i = vram (k_console k) i" if "\<not> on_screen con i" for i
    using paints_outside [OF *(2) that] con(1) by simp
  ultimately show ?thesis using t0(1) t paints_render [OF *(2)] boot_text_lines [OF t0(1) fits] by (intro exI [of _ t0] exI [of _ t]) simp
qed

theorem screen_from_power_on_witness:
  "\<exists>k0 t. kmain_boot list_controller sample_boot sample_kernel = Some (Running k0) \<and>
     vram (k_console k0) = render (sample_console\<lparr>Framebuffer := sample_framebuffer\<rparr>) t \<and>
     text_line t 0 21 = map Some (bytes_of ''Before GDT: CS = 0x28'') \<and> text_line t 25 6 = map Some shell_prompt \<and>
     vram (k_console k0) (1280 * 720) = 0"
proof -
  obtain k0 where k0: "kmain_boot list_controller sample_boot sample_kernel = Some (Running k0)"
    using kmain_boot_reaches [OF sample_boot_ok sample_kernel_bss, of list_controller] by (auto simp: reaches_def)
  let ?con = "(k_console sample_kernel)\<lparr>Framebuffer := sample_framebuffer\<rparr>"
  let ?log = "boot_log (reg_cs (k_cpu sample_kernel)) [sample_entry] (hhdm_offset \<lparr>hhdm_revision = 0, hhdm_offset = 0xFFFF800000000000\<rparr>)
      (ucast (eX_FreePageCount (k_ppa sample_kernel))) (boot_answers list_controller (k_world sample_kernel))"
  have con: "screen_ok ?con" "screen_cols ?con = 160" "screen_rows ?con = 90"
    by (simp_all add: screen_ok_def screen_cols_def screen_rows_def sample_framebuffer_def rgb_framebuffer_def stride_def)
  have hr: "req_response (eX_HHDMRequest sample_boot) = Some \<lparr>hhdm_revision = 0, hhdm_offset = 0xFFFF800000000000\<rparr>"
    by (simp add: sample_boot_def)
  have room: "144 \<le> screen_cols ?con" "24 + length [sample_entry] + 6 * length (taken []) < screen_rows ?con"
    using con by simp_all
  have "ticks [] + 1 < 2 ^ 64" by simp
  from screen_from_power_on [OF list_controller_queue list_controller_eoi sample_boot_ok sample_kernel_bss hr k0
      kernel_trace.start this HOL.refl con(1) room]
  obtain t0 t where rows: "\<forall>j < length ?log. text_line t0 j (length (?log ! j)) = map Some (?log ! j)"
      "text_line t0 (length ?log) 6 = map Some shell_prompt"
      and t: "text_session (taken []) ([], t0) = Some (shell_line (k_shell k0), t)" "vram (k_console k0) = render ?con t"
      and out: "\<forall>i. \<not> on_screen ?con i \<longrightarrow> vram (k_console k0) i = vram (k_console sample_kernel) i"
    by blast
  have "t0 = t" using t(1) by (simp add: text_session_def)
  moreover have "number_text True 16 40 = bytes_of ''28''"
    by (simp add: number_text_def digits_lsb.simps digit_chars_def cstr_def bytes_of_def)
  then have "?log ! 0 = bytes_of ''Before GDT: CS = 0x28''"
    by (simp add: boot_log_def log_gdt_def bytes_of_def sample_kernel_def sample_state_def sample_cpu_def)
  moreover have "length ?log = 25" by (simp add: length_boot_log)
  moreover have len: "length (bytes_of ''Before GDT: CS = 0x28'') = 21" by (simp add: bytes_of_def)
  ultimately have lines: "text_line t 0 21 = map Some (bytes_of ''Before GDT: CS = 0x28'')" "text_line t 25 6 = map Some shell_prompt"
    using rows(1) [rule_format, of 0] rows(2) by (simp_all add: len)
  have "\<not> on_screen ?con (1280 * 720)"
    by (simp add: on_screen_def sample_framebuffer_def rgb_framebuffer_def stride_def)
  then have "vram (k_console k0) (1280 * 720) = 0" using out by (simp add: sample_kernel_def sample_state_def sample_console_def)
  then show ?thesis using k0 t(2) lines by (auto simp: sample_kernel_def sample_state_def)
qed

text \<open>
  C4: the whole screen of the running kernel is the text of the session: from the boot on, in every run
  with interrupts and keys at any moment, the line editor run on characters alone, from the prompt and
  for the characters taken so far, tells what the framebuffer shows in every cell that the shell has
  written, and that no cell of the video memory outside of the screen has changed since the boot, whenever it
  has a result. It has one while there are 144 columns and six rows for each character. The prompt that
  the boot leaves has to stand on the screen.
\<close>

theorem kernel_screen_is_text:
  assumes "kbc_queue dev q" and "\<And>w. q (dev_outb dev 0x20 0x20 w) = q w" and "booted boot fb es k0"
    and "kernel_trace dev q (boot_symbols boot) (Poll_Status, k0) tr (p, k)" and "ticks tr + 1 < 2 ^ 64"
    and ok: "screen_ok (k_console k0)" "6 \<le> screen_cols (k_console k0)"
      "unat (CursorY (k_console k0)) < screen_rows (k_console k0)"
  shows "(\<forall>line t. text_session (taken tr) ([], text_prompt ([], k_console k0)) = Some (line, t) \<longrightarrow>
      shell_line (k_shell k) = line \<and> shows_text (screen_cols (k_console k0)) (screen_rows (k_console k0)) (k_console k) t \<and>
      (\<forall>i. \<not> on_screen (k_console k0) i \<longrightarrow> vram (k_console k) i = vram (k_console k0) i)) \<and>
    (144 \<le> screen_cols (k_console k0) \<and>
      unat (CursorY (k_console k0)) + 6 * length (taken tr) < screen_rows (k_console k0) \<longrightarrow>
      (\<exists>line t. text_session (taken tr) ([], text_prompt ([], k_console k0)) = Some (line, t)))"
proof -
  let ?con = "k_console k0"
  have "trace_inv q (boot_symbols boot) ?con (q (k_world k0)) tr (p, k)"
    by (rule trace_inv_run [OF assms(1,2,4) booted_trace_inv [OF assms(3)] assms(5)])
  then have line: "(shell_line (k_shell k), k_console k) = fold shell_step (taken tr) ([], ?con)"
    unfolding trace_inv_def by blast
  have "text_row_fits ?con 6 (unat (CursorY ?con))" using screen_cell_fits [OF ok(1), of 5] ok(2,3) by simp
  note visible = booted_prompt_visible [OF assms(3) this]
  have shown: "shows_text (screen_cols ?con) (screen_rows ?con) ?con (text_prompt ([], ?con))"
    and editing: "editing ([], text_prompt ([], ?con))"
    using text_prompt_shown [OF visible ok(1)] ok(2,3) by (simp_all add: line_ok_def)
  have "shell_line (k_shell k) = line' \<and> shows_text (screen_cols ?con) (screen_rows ?con) (k_console k) t \<and>
      (\<forall>i. \<not> on_screen ?con i \<longrightarrow> vram (k_console k) i = vram ?con i)"
    if "text_session (taken tr) ([], text_prompt ([], ?con)) = Some (line', t)" for line' t
    using text_session_shown [OF shown that] line by auto
  moreover have "\<exists>line' t. text_session (taken tr) ([], text_prompt ([], ?con)) = Some (line', t)"
    if "144 \<le> screen_cols ?con \<and> unat (CursorY ?con) + 6 * length (taken tr) < screen_rows ?con"
    using text_session_fits [OF editing, of "taken tr"] that by (auto simp: text_prompt_def text_unknown_def)
  ultimately show ?thesis by blast
qed

text \<open>The sample, booted, with the prompt in the first row of its screen.\<close>

lemma sample_booted_cleared:
  "\<exists>(k0 :: u8 list kernel) con. booted sample_boot sample_framebuffer [sample_entry] k0 \<and> k_world k0 = [] \<and>
     k_console k0 = fold eX_PrintChar shell_prompt (eX_Clear con)"
proof -
  obtain k0 :: "u8 list kernel" where k0: "booted sample_boot sample_framebuffer [sample_entry] k0" using sample_booted by blast
  let ?con = "eX_Clear (k_console k0)"
  let ?k = "k0\<lparr>k_world := [], k_console := fold eX_PrintChar shell_prompt ?con\<rparr>"
  have "booted sample_boot sample_framebuffer [sample_entry] ?k"
    using k0 unfolding booted_def by (auto intro!: exI [of _ ?con])
  then show ?thesis by (intro exI [of _ ?k] exI [of _ "k_console k0"]) simp
qed

theorem kernel_screen_is_text_witness:
  "\<exists>k0 k. booted sample_boot sample_framebuffer [sample_entry] k0 \<and>
     kernel_trace list_controller (\<lambda>q. q) (boot_symbols sample_boot) (Poll_Status, k0)
       [Arrive [0x23], Quiet, Tick, Scan 0x23 False, Quiet, Take (chr CHR ''h'')] (Shell_Get, k) \<and>
     shows_char (k_console k) 4 0 (chr CHR ''>'') \<and> shows_char (k_console k) 6 0 (chr CHR ''h'')"
proof -
  let ?h = "chr CHR ''h''" and ?tr = "[Arrive [0x23], Quiet, Tick, Scan 0x23 False, Quiet, Take (chr CHR ''h'')]"
  obtain k0 :: "u8 list kernel" and con where b: "booted sample_boot sample_framebuffer [sample_entry] k0"
    and k0: "k_world k0 = []" "k_console k0 = fold eX_PrintChar shell_prompt (eX_Clear con)"
    using sample_booted_cleared by blast
  obtain k where run: "kernel_trace list_controller (\<lambda>q. q) (boot_symbols sample_boot) (Poll_Status, k0) ?tr (Shell_Get, k)"
    using sample_trace [OF b k0(1)] by blast
  let ?con0 = "k_console k0"
  have tr: "taken ?tr = [?h]" "ticks ?tr = 1" by (simp_all add: trace_defs)
  have ok: "screen_ok ?con0" "screen_cols ?con0 = 160" "screen_rows ?con0 = 90"
    using b by (simp_all add: booted_def screen_ok_def screen_cols_def screen_rows_def sample_framebuffer_def rgb_framebuffer_def stride_def)
  have "10 \<notin> set shell_prompt" using shell_prompt_facts(2) by blast
  then have y: "CursorY ?con0 = 0"
    by (simp add: k0(2) CursorY_fold_eX_PrintChar count_list_0_iff [THEN iffD2])
  have "screen_ok ?con0" "6 \<le> screen_cols ?con0" "unat (CursorY ?con0) < screen_rows ?con0" using ok y by simp_all
  note shown = kernel_screen_is_text [OF list_controller_queue list_controller_eoi b run _ this, unfolded tr]
  obtain line t where t: "text_session [?h] ([], text_prompt ([], ?con0)) = Some (line, t)"
    using shown y ok by auto
  then have "shows_text 160 90 (k_console k) t" using shown ok by auto
  moreover have "text_cell t (4, 0) = Some (chr CHR ''>'')" "text_cell t (6, 0) = Some ?h"
    using t y by (auto simp: text_session_def view_step_def text_put_def text_prompt_def text_unknown_def
        shell_prompt_def bytes_of_def bind_eq_Some_conv split: if_splits)
  ultimately show ?thesis using b run unfolding shows_text_def by (intro exI [of _ k0] exI [of _ k]) blast
qed

text \<open>
  C10: nothing typed is left behind. From any state that the running kernel reaches, however it is
  interrupted by the timer, it comes to the end of a pass with an empty controller and an empty ring
  within three steps of the code for every waiting byte, one for every waiting character and four more,
  unless more bytes arrive. Then every byte that has arrived has been scanned, and when no character was
  lost the line and the screen are those of everything typed since the boot.
\<close>

theorem typed_keys_are_handled:
  assumes "kbc_queue dev q" and "\<And>w. q (dev_outb dev 0x20 0x20 w) = q w" and "booted boot fb es k0"
    and "kernel_trace dev q (boot_symbols boot) (Poll_Status, k0) tr (p, k)"
    and "kernel_trace dev q (boot_symbols boot) (p, k) tr' s'" and "ticks (tr @ tr') + 1 < 2 ^ 64"
    and "\<not> list_ex is_arrival tr'"
    and "3 * length (q (k_world k)) + length (kb_pending (k_keyboard k)) + 4 \<le> code_steps tr'"
  shows "\<exists>us vs k'. tr' = us @ vs \<and> kernel_trace dev q (boot_symbols boot) (p, k) us (Pass_End, k') \<and>
    q (k_world k') = [] \<and> kb_pending (k_keyboard k') = [] \<and> scanned (tr @ us) = q (k_world k0) @ arrived tr \<and>
    (shell_line (k_shell k'), k_console k') = fold shell_step (taken (tr @ us)) ([], k_console k0) \<and>
    (lost (tr @ us) = 0 \<longrightarrow> taken (tr @ us) = typed False False False (q (k_world k0) @ arrived tr))"
proof -
  have "ticks tr + 1 < 2 ^ 64" using assms(6) by simp
  then have inv: "trace_inv q (boot_symbols boot) (k_console k0) (q (k_world k0)) tr (p, k)"
    by (rule trace_inv_run [OF assms(1,2,4) booted_trace_inv [OF assms(3)]])
  have "work_left q (p, k) \<le> code_steps tr'" using work_left_bound [of q p k] assms(8) by (rule le_trans)
  from drained_run [OF assms(1,2) inv assms(5-7) this] obtain us vs k' where
    us: "tr' = us @ vs" "kernel_trace dev q (boot_symbols boot) (p, k) us (Pass_End, k')"
      "q (k_world k') = []" "kb_pending (k_keyboard k') = []"
    and inv': "trace_inv q (boot_symbols boot) (k_console k0) (q (k_world k0)) (tr @ us) (Pass_End, k')" by blast
  have "arrived us = []" using no_arrival [of us] assms(7) by (simp add: us(1))
  then have bytes: "scanned (tr @ us) = q (k_world k0) @ arrived tr" using inv' us(3) by (simp add: trace_inv_def)
  have line: "(shell_line (k_shell k'), k_console k') = fold shell_step (taken (tr @ us)) ([], k_console k0)"
    and chars: "chars_inv (tr @ us) (k_keyboard k')"
    using inv' unfolding trace_inv_def by blast+
  have "subseq (taken (tr @ us)) (typed False False False (scanned (tr @ us)))"
      "length (typed False False False (scanned (tr @ us))) = length (taken (tr @ us)) + lost (tr @ us)"
    using chars unfolding chars_inv_def us(4) by simp_all
  then have "lost (tr @ us) = 0 \<longrightarrow> taken (tr @ us) = typed False False False (q (k_world k0) @ arrived tr)"
    unfolding bytes by (auto intro: subseq_same_length simp del: typed.simps)
  then show ?thesis using us bytes line by (intro exI [of _ us] exI [of _ vs] exI [of _ k'] conjI)
qed

theorem typed_keys_are_handled_witness:
  "\<exists>k0 k us. booted sample_boot sample_framebuffer [sample_entry] k0 \<and> k_world k0 = [0x23] \<and>
     kernel_trace list_controller (\<lambda>q. q) (boot_symbols sample_boot) (Poll_Status, k0) us (Pass_End, k) \<and>
     scanned us = [0x23] \<and> k_world k = []"
proof -
  obtain k0 :: "u8 list kernel" where k0: "booted sample_boot sample_framebuffer [sample_entry] k0" using sample_booted by blast
  let ?k = "k0\<lparr>k_world := [0x23]\<rparr>" and ?trace = "kernel_trace list_controller (\<lambda>q. q) (boot_symbols sample_boot)"
  have b: "booted sample_boot sample_framebuffer [sample_entry] ?k" using k0 by (simp add: booted_def)
  have none: "kb_pending (k_keyboard ?k) = []" using b by (simp add: booted_def)
  note start = booted_trace_inv [OF b, of "\<lambda>q. q"]
  obtain tr s where run: "?trace (Poll_Status, ?k) tr s" "code_steps tr = 7" "ticks tr = 0" "\<not> list_ex is_arrival tr"
    using code_run_exists [OF list_controller_queue start, of 7] by blast
  have "\<exists>us vs k'. tr = us @ vs \<and> ?trace (Poll_Status, ?k) us (Pass_End, k') \<and> k_world k' = [] \<and>
      kb_pending (k_keyboard k') = [] \<and> scanned ([] @ us) = k_world ?k @ arrived [] \<and>
      (shell_line (k_shell k'), k_console k') = fold shell_step (taken ([] @ us)) ([], k_console ?k) \<and>
      (lost ([] @ us) = 0 \<longrightarrow> taken ([] @ us) = typed False False False (k_world ?k @ arrived []))"
    by (rule typed_keys_are_handled [OF list_controller_queue list_controller_eoi b kernel_trace.start run(1)])
      (use run(2-4) none in \<open>simp_all del: length_kb_pending\<close>)
  then obtain us k where "?trace (Poll_Status, ?k) us (Pass_End, k)" "k_world k = []" "scanned us = [0x23]"
    by (elim exE conjE) simp
  then show ?thesis using b by (intro exI [of _ ?k] exI [of _ k] exI [of _ us]) simp
qed

text \<open>
  C15: one pass of the endless loop does all the work that waits. In any state of keyboard and shell that
  satisfies their invariants the pass returns, the controller and the ring are empty afterwards, and line and
  screen are what the line editor makes of the characters that waited in the ring followed by those that the
  bytes of the controller type under the modifiers held, the first 127 of them; nothing else changes but
  the devices. The pass goes through the small steps of polling and shell, between which interrupts may come.
\<close>

theorem kmain_pass_handles_keys:
  assumes "kbc_queue dev q" and "kb_inv (k_keyboard k)" and "shell_inv (k_shell k)"
  shows "\<exists>w kb sh con. kmain_iteration dev k = Some (k\<lparr>k_world := w, k_keyboard := kb, k_shell := sh, k_console := con\<rparr>) \<and>
    pass_steps dev (Poll_Status, k) (Pass_End, k\<lparr>k_world := w, k_keyboard := kb, k_shell := sh, k_console := con\<rparr>) \<and>
    q w = [] \<and> kb_inv kb \<and> kb_pending kb = [] \<and> shell_inv sh \<and>
    (shell_line sh, con) = fold shell_step
      (take 127 (kb_pending (k_keyboard k) @ typed (ShiftPressed (k_keyboard k)) (CapsLock (k_keyboard k))
        (ExtendedScancode (k_keyboard k)) (q (k_world k))))
      (shell_line (k_shell k), k_console k)"
  using kmain_iteration_handles [OF assms] unfolding kmain_iteration_pass_steps by blast

text \<open>A character waits in the ring, and the controller holds the key h and its release.\<close>

theorem kmain_pass_handles_keys_witness:
  "\<exists>k'. kmain_iteration list_controller sample_kernel = Some k' \<and> k_world k' = [] \<and> kb_pending (k_keyboard k') = [] \<and>
     shell_line (k_shell k') = [65, chr CHR ''h'']"
proof -
  have k: "kb_inv (k_keyboard sample_kernel)" "shell_inv (k_shell sample_kernel)" "kb_pending (k_keyboard sample_kernel) = [65]"
      "shell_line (k_shell sample_kernel) = []" "k_world sample_kernel = [0x23, 0xA3]"
    by (simp_all add: sample_kernel_def sample_state_def kb_example_inv kb_example_pending shell_example_inv shell_example_line)
  have flags: "ShiftPressed (k_keyboard sample_kernel) = False" "CapsLock (k_keyboard sample_kernel) = False"
      "ExtendedScancode (k_keyboard sample_kernel) = False"
    by (simp_all add: sample_kernel_def sample_state_def)
  have keys: "take 127 ([65] @ typed False False False [0x23, 0xA3]) = [65, chr CHR ''h'']" by code_simp
  have line: "fst (fold shell_step [65, chr CHR ''h''] ([], con)) = [65, chr CHR ''h'']" for con
    by (simp add: shell_step_def)
  obtain w kb sh con where pass:
      "kmain_iteration list_controller sample_kernel =
        Some (sample_kernel\<lparr>k_world := w, k_keyboard := kb, k_shell := sh, k_console := con\<rparr>)"
      "w = []" "kb_pending kb = []" "(shell_line sh, con) = fold shell_step [65, chr CHR ''h''] ([], k_console sample_kernel)"
    using kmain_pass_handles_keys [OF list_controller_queue k(1,2)] unfolding k(3-5) flags keys by blast
  have "shell_line sh = [65, chr CHR ''h'']" using line [of "k_console sample_kernel"] unfolding pass(4) [symmetric] by simp
  then show ?thesis using pass(1-3) by (intro exI [of _ "sample_kernel\<lparr>k_world := w, k_keyboard := kb, k_shell := sh, k_console := con\<rparr>"])
    (simp del: length_kb_pending)
qed

text \<open>
  From key to screen. In every run of the booted kernel, with passes of the loop, timer
  interrupts and device activity in any order, the edited line and the whole screen are those that
  the line editor produces for the characters that the scancodes read so far type; the timer
  changes neither and counts its interrupts; the loop can always make another pass; and while the
  screen has room its bottom row shows the prompt and the line.
\<close>

theorem kernel_from_key_to_screen:
  assumes "kbc_queue dev q" and "booted boot fb es k0" and "kernel_run dev q (boot_symbols boot) k0 codes n k"
    and "n + 1 < 2 ^ 64"
  shows "(shell_line (k_shell k), k_console k) = fold shell_step (typed False False False codes) ([], k_console k0) \<and>
    unat (k_ticks k) = n + 1 \<and> (\<exists>k'. kmain_iteration dev k = Some k') \<and>
    (text_row_fits (k_console k0) 133 (unat (CursorY (k_console k0)) + 6 * length (typed False False False codes)) \<longrightarrow>
      shell_visible (shell_line (k_shell k), k_console k))"
proof -
  have inv: "loop_inv (boot_symbols boot) (k_console k0) codes n k"
    using assms(1,3) booted_loop_inv [OF assms(2)] assms(4) by (rule loop_inv_run)
  then have line: "(shell_line (k_shell k), k_console k) = fold shell_step (typed False False False codes) ([], k_console k0)"
    by (simp add: loop_inv_def)
  have "\<exists>k'. kmain_iteration dev k = Some k'"
    using kmain_iteration_typed [OF assms(1), of k] inv unfolding loop_inv_def by blast
  moreover have "unat (k_ticks k) = n + 1"
    using inv assms(4) by (simp add: loop_inv_def unat_of_nat64 del: of_nat_Suc of_nat_add)
  moreover have "shell_visible (fold shell_step (typed False False False codes) ([], k_console k0))"
    if "text_row_fits (k_console k0) 133 (unat (CursorY (k_console k0)) + 6 * length (typed False False False codes))"
    using assms(2) that by (rule booted_visible)
  ultimately show ?thesis using line by metis
qed

theorem kernel_from_key_to_screen_witness:
  "\<exists>k0 k. kmain_boot list_controller sample_boot sample_kernel = Some (Running k0) \<and>
     kernel_run list_controller (\<lambda>q. q) (boot_symbols sample_boot) k0 [0x23, 0xA3] 0 k \<and>
     shell_line (k_shell k) = bytes_of ''h'' \<and> k_console k = eX_PrintChar (chr CHR ''h'') (k_console k0)"
proof -
  obtain k0 where k0: "kmain_boot list_controller sample_boot sample_kernel = Some (Running k0)"
      "booted sample_boot sample_framebuffer [sample_entry] k0"
    using kmain_boot_reaches [OF sample_boot_ok sample_kernel_bss] unfolding reaches_def by blast
  let ?k1 = "k0\<lparr>k_world := [0x23, 0xA3]\<rparr>"
  let ?run = "kernel_run list_controller (\<lambda>q. q) (boot_symbols sample_boot) k0"
  note screen = kernel_from_key_to_screen [OF list_controller_queue k0(2)]
  have h: "typed False False False [0x23, 0xA3] = [chr CHR ''h'']" by code_simp
  have run1: "?run [] 0 ?k1" by (intro kernel_run.device kernel_run.start)
  obtain k where k: "kmain_iteration list_controller ?k1 = Some k" using screen [OF run1] by auto
  have "typed_by (k_keyboard ?k1) = typed False False False" using k0(2) by (simp add: booted_def)
  then have "length (typed_by (k_keyboard ?k1) (k_world ?k1)) \<le> 127" by (simp add: h del: typed.simps)
  from kernel_run.pass [OF run1 this k] have run: "?run [0x23, 0xA3] 0 k" by simp
  have "(shell_line (k_shell k), k_console k) = shell_step (chr CHR ''h'') ([], k_console k0)"
    using screen [OF run] by (simp add: h del: typed.simps)
  then show ?thesis using k0(1) run by (auto simp: shell_step_def bytes_of_def)
qed

text \<open>
  C14: every step of the running kernel keeps its state well-formed, whatever the devices deliver: the
  descriptor tables keep their lengths, and the indices of the keyboard ring and of the line buffer
  stay inside of their arrays. In such a state every scancode and every update of the shell is
  handled without an access outside of an array.
\<close>

theorem kernel_steps_keep_wf:
  assumes "kernel_wf k"
  shows "(\<forall>k'. kmain_iteration dev k = Some k' \<longrightarrow> kernel_wf k') \<and>
    (\<forall>k'. software_interrupt dev syms v k = Some (Running k') \<longrightarrow> kernel_wf k') \<and>
    (\<exists>kb'. eX_Keyboard_HandleScancode b (k_keyboard k) = Some kb' \<and> kb_inv kb') \<and>
    (\<exists>kb' sh' con'. eX_Shell_Update (k_keyboard k) (k_shell k, k_console k) = Some (kb', sh', con') \<and>
      kb_inv kb' \<and> shell_inv sh')"
proof -
  have kb: "kb_inv (k_keyboard k)" and sh: "shell_inv (k_shell k)" using assms by (simp_all add: kernel_wf_def)
  have "\<exists>kb'. eX_Keyboard_HandleScancode b (k_keyboard k) = Some kb' \<and> kb_inv kb'"
    using eX_Keyboard_HandleScancode_typed [OF kb] by blast
  moreover have "\<exists>kb' sh' con'. eX_Shell_Update (k_keyboard k) (k_shell k, k_console k) = Some (kb', sh', con') \<and>
      kb_inv kb' \<and> shell_inv sh'"
    using kb sh by (metis eX_Shell_Update_total)
  ultimately show ?thesis using kmain_iteration_wf [OF assms] software_interrupt_wf [OF assms] by blast
qed

theorem kernel_steps_keep_wf_witness:
  "kernel_wf sample_kernel \<and> (\<exists>kb'. eX_Keyboard_HandleScancode 0x23 (k_keyboard sample_kernel) = Some kb' \<and> kb_inv kb')"
proof -
  have "kernel_wf sample_kernel"
    by (simp add: kernel_wf_def sample_kernel_def sample_state_def tables_bss_def kb_example_inv shell_example_inv)
  then show ?thesis using kernel_steps_keep_wf [of sample_kernel] by blast
qed

text \<open>
  C11: interrupts that come before the loop. Timer interrupts and bytes may already come between the calls of
  \<^verbatim>\<open>kmain\<close> that follow the instruction which enables interrupts. The calls go on nevertheless, and the state in
  which the loop is entered, like every later one, is a state that the kernel reaches when the whole boot
  runs without interrupts and the same events come in the same order at the head of the loop: what
  holds of all runs of the loop holds from the moment interrupts are enabled.
\<close>

theorem interrupts_before_loop_postponed:
  assumes "boot_ok boot fb es" and "kernel_bss k" and "ticks us + 1 < 2 ^ 64"
    and "and_then (kmain_set_up dev boot k) (kmain_services boot) = Some (Running k6)"
    and "boot_tail dev q (boot_symbols boot) (Keyboard_Start, k6) us (p, k1)"
  shows "\<exists>k0. kmain_boot dev boot k = Some (Running k0) \<and> booted boot fb es k0 \<and>
    (p \<noteq> Loop_Start \<longrightarrow> (\<exists>s. tail_step (p, k1) = Some s)) \<and>
    (p = Loop_Start \<longrightarrow> (\<forall>tr s. kernel_trace dev q (boot_symbols boot) (Poll_Status, k1) tr s \<longrightarrow>
      kernel_trace dev q (boot_symbols boot) (Poll_Status, k0) (us @ tr) s))"
proof -
  let ?k0 = "tail_finish Keyboard_Start k6"
  have boot: "kmain_boot dev boot k = Some (Running ?k0)"
    unfolding kmain_boot_def assms(4) by (simp add: and_then_def kmain_shell_finish)
  then have booted: "booted boot fb es ?k0"
    using kmain_boot_reaches [OF assms(1,2), of dev] by (simp add: reaches_def)
  then have "gate_target (k_tables k6) 0x20 = Some (0x08, addr_TimerHandler (boot_symbols boot))" "k_ticks k6 = 1"
    by (simp_all add: booted_def tail_finish_def)
  note run = boot_tail_postponed [OF assms(5,3) this, THEN conjunct1]
  then show ?thesis
    using boot booted tail_step_finish [of p k1] kernel_trace_append by (intro exI [of _ ?k0]) fastforce
qed

text \<open>A timer interrupt between the instruction and the first message.\<close>

theorem interrupts_before_loop_postponed_witness:
  "\<exists>k0 k1. kmain_boot list_controller sample_boot sample_kernel = Some (Running k0) \<and>
     kernel_trace list_controller (\<lambda>q. q) (boot_symbols sample_boot) (Poll_Status, k0) [Tick] (Poll_Status, k1)"
proof -
  let ?dev = list_controller and ?syms = "boot_symbols sample_boot"
  obtain k0 where boot: "kmain_boot ?dev sample_boot sample_kernel = Some (Running k0)"
      and k0: "booted sample_boot sample_framebuffer [sample_entry] k0"
    using kmain_boot_reaches [OF sample_boot_ok sample_kernel_bss, of ?dev] by (auto simp: reaches_def)
  obtain k6 where k6: "and_then (kmain_set_up ?dev sample_boot sample_kernel) (kmain_services sample_boot) = Some (Running k6)"
      and shell: "kmain_shell k6 = Some (Running k0)"
    using boot unfolding kmain_boot_def and_then_running [where f = kmain_shell] by blast
  have eq: "k0 = tail_finish Keyboard_Start k6" using shell by (simp add: kmain_shell_finish)
  let ?k = "k6\<lparr>k_keyboard := eX_Keyboard_Init (k_keyboard k6)\<rparr>"
  let ?k = "?k\<lparr>k_cpu := (k_cpu ?k)\<lparr>reg_if := True\<rparr>\<rparr>" and ?run = "boot_tail ?dev (\<lambda>q. q) ?syms (Keyboard_Start, k6)"
  have gate: "gate_target (k_tables ?k) 0x20 = Some (0x08, addr_TimerHandler ?syms)" "k_ticks ?k \<noteq> 0" "reg_if (k_cpu ?k)"
    using k0 by (simp_all add: eq booted_def tail_finish_def)
  have "?run [] (Tests_Completed, ?k)"
    by (intro boot_tail.code [OF boot_tail.code [OF boot_tail.start]], simp, simp)
  from boot_tail.between [OF this _ kernel_step.tick [OF gate(3) software_interrupt_timer [OF gate(1,2)]]]
  obtain k1 where "?run [Tick] (Loop_Start, k1)" using tail_completes by fastforce
  from interrupts_before_loop_postponed [OF sample_boot_ok sample_kernel_bss _ k6 this]
  show ?thesis using kernel_trace.start by (fastforce simp: ticks_def)
qed

text \<open>
  C18: the port writes of the kernel. From the start of \<^verbatim>\<open>kmain\<close> to any later moment before the first key
  the kernel writes exactly this sequence to the ports: the acknowledgement of the test interrupt, the
  initialisation of both interrupt controllers and of the timer, the commands that latch the timer count
  and select the request register, and then one acknowledgement for each timer interrupt.
\<close>

theorem kernel_port_writes:
  assumes "boot_ok boot fb es" and "kernel_bss k" and "kmain_boot trace_devices boot k = Some (Running k0)"
    and "kernel_trace trace_devices q (boot_symbols boot) (Poll_Status, k0) tr (p, k')" and "\<not> list_ex is_arrival tr"
  shows "writes (k_world k') = writes (k_world k) @ boot_writes @ replicate (ticks tr) (0x20, 0x20)"
proof -
  have "booted boot fb es k0" using kmain_boot_reaches [OF assms(1,2), of trace_devices] by (simp add: assms(3) reaches_def)
  then have "gate_target (k_tables (snd (Poll_Status, k0))) 0x20 = Some (0x08, addr_TimerHandler (boot_symbols boot))"
    by (simp add: booted_def)
  from kernel_trace_view [OF rec.port_watcher_axioms assms(4,5) this] show ?thesis
    by (simp add: kmain_boot_view [OF rec.port_watcher_axioms assms(1-3)] del: fold_replicate)
qed

theorem kernel_port_writes_witness:
  "\<exists>k0. kmain_boot trace_devices sample_boot (sample_state \<lparr>inputs = (\<lambda>_. []), writes = []\<rparr>) = Some (Running k0) \<and>
     writes (k_world k0) = boot_writes"
proof -
  let ?k = "sample_state \<lparr>inputs = (\<lambda>_. []), writes = []\<rparr>"
  obtain k0 where k0: "kmain_boot trace_devices sample_boot ?k = Some (Running k0)"
    using kmain_boot_reaches [OF sample_boot_ok sample_state_bss, of trace_devices] by (auto simp: reaches_def)
  from kernel_port_writes [OF sample_boot_ok sample_state_bss k0 kernel_trace.start] show ?thesis
    using k0 by (simp add: sample_state_def)
qed

text \<open>
  C38: on a machine with two interrupt controllers the first key shuts the processor down. After any run
  of the kernel in which no byte has arrived yet, interrupts are enabled, the lines of the timer and of
  the keyboard are the only enabled ones, and they interrupt with the vectors 0x20 and 0x21. The
  first leads to the timer handler. The second has no gate, and neither have the faults that this raises.
\<close>

theorem first_key_shuts_down:
  assumes "port_watcher dev pics pic_write" and "boot_ok boot fb es" and "kernel_bss k"
    and "kmain_boot dev boot k = Some (Running k0)"
    and "kernel_trace dev q (boot_symbols boot) (Poll_Status, k0) tr (p, k')" and "\<not> list_ex is_arrival tr"
    and "fault \<in> {0x0B, 0x0D}"
  defines "master \<equiv> fst (pics (k_world k'))" and "slave \<equiv> snd (pics (k_world k'))"
  shows "reg_if (k_cpu k') \<and> (\<forall>line. line_vector slave line = None) \<and>
    (\<forall>line. line_vector master line = (if line = 0 then Some 0x20 else if line = 1 then Some 0x21 else None)) \<and>
    interrupt_delivery (k_tables k') fault 0x20 = Some (0x08, addr_TimerHandler (boot_symbols boot)) \<and>
    interrupt_delivery (k_tables k') fault 0x21 = None"
proof -
  note after = running_pics [OF assms(1-6)]
  have gates: "gate_target (k_tables k') v =
      (if v = 0x06 then Some (0x08, addr_InvalidOpcodeHandler (boot_symbols boot))
       else if v = 0x0E then Some (0x08, addr_PageFaultHandler (boot_symbols boot))
       else if v = 0x20 then Some (0x08, addr_TimerHandler (boot_symbols boot)) else None)" for v
    using after(4) by (simp add: after(2,3) booted_def)
  have "reg_if (k_cpu k')" using after(4) by (simp add: after(3) booted_def)
  moreover have "interrupt_delivery (k_tables k') fault 0x21 = None"
    using assms(7) by (auto simp: interrupt_delivery_def gates)
  ultimately show ?thesis
    by (simp add: master_def slave_def programmed_vectors [OF after(1)] interrupt_delivery_def gates)
qed

text \<open>The controllers as the firmware may leave them.\<close>

definition sample_pc :: "pc kernel" where
  "sample_pc = sample_state \<lparr>pc_pics = (\<lparr>pic_awaits = 0, pic_offset = 8, pic_mask = 0\<rparr>,
     \<lparr>pic_awaits = 0, pic_offset = 0x70, pic_mask = 0\<rparr>), pc_keys = []\<rparr>"

lemma sample_pc_bss: "kernel_bss sample_pc"
  unfolding sample_pc_def by (rule sample_state_bss)

theorem first_key_shuts_down_witness:
  "\<exists>k0. kmain_boot pc_devices sample_boot sample_pc = Some (Running k0) \<and> reg_if (k_cpu k0) \<and>
     line_vector (fst (pc_pics (k_world k0))) 1 = Some 0x21 \<and> interrupt_delivery (k_tables k0) 0x0D 0x21 = None"
proof -
  obtain k0 where k0: "kmain_boot pc_devices sample_boot sample_pc = Some (Running k0)"
    using kmain_boot_reaches [OF sample_boot_ok sample_pc_bss, of pc_devices] by (auto simp: reaches_def)
  from first_key_shuts_down [OF pc.port_watcher_axioms sample_boot_ok sample_pc_bss k0 kernel_trace.start, where fault = "0x0D"]
  show ?thesis using k0 by auto
qed

text \<open>
  The boot messages about free pages and about the higher half offset never show a number:
  \<^verbatim>\<open>eX_Print\<close> knows neither \<^verbatim>\<open>%lu\<close> nor \<^verbatim>\<open>%0X\<close> and prints these formats as they are, whatever the arguments.
\<close>

theorem boot_formats_print_literally:
  "eX_Print (bytes_of ''PMM: %lu free pages (%lu KiB)'' @ [10, 0]) args con =
     Some (fold eX_PrintChar (bytes_of ''PMM: %lu free pages (%lu KiB)'' @ [10]) con) \<and>
   eX_Print (bytes_of ''HHDM offset high: %0X'' @ [10, 0]) args con =
     Some (fold eX_PrintChar (bytes_of ''HHDM offset high: %0X'' @ [10]) con) \<and>
   eX_Print (bytes_of ''HHDM offset low: %0X'' @ [10, 0]) args con =
     Some (fold eX_PrintChar (bytes_of ''HHDM offset low: %0X'' @ [10]) con)"
  using eX_Print_pmm_line eX_Print_hhdm_lines by blast

end
